(* ===== verification/Prelude.thy ===== *)
theory Prelude
  imports Main "HOL-Library.Word"
begin

text \<open>
  Shared ground of the development.

  \<^item> Bytes are \<open>8 word\<close>s; a \<open>Vec<u8>\<close> is a list of them.
  \<^item> A Rust \<open>char\<close> is its code point, a \<open>String\<close> the list of its characters.
  \<^item> Every panic of the Rust code is a value of \<open>panic\<close>; a computation that may panic has
    type \<open>panic + 'a\<close> (\<open>Inl\<close> the panic) and is sequenced by \<open>and_then\<close>. \<open>NoReturn\<close> is not a panic:
    it is the value of a loop whose fuel ran out. \<open>Failed\<close> is an \<open>Err\<close> that \<open>?\<close> hands up to \<open>main\<close>, where
    \<open>unwrap\<close> turns it into a panic.
  \<^item> \<open>usize\<close> is \<open>nat\<close> with the 64-bit behaviour written out where a user-supplied count can
    reach the border: \<open>usize_add\<close>, \<open>usize_mul\<close>, \<open>usize_sub\<close> wrap (release profile, the one
    README.md builds), \<open>usize_saturating_mul\<close> and the \<open>isize\<close> operations follow the standard library.
\<close>

named_theorems outcome_simps \<open>equations for computations that may panic\<close>
named_theorems usize_simps \<open>machine arithmetic that stays in range\<close>

type_synonym u8 = "8 word"
type_synonym bytes = "u8 list"
type_synonym rchar = nat
type_synonym rstring = "rchar list"

datatype panic =
    MergeDisjointCursors
  | MergeDifferentDirections
  | IndexOutOfBounds
  | UnwrapNone
  | ArithmeticUnderflow
  | DivisionByZero
  | StepByZero
  | IntervalsNotSorted
  | Unreachable
  | AssertionFailed
  | UnwrapErr
  | Failed rstring
  | NoReturn

type_synonym 'a outcome = "panic + 'a"

definition and_then :: "'a outcome \<Rightarrow> ('a \<Rightarrow> 'b outcome) \<Rightarrow> 'b outcome" where
  "and_then x f = (case x of Inl p \<Rightarrow> Inl p | Inr a \<Rightarrow> f a)"

lemma and_then_Inr [simp, outcome_simps]: "and_then (Inr a) f = f a"
  by (simp add: and_then_def)

lemma and_then_Inl [simp, outcome_simps]: "and_then (Inl p) f = Inl p"
  by (simp add: and_then_def)

lemma and_then_eq_Inr [outcome_simps]:
  "and_then x f = Inr b \<longleftrightarrow> (\<exists>a. x = Inr a \<and> f a = Inr b)"
  by (cases x) simp_all

lemma and_then_eq_Inl:
  "and_then x f = Inl p \<longleftrightarrow> x = Inl p \<or> (\<exists>a. x = Inr a \<and> f a = Inl p)"
  by (cases x) simp_all

lemma and_then_assoc: "and_then (and_then x f) g = and_then x (\<lambda>a. and_then (f a) g)"
  by (cases x) simp_all

lemma and_then_cong [fundef_cong]:
  "x = y \<Longrightarrow> (\<And>a. y = Inr a \<Longrightarrow> f a = g a) \<Longrightarrow> and_then x f = and_then y g"
  by (cases y) simp_all

definition ok :: "'a outcome \<Rightarrow> bool" where
  "ok x \<longleftrightarrow> (case x of Inl _ \<Rightarrow> False | Inr _ \<Rightarrow> True)"

lemma ok_simps [simp]: "ok (Inr a)" "\<not> ok (Inl p)"
  by (simp_all add: ok_def)

lemma ok_iff: "ok x \<longleftrightarrow> (\<exists>a. x = Inr a)"
  by (cases x) simp_all

subsection \<open>Machine integers\<close>

definition usize_modulus :: nat where
  "usize_modulus = 18446744073709551616"

definition isize_max :: nat where
  "isize_max = 9223372036854775807"

definition usize_add :: "nat \<Rightarrow> nat \<Rightarrow> nat" where
  "usize_add a b = (a + b) mod usize_modulus"

definition usize_mul :: "nat \<Rightarrow> nat \<Rightarrow> nat" where
  "usize_mul a b = (a * b) mod usize_modulus"

definition usize_sub :: "nat \<Rightarrow> nat \<Rightarrow> nat" where
  "usize_sub a b = (if b \<le> a then a - b else usize_modulus - (b - a))"

definition usize_saturating_mul :: "nat \<Rightarrow> nat \<Rightarrow> nat" where
  "usize_saturating_mul a b = min (usize_modulus - 1) (a * b)"

definition as_isize :: "nat \<Rightarrow> int" where
  "as_isize a = (if a \<le> isize_max then int a else int a - int usize_modulus)"

definition as_usize :: "int \<Rightarrow> nat" where
  "as_usize i = nat (i mod int usize_modulus)"

definition isize_wrap :: "int \<Rightarrow> int" where
  "isize_wrap i = (i + 9223372036854775808) mod 18446744073709551616 - 9223372036854775808"

definition isize_saturating_mul :: "int \<Rightarrow> int \<Rightarrow> int" where
  "isize_saturating_mul a b = max (- 9223372036854775808) (min (int isize_max) (a * b))"

lemma usize_add_small [usize_simps]: "a + b < usize_modulus \<Longrightarrow> usize_add a b = a + b"
  by (simp add: usize_add_def)

lemma usize_add_less [simp]: "usize_add a b < usize_modulus"
  by (simp add: usize_add_def usize_modulus_def)

lemma usize_mul_small [usize_simps]: "a * b < usize_modulus \<Longrightarrow> usize_mul a b = a * b"
  by (simp add: usize_mul_def)

lemma usize_mul_less [simp]: "usize_mul a b < usize_modulus"
  by (simp add: usize_mul_def usize_modulus_def)

lemma usize_sub_small [usize_simps]: "b \<le> a \<Longrightarrow> usize_sub a b = a - b"
  by (simp add: usize_sub_def)

lemma as_isize_small [usize_simps]: "a \<le> isize_max \<Longrightarrow> as_isize a = int a"
  by (simp add: as_isize_def)

lemma as_usize_nonneg [usize_simps]: "0 \<le> i \<Longrightarrow> i < int usize_modulus \<Longrightarrow> as_usize i = nat i"
  by (simp add: as_usize_def)

lemma isize_wrap_id [usize_simps]:
  "- 9223372036854775808 \<le> i \<Longrightarrow> i \<le> int isize_max \<Longrightarrow> isize_wrap i = i"
  by (simp add: isize_wrap_def isize_max_def)

subsection \<open>Lists\<close>

lemma sorted_wrt_snoc:
  "sorted_wrt P (xs @ [x]) \<longleftrightarrow> sorted_wrt P xs \<and> (\<forall>y\<in>set xs. P y x)"
  by (auto simp: sorted_wrt_append)

lemma butlast_snoc_last: "xs \<noteq> [] \<Longrightarrow> \<exists>ys y. xs = ys @ [y]"
  by (rule exI [of _ "butlast xs"], rule exI [of _ "last xs"]) simp

lemma upt_append: "a \<le> b \<Longrightarrow> b \<le> c \<Longrightarrow> [a..<b] @ [b..<c] = [a..<c]" for a b c :: nat
  by (metis le_add_diff_inverse upt_add_eq_append)

lemma map_const_upt: "(\<And>i. a \<le> i \<Longrightarrow> i < b \<Longrightarrow> f i = c) \<Longrightarrow> map f [a..<b] = replicate (b - a) c"
  by (intro nth_equalityI) auto

lemma replicate_Suc_append: "replicate (Suc n) x = replicate n x @ [x]"
  by (simp add: replicate_append_same)

end
