(* ===== verification/Selection.thy ===== *)
theory Selection
  imports Prelude
begin

text \<open>
  The selection of a buffer (src/selection.rs): a non-empty list of regions, each with a caret and
  a tail, one of them the main region. \<open>wf_selection\<close> is the invariant the comments on the
  \<open>Selection\<close> struct state (regions sorted by their start and disjoint), together with the index of
  the main region being in range; \<open>main_flags\<close> says that exactly the main region carries the flag.
\<close>

section \<open>Regions\<close>

record sel_region =
  caret :: nat
  tail :: nat
  main :: bool

datatype direction = Up | Down | Left | Right

definition region_new :: "nat \<Rightarrow> nat \<Rightarrow> sel_region" where
  "region_new c t = \<lparr>caret = c, tail = t, main = False\<rparr>"

definition region_max :: "sel_region \<Rightarrow> nat" where
  "region_max r = max (caret r) (tail r)"

definition region_min :: "sel_region \<Rightarrow> nat" where
  "region_min r = min (caret r) (tail r)"

definition region_len :: "sel_region \<Rightarrow> nat" where
  "region_len r = region_max r - region_min r + 1"

definition with_direction :: "sel_region \<Rightarrow> bool \<Rightarrow> sel_region" where
  "with_direction r is_backward =
     (let mx = max (caret r) (tail r); mn = min (caret r) (tail r)
      in if is_backward then region_new mn mx else region_new mx mn)"

definition overlaps :: "sel_region \<Rightarrow> sel_region \<Rightarrow> bool" where
  "overlaps r other \<longleftrightarrow> region_max r \<ge> region_min other"

definition move_caret :: "sel_region \<Rightarrow> direction \<Rightarrow> nat \<Rightarrow> nat \<Rightarrow> nat \<Rightarrow> nat" where
  "move_caret r direction bytes_per_line max_size count =
     (case direction of
        Up \<Rightarrow> as_usize (max 0 (isize_wrap (as_isize (caret r)
                - isize_saturating_mul (as_isize bytes_per_line) (as_isize count))))
      | Down \<Rightarrow> min max_size (usize_add (caret r) (usize_saturating_mul bytes_per_line count))
      | Left \<Rightarrow> as_usize (max 0 (isize_wrap (as_isize (caret r) - as_isize count)))
      | Right \<Rightarrow> min max_size (usize_add (caret r) count))"

definition simple_move :: "sel_region \<Rightarrow> direction \<Rightarrow> nat \<Rightarrow> nat \<Rightarrow> nat \<Rightarrow> sel_region" where
  "simple_move r direction bytes_per_line max_size count =
     (if max_size = 0 then r
      else let caret_location = move_caret r direction bytes_per_line max_size count
           in region_new caret_location caret_location)"

definition simple_extend :: "sel_region \<Rightarrow> direction \<Rightarrow> nat \<Rightarrow> nat \<Rightarrow> nat \<Rightarrow> sel_region" where
  "simple_extend r direction bytes_per_line max_size count =
     (if max_size = 0 then r
      else let caret_location = move_caret r direction bytes_per_line max_size count
           in region_new caret_location (tail r))"

definition jump_to :: "sel_region \<Rightarrow> nat \<Rightarrow> sel_region" where
  "jump_to r offset = region_new offset offset"

definition extend_to :: "sel_region \<Rightarrow> nat \<Rightarrow> sel_region" where
  "extend_to r offset = region_new offset (tail r)"

definition boundary_caret :: "sel_region \<Rightarrow> direction \<Rightarrow> nat \<Rightarrow> nat \<Rightarrow> nat outcome" where
  "boundary_caret r direction bytes_per_line max_size =
     (case direction of
        Up \<Rightarrow> Inr 0
      | Down \<Rightarrow> Inr (max_size - 1)
      | Left \<Rightarrow> (if bytes_per_line = 0 then Inl DivisionByZero
                 else Inr (caret r - caret r mod bytes_per_line))
      | Right \<Rightarrow> (if bytes_per_line = 0 then Inl DivisionByZero
                 else Inr (min (caret r + bytes_per_line - caret r mod bytes_per_line - 1)
                               (max_size - 1))))"

definition jump_to_boundary :: "sel_region \<Rightarrow> direction \<Rightarrow> nat \<Rightarrow> nat \<Rightarrow> sel_region outcome" where
  "jump_to_boundary r direction bytes_per_line max_size =
     (if max_size = 0 then Inr r
      else and_then (boundary_caret r direction bytes_per_line max_size)
             (\<lambda>caret_location. Inr (region_new caret_location caret_location)))"

definition extend_to_boundary :: "sel_region \<Rightarrow> direction \<Rightarrow> nat \<Rightarrow> nat \<Rightarrow> sel_region outcome" where
  "extend_to_boundary r direction bytes_per_line max_size =
     (if max_size = 0 then Inr r
      else and_then (boundary_caret r direction bytes_per_line max_size)
             (\<lambda>caret_location. Inr (region_new caret_location (tail r))))"

definition swap_caret :: "sel_region \<Rightarrow> sel_region" where
  "swap_caret r = region_new (tail r) (caret r)"

definition collapse :: "sel_region \<Rightarrow> sel_region" where
  "collapse r = region_new (caret r) (caret r)"

definition forward :: "sel_region \<Rightarrow> bool" where
  "forward r \<longleftrightarrow> caret r \<ge> tail r"

definition backward :: "sel_region \<Rightarrow> bool" where
  "backward r \<longleftrightarrow> caret r \<le> tail r"

definition to_backward :: "sel_region \<Rightarrow> sel_region" where
  "to_backward r = region_new (region_min r) (region_max r)"

definition to_forward :: "sel_region \<Rightarrow> sel_region" where
  "to_forward r = region_new (region_max r) (region_min r)"

definition merge_region :: "sel_region \<Rightarrow> sel_region \<Rightarrow> sel_region outcome" where
  "merge_region r other =
     (let both_forward = forward r \<and> forward other;
          both_backward = backward r \<and> backward other;
          merged = (if both_forward \<and> both_backward then
                      (if caret r = caret other then Inr r else Inl MergeDisjointCursors)
                    else if both_forward then
                      Inr (region_new (max (caret r) (caret other)) (min (tail r) (tail other)))
                    else if both_backward then
                      Inr (region_new (min (caret r) (caret other)) (max (tail r) (tail other)))
                    else Inl MergeDifferentDirections)
      in and_then merged
           (\<lambda>m. Inr (if main r \<or> main other then m\<lparr>main := True\<rparr> else m)))"

definition inherit_direction :: "sel_region \<Rightarrow> sel_region \<Rightarrow> sel_region" where
  "inherit_direction r parent = (if forward parent then to_forward r else to_backward r)"

definition split_at_region ::
    "sel_region \<Rightarrow> nat \<Rightarrow> nat \<Rightarrow> sel_region option \<times> sel_region option" where
  "split_at_region r start stop =
     (if start \<le> region_min r then
        (if stop \<ge> region_max r then (None, None)
         else (None, Some (inherit_direction (region_new (stop + 1) (region_max r)) r)))
      else if stop \<ge> region_max r then
        (Some (inherit_direction (region_new (region_min r) (start - 1)) r), None)
      else
        (Some (region_new (region_min r) (start - 1)),
         Some (region_new (stop + 1) (region_max r))))"

section \<open>Selections\<close>

record selection =
  regions :: "sel_region list"
  main_selection :: nat

definition selection_new :: selection where
  "selection_new = \<lparr>regions = [(region_new 0 0)\<lparr>main := True\<rparr>], main_selection = 0\<rparr>"

definition clear :: "selection \<Rightarrow> selection" where
  "clear s = \<lparr>regions = [(region_new 0 0)\<lparr>main := True\<rparr>], main_selection = 0\<rparr>"

definition len_bytes :: "selection \<Rightarrow> nat" where
  "len_bytes s = sum_list (map region_len (regions s))"

definition retain :: "nat \<Rightarrow> selection \<Rightarrow> selection outcome" where
  "retain index s =
     (if index < length (regions s)
      then Inr \<lparr>regions = [(regions s ! index)\<lparr>main := True\<rparr>], main_selection = 0\<rparr>
      else Inl IndexOutOfBounds)"

definition set_main :: "sel_region list \<Rightarrow> nat \<Rightarrow> bool \<Rightarrow> sel_region list outcome" where
  "set_main rs i b =
     (if i < length rs then Inr (rs[i := (rs ! i)\<lparr>main := b\<rparr>]) else Inl IndexOutOfBounds)"

definition remove :: "nat \<Rightarrow> selection \<Rightarrow> selection outcome" where
  "remove index s =
     (if length (regions s) = 1 then Inr s
      else if index < length (regions s) then
        (let rs = take index (regions s) @ drop (Suc index) (regions s);
             m = min (length rs - 1) (main_selection s)
         in and_then (set_main rs m True)
              (\<lambda>rs'. Inr \<lparr>regions = rs', main_selection = m\<rparr>))
      else Inl IndexOutOfBounds)"

definition select_all :: "nat \<Rightarrow> selection \<Rightarrow> selection" where
  "select_all buf_size s =
     (if buf_size = 0 then clear s
      else (clear s)\<lparr>regions := [\<lparr>caret = buf_size - 1, tail = 0, main = True\<rparr>]\<rparr>)"

definition main_region :: "selection \<Rightarrow> sel_region outcome" where
  "main_region s =
     (if main_selection s < length (regions s) then Inr (regions s ! main_selection s)
      else Inl IndexOutOfBounds)"

definition main_cursor_offset :: "selection \<Rightarrow> nat outcome" where
  "main_cursor_offset s = and_then (main_region s) (\<lambda>r. Inr (caret r))"

definition select_next :: "nat \<Rightarrow> selection \<Rightarrow> selection outcome" where
  "select_next count s =
     and_then (set_main (regions s) (main_selection s) False) (\<lambda>rs.
       let m = usize_add (main_selection s) count mod length rs
       in and_then (set_main rs m True) (\<lambda>rs'. Inr \<lparr>regions = rs', main_selection = m\<rparr>))"

definition select_prev :: "nat \<Rightarrow> selection \<Rightarrow> selection outcome" where
  "select_prev count s =
     and_then (set_main (regions s) (main_selection s) False) (\<lambda>rs.
       let m = (main_selection s + length rs - count mod length rs) mod length rs
       in and_then (set_main rs m True) (\<lambda>rs'. Inr \<lparr>regions = rs', main_selection = m\<rparr>))"

subsection \<open>Binary search over the regions\<close>

text \<open>
  \<open>[T]::binary_search_by\<close> of the standard library on the keys \<open>r.max()\<close>, with \<open>Ok\<close> and \<open>Err\<close>
  collapsed to the index as \<open>unwrap_or_else(identity)\<close> does: it halves \<open>[lo, hi)\<close> until the key at
  the middle is the target or the range is empty.
\<close>

function binary_search :: "nat list \<Rightarrow> nat \<Rightarrow> nat \<Rightarrow> nat \<Rightarrow> nat" where
  "binary_search ks target lo hi =
     (if lo < hi then
        (let mid = lo + (hi - lo) div 2
         in if ks ! mid = target then mid
            else if ks ! mid < target then binary_search ks target (mid + 1) hi
            else binary_search ks target lo mid)
      else lo)"
  by pat_completeness auto
termination
  by (relation "measure (\<lambda>(ks, target, lo, hi). hi - lo)") auto

declare binary_search.simps [simp del]

definition search :: "selection \<Rightarrow> nat \<Rightarrow> nat outcome" where
  "search s offset =
     (if regions s = [] then Inl UnwrapNone
      else if offset > region_max (last (regions s)) then Inr (length (regions s))
      else Inr (binary_search (map region_max (regions s)) offset 0 (length (regions s))))"

definition regions_in_range :: "selection \<Rightarrow> nat \<Rightarrow> nat \<Rightarrow> sel_region list outcome" where
  "regions_in_range s start stop =
     and_then (search s start) (\<lambda>first_index.
     and_then (search s stop) (\<lambda>last_index0.
       let last_index = (if last_index0 < length (regions s)
                            \<and> region_min (regions s ! last_index0) \<le> stop
                         then last_index0 + 1 else last_index0)
       in if first_index \<le> last_index \<and> last_index \<le> length (regions s)
          then Inr (take (last_index - first_index) (drop first_index (regions s)))
          else Inl IndexOutOfBounds))"

subsection \<open>Mapping a closure over the regions\<close>

definition push_region :: "sel_region list \<Rightarrow> sel_region \<Rightarrow> sel_region list outcome" where
  "push_region out r =
     (if out = [] \<or> \<not> overlaps (last out) r then Inr (out @ [r])
      else and_then (merge_region (last out) r) (\<lambda>m. Inr (butlast out @ [m])))"

fun push_regions :: "sel_region list \<Rightarrow> sel_region list \<Rightarrow> sel_region list outcome" where
  "push_regions out [] = Inr out"
| "push_regions out (r # rs) = and_then (push_region out r) (\<lambda>out'. push_regions out' rs)"

text \<open>
  The loop of \<open>map_selections\<close>: \<open>i\<close> counts the regions visited, \<open>st\<close> is the state the
  \<open>FnMut\<close> closure captures, \<open>new_main\<close> is \<open>new_main_sel\<close>. Marking the main region when nothing
  has been pushed yet panics (\<open>regions_out.len() - 1\<close>, then \<open>last_mut().unwrap()\<close>).
\<close>

fun map_loop ::
    "('s \<Rightarrow> sel_region \<Rightarrow> (sel_region list \<times> 's) outcome) \<Rightarrow> nat \<Rightarrow> nat \<Rightarrow> sel_region list \<Rightarrow>
     's \<Rightarrow> sel_region list \<Rightarrow> nat \<Rightarrow> ((sel_region list \<times> nat) \<times> 's) outcome" where
  "map_loop f main_sel i [] st out new_main = Inr ((out, new_main), st)"
| "map_loop f main_sel i (r # rs) st out new_main =
     and_then (f st r) (\<lambda>(new, st').
     and_then (push_regions out new) (\<lambda>out'.
       if i = main_sel then
         (if out' = [] then Inl UnwrapNone
          else map_loop f main_sel (Suc i) rs st'
                 (butlast out' @ [(last out')\<lparr>main := True\<rparr>]) (length out' - 1))
       else map_loop f main_sel (Suc i) rs st' out' new_main))"

definition map_selections ::
    "('s \<Rightarrow> sel_region \<Rightarrow> (sel_region list \<times> 's) outcome) \<Rightarrow> 's \<Rightarrow> selection \<Rightarrow>
     (selection \<times> 's) outcome" where
  "map_selections f st s =
     and_then (map_loop f (main_selection s) 0 (regions s) st [] 0)
       (\<lambda>((out, new_main), st'). Inr (\<lparr>regions = out, main_selection = new_main\<rparr>, st'))"

section \<open>Invariant and basic facts\<close>

definition span :: "sel_region \<Rightarrow> nat set" where
  "span r = {region_min r..region_max r}"

definition before :: "sel_region \<Rightarrow> sel_region \<Rightarrow> bool" where
  "before a b \<longleftrightarrow> region_max a < region_min b"

definition spans :: "sel_region list \<Rightarrow> nat set" where
  "spans rs = (\<Union>r\<in>set rs. span r)"

definition wf_selection :: "selection \<Rightarrow> bool" where
  "wf_selection s \<longleftrightarrow> main_selection s < length (regions s) \<and> sorted_wrt before (regions s)"

definition main_flags :: "selection \<Rightarrow> bool" where
  "main_flags s \<longleftrightarrow>
     (\<forall>i<length (regions s). main (regions s ! i) \<longleftrightarrow> i = main_selection s)"

definition in_bounds :: "nat \<Rightarrow> selection \<Rightarrow> bool" where
  "in_bounds n s \<longleftrightarrow> (\<forall>r\<in>set (regions s). caret r \<le> n \<and> tail r \<le> n)"

lemmas region_defs = region_new_def region_max_def region_min_def forward_def backward_def

lemma region_new_simps [simp]:
  "caret (region_new c t) = c" "tail (region_new c t) = t" "\<not> main (region_new c t)"
  by (simp_all add: region_new_def)

lemma region_min_le_max [simp]: "region_min r \<le> region_max r"
  by (simp add: region_defs)

lemma region_min_new [simp]: "region_min (region_new c t) = min c t"
  and region_max_new [simp]: "region_max (region_new c t) = max c t"
  by (simp_all add: region_defs)

lemma region_min_main [simp]: "region_min (r\<lparr>main := b\<rparr>) = region_min r"
  and region_max_main [simp]: "region_max (r\<lparr>main := b\<rparr>) = region_max r"
  and span_main [simp]: "span (r\<lparr>main := b\<rparr>) = span r"
  and overlaps_main [simp]: "overlaps (r\<lparr>main := b\<rparr>) q = overlaps r q"
  by (simp_all add: region_defs span_def overlaps_def)

lemma before_main [simp]:
  "before (r\<lparr>main := b\<rparr>) q = before r q" "before q (r\<lparr>main := b\<rparr>) = before q r"
  by (simp_all add: before_def)

lemma span_mem [simp]: "region_min r \<in> span r" "region_max r \<in> span r"
  by (simp_all add: span_def)

lemma caret_tail_span: "caret r \<in> span r" "tail r \<in> span r"
  by (auto simp: span_def region_defs)

lemma span_bound: "span r \<subseteq> {..n} \<longleftrightarrow> caret r \<le> n \<and> tail r \<le> n"
  by (auto simp: span_def region_defs)

lemma spans_simps [simp]:
  "spans [] = {}" "spans (r # rs) = span r \<union> spans rs" "spans (xs @ ys) = spans xs \<union> spans ys"
  by (auto simp: spans_def)

lemma in_bounds_spans: "in_bounds n s \<longleftrightarrow> spans (regions s) \<subseteq> {..n}"
  unfolding in_bounds_def spans_def UN_subset_iff span_bound ..

lemma before_trans: "before a b \<Longrightarrow> before b c \<Longrightarrow> before a c"
  unfolding before_def using region_min_le_max [of b] by linarith

lemma wf_selection_nonempty: "wf_selection s \<Longrightarrow> regions s \<noteq> []"
  by (auto simp: wf_selection_def)

lemma main_region_wf [simp]:
  "wf_selection s \<Longrightarrow> main_region s = Inr (regions s ! main_selection s)"
  by (simp add: main_region_def wf_selection_def)

text \<open>The result of a merge that does not panic.\<close>

lemma merge_region_Inr:
  assumes "merge_region a b = Inr m" "overlaps a b" "region_min a \<le> region_min b"
  shows "region_min m = region_min a" "region_max m = max (region_max a) (region_max b)"
    "main m \<longleftrightarrow> main a \<or> main b" "span m = span a \<union> span b"
proof -
  show mn: "region_min m = region_min a" and mx: "region_max m = max (region_max a) (region_max b)"
    and "main m \<longleftrightarrow> main a \<or> main b"
    using assms
    by (auto simp: merge_region_def Let_def and_then_eq_Inr region_defs overlaps_def
        split: if_splits)
  show "span m = span a \<union> span b"
    unfolding span_def mn mx using assms(2,3) by (auto simp: overlaps_def max_def)
qed

lemma merge_region_ok:
  assumes "\<not> (caret a > tail a \<and> caret b < tail b)" "\<not> (caret a < tail a \<and> caret b > tail b)"
    and "caret a = tail a \<Longrightarrow> caret b = tail b \<Longrightarrow> caret a = caret b"
  shows "\<exists>m. merge_region a b = Inr m"
  using assms by (auto simp: merge_region_def Let_def region_defs)

lemma merge_region_direction:
  assumes "merge_region a b = Inr m"
  shows "caret m > tail m \<Longrightarrow> caret a > tail a \<or> caret b > tail b"
    and "caret m < tail m \<Longrightarrow> caret a < tail a \<or> caret b < tail b"
    and "caret m > tail m \<Longrightarrow> caret a \<ge> tail a \<and> caret b \<ge> tail b"
    and "caret m < tail m \<Longrightarrow> caret a \<le> tail a \<and> caret b \<le> tail b"
  using assms
  by (auto simp: merge_region_def Let_def and_then_eq_Inr region_defs split: if_splits)

end
