(* ===== verification/Region_Map.thy ===== *)
theory Region_Map
  imports Selection
begin

text \<open>
  The contract of a closure given to \<open>Selection::map_selections\<close> that turns every region into one
  region. The locale \<open>region_map\<close> states what such a closure has to keep (the order of the regions,
  and that regions it makes touch do not point at each other); under it the loop never reaches a
  panic of \<open>SelRegion::merge\<close> and the result is again sorted, disjoint and covers exactly the mapped
  regions. The interpretations at the end show the contract for the closures of src/modes.
\<close>

definition maps_to ::
    "('s \<Rightarrow> sel_region \<Rightarrow> (sel_region list \<times> 's) outcome) \<Rightarrow> (sel_region \<Rightarrow> bool) \<Rightarrow>
     (sel_region \<Rightarrow> sel_region) \<Rightarrow> bool" where
  "maps_to f P g \<longleftrightarrow> (\<forall>st r. P r \<longrightarrow> (\<exists>st'. f st r = Inr ([g r], st')))"

definition single :: "(sel_region \<Rightarrow> sel_region) \<Rightarrow> unit \<Rightarrow> sel_region \<Rightarrow>
    (sel_region list \<times> unit) outcome" where
  "single g st r = Inr ([g r], st)"

lemma single_maps_to: "maps_to (single g) P g"
  by (simp add: maps_to_def single_def)

definition strict_forward :: "sel_region \<Rightarrow> bool" where
  "strict_forward r \<longleftrightarrow> caret r > tail r"

definition strict_backward :: "sel_region \<Rightarrow> bool" where
  "strict_backward r \<longleftrightarrow> caret r < tail r"

text \<open>What pushing one region does to the marked regions and the spans at the old indices.\<close>

definition extends_regions :: "sel_region list \<Rightarrow> sel_region list \<Rightarrow> bool" where
  "extends_regions out out' \<longleftrightarrow> length out \<le> length out' \<and>
     (\<forall>i<length out. span (out ! i) \<subseteq> span (out' ! i))"

lemma extends_regions_refl [simp]: "extends_regions out out"
  by (simp add: extends_regions_def)

lemma extends_regions_trans:
  "extends_regions a b \<Longrightarrow> extends_regions b c \<Longrightarrow> extends_regions a c"
  unfolding extends_regions_def by (meson less_le_trans order_trans subset_trans)

definition flags :: "sel_region list \<Rightarrow> nat set" where
  "flags rs = {i. i < length rs \<and> main (rs ! i)}"

lemma flags_Nil [simp]: "flags [] = {}"
  by (simp add: flags_def)

lemma flags_snoc: "flags (rs @ [r]) = flags rs \<union> (if main r then {length rs} else {})"
  by (auto simp: flags_def nth_append less_Suc_eq)

lemma flags_Cons: "0 \<in> flags (r # rs) \<longleftrightarrow> main r" "Suc j \<in> flags (r # rs) \<longleftrightarrow> j \<in> flags rs"
  by (simp_all add: flags_def)

lemma flags_empty: "flags rs = {} \<Longrightarrow> r \<in> set rs \<Longrightarrow> \<not> main r"
  by (metis (mono_tags, lifting) empty_iff flags_def in_set_conv_nth mem_Collect_eq)

lemma flags_Cons_zero: "flags (r # rs) = {0} \<Longrightarrow> flags rs = {}"
  by (metis all_not_in_conv flags_Cons(2) nat.distinct(1) singletonD)

lemma flags_Cons_Suc: "flags (r # rs) = {Suc k} \<Longrightarrow> \<not> main r \<and> flags rs = {k}"
  by (metis flags_Cons insertI1 nat.distinct(1) nat.inject singletonD subsetI subset_singletonD
      empty_iff)

lemma main_flags_iff: "main_selection s < length (regions s) \<Longrightarrow>
    main_flags s \<longleftrightarrow> flags (regions s) = {main_selection s}"
  by (auto simp: main_flags_def flags_def set_eq_iff)

lemma flags_mark_last:
  "out \<noteq> [] \<Longrightarrow> flags out \<subseteq> {length out - 1} \<Longrightarrow>
     flags (butlast out @ [(last out)\<lparr>main := True\<rparr>]) = {length out - 1}"
proof (cases out rule: rev_cases)
  case (snoc ys y)
  assume "flags out \<subseteq> {length out - 1}"
  then have "flags ys \<subseteq> {length ys}" unfolding snoc by (simp add: flags_snoc)
  moreover have "length ys \<notin> flags ys" by (simp add: flags_def)
  ultimately have "flags ys = {}" by auto
  with snoc show ?thesis by (simp add: flags_snoc)
qed simp

text \<open>
  The loop invariant: \<open>seen\<close> are the regions visited, \<open>out\<close> the regions pushed. The last pushed
  region remembers a visited region for its start and, when it has a direction, one for its end.
\<close>

definition pushed ::
    "(sel_region \<Rightarrow> sel_region) \<Rightarrow> sel_region list \<Rightarrow> sel_region list \<Rightarrow> bool" where
  "pushed g seen out \<longleftrightarrow> sorted_wrt before out \<and> spans out = spans (map g seen) \<and>
     (seen = [] \<longleftrightarrow> out = []) \<and>
     (out \<noteq> [] \<longrightarrow>
        region_max (last out) = region_max (g (last seen)) \<and>
        (\<exists>a\<in>set seen. region_min (last out) = region_min (g a)) \<and>
        (strict_forward (last out) \<longrightarrow>
           (\<exists>a\<in>set seen. strict_forward (g a) \<and> region_max (g a) = region_max (last out))) \<and>
        (strict_backward (last out) \<longrightarrow>
           (\<exists>a\<in>set seen. strict_backward (g a) \<and> region_max (g a) = region_max (last out))))"

lemma pushed_Nil: "pushed g [] []"
  by (simp add: pushed_def)

lemma pushed_mark: "pushed g seen out \<Longrightarrow> out \<noteq> [] \<Longrightarrow>
    pushed g seen (butlast out @ [(last out)\<lparr>main := True\<rparr>])"
  by (cases out rule: rev_cases)
     (auto simp: pushed_def sorted_wrt_snoc strict_forward_def strict_backward_def)

lemma pushed_append:
  assumes inv: "pushed g seen out" and sep: "out = [] \<or> \<not> overlaps (last out) (g b)"
  shows "pushed g (seen @ [b]) (out @ [g b])"
proof -
  have "before x (g b)" if "x \<in> set out" for x
  proof -
    from that have "out \<noteq> []" by auto
    with sep have lst: "before (last out) (g b)" by (simp add: before_def overlaps_def)
    show ?thesis
    proof (cases "x = last out")
      case False
      with inv that \<open>out \<noteq> []\<close> have "before x (last out)"
        by (cases out rule: rev_cases) (auto simp: pushed_def sorted_wrt_snoc)
      from before_trans [OF this lst] show ?thesis .
    qed (simp add: lst)
  qed
  with inv show ?thesis
    by (auto simp: pushed_def sorted_wrt_snoc)
qed

lemma pushed_merge:
  assumes inv: "pushed g seen out" and ne: "out \<noteq> []"
    and ovl: "overlaps (last out) (g b)" and m: "merge_region (last out) (g b) = Inr m"
    and mn: "region_min (last out) \<le> region_min (g b)"
    and mx: "region_max (last out) \<le> region_max (g b)"
  shows "pushed g (seen @ [b]) (butlast out @ [m])"
proof -
  obtain ys y where out: "out = ys @ [y]" using ne by (cases out rule: rev_cases) auto
  note mr = merge_region_Inr [OF m ovl mn] and md = merge_region_direction [OF m]
  have mxm: "region_max m = region_max (g b)" using mr(2) mx by simp
  have seen: "sorted_wrt before (ys @ [y])" "spans (ys @ [y]) = spans (map g seen)"
    and mna: "\<exists>a\<in>set seen. region_min y = region_min (g a)"
    and fw: "strict_forward y \<Longrightarrow> \<exists>a\<in>set seen. strict_forward (g a) \<and> region_max (g a) = region_max y"
    and bw: "strict_backward y \<Longrightarrow> \<exists>a\<in>set seen. strict_backward (g a) \<and> region_max (g a) = region_max y"
    using inv unfolding pushed_def out by auto
  have sorted: "sorted_wrt before (ys @ [m])"
    using seen(1) mr(1) out by (auto simp: sorted_wrt_snoc before_def)
  have cover: "spans (ys @ [m]) = spans (map g (seen @ [b]))"
    using seen(2) mr(4) out by auto
  have cursor: "region_max (g b) = region_max y" if "\<not> strict_forward (g b)" "\<not> strict_backward (g b)"
  proof -
    from that have "region_max (g b) = region_min (g b)"
      by (auto simp: strict_forward_def strict_backward_def region_defs)
    with ovl mx out show ?thesis by (simp add: overlaps_def)
  qed
  have f: "\<exists>a\<in>set (seen @ [b]). strict_forward (g a) \<and> region_max (g a) = region_max m"
    if "strict_forward m"
  proof (cases "strict_forward (g b)")
    case False
    from md(3) that have "\<not> strict_backward (g b)"
      by (simp add: strict_forward_def strict_backward_def)
    moreover from md(1) that False out have "strict_forward y"
      by (auto simp: strict_forward_def)
    ultimately show ?thesis using fw cursor [OF False] mxm by auto
  qed (use mxm in auto)
  have k: "\<exists>a\<in>set (seen @ [b]). strict_backward (g a) \<and> region_max (g a) = region_max m"
    if "strict_backward m"
  proof (cases "strict_backward (g b)")
    case False
    from md(4) that have "\<not> strict_forward (g b)"
      by (simp add: strict_forward_def strict_backward_def)
    moreover from md(2) that False out have "strict_backward y"
      by (auto simp: strict_backward_def)
    ultimately show ?thesis using bw cursor [OF _ False] mxm by auto
  qed (use mxm in auto)
  show ?thesis
    unfolding pushed_def using sorted cover f k mxm mr(1) mna out by auto
qed

lemma extends_append: "extends_regions out (out @ [r])"
  by (simp add: extends_regions_def nth_append)

lemma extends_last:
  "out \<noteq> [] \<Longrightarrow> span (last out) \<subseteq> span m \<Longrightarrow> extends_regions out (butlast out @ [m])"
  by (cases out rule: rev_cases) (auto simp: extends_regions_def nth_append less_Suc_eq)

locale region_map =
  fixes g :: "sel_region \<Rightarrow> sel_region" and P :: "sel_region \<Rightarrow> bool"
  assumes mono_min: "P a \<Longrightarrow> P b \<Longrightarrow> before a b \<Longrightarrow> region_min (g a) \<le> region_min (g b)"
    and mono_max: "P a \<Longrightarrow> P b \<Longrightarrow> before a b \<Longrightarrow> region_max (g a) \<le> region_max (g b)"
    and no_clash: "P a \<Longrightarrow> P b \<Longrightarrow> before a b \<Longrightarrow>
      strict_forward (g a) \<Longrightarrow> strict_backward (g b) \<Longrightarrow> before (g a) (g b)"
    and no_clash_rev: "P a \<Longrightarrow> P b \<Longrightarrow> before a b \<Longrightarrow>
      strict_backward (g a) \<Longrightarrow> strict_forward (g b) \<Longrightarrow> before (g a) (g b)"
    and keeps_flag: "P a \<Longrightarrow> main (g a) \<Longrightarrow> main a"
begin

lemma in_order: "sorted_wrt before rs \<Longrightarrow> \<forall>r\<in>set rs. P r \<Longrightarrow> sorted (map region_min (map g rs))"
  by (induction rs) (auto intro: mono_min)

lemma merge_possible:
  assumes inv: "pushed g seen out" and ne: "out \<noteq> []"
    and ps: "\<forall>a\<in>set seen. P a \<and> before a b" and pb: "P b"
    and ovl: "overlaps (last out) (g b)"
  shows "\<exists>m. merge_region (last out) (g b) = Inr m"
proof (rule merge_region_ok)
  have far: "\<not> (\<exists>a\<in>set seen. region_max (g a) = region_max (last out) \<and> before (g a) (g b))"
    using ovl by (auto simp: overlaps_def before_def)
  show "\<not> (caret (last out) > tail (last out) \<and> caret (g b) < tail (g b))"
    using inv ne ps pb far no_clash
    unfolding pushed_def strict_forward_def strict_backward_def by blast
  show "\<not> (caret (last out) < tail (last out) \<and> caret (g b) > tail (g b))"
    using inv ne ps pb far no_clash_rev
    unfolding pushed_def strict_forward_def strict_backward_def by blast
  show "caret (last out) = tail (last out) \<Longrightarrow> caret (g b) = tail (g b) \<Longrightarrow>
      caret (last out) = caret (g b)"
  proof -
    assume "caret (last out) = tail (last out)" "caret (g b) = tail (g b)"
    moreover from inv ne obtain a where "a \<in> set seen" "region_min (last out) = region_min (g a)"
      unfolding pushed_def by blast
    with ps pb mono_min have "region_min (last out) \<le> region_min (g b)" by simp
    ultimately show ?thesis using ovl by (simp add: overlaps_def region_defs)
  qed
qed

lemma push_step:
  assumes inv: "pushed g seen out"
    and ps: "\<forall>a\<in>set seen. P a \<and> before a b" and pb: "P b"
  obtains out' where "push_region out (g b) = Inr out'" "pushed g (seen @ [b]) out'"
    "extends_regions out out'" "out' \<noteq> []" "span (g b) \<subseteq> span (last out')"
    "flags out' \<subseteq> flags out \<union> (if main b then {length out' - 1} else {})" "flags out \<subseteq> flags out'"
proof (cases "out = [] \<or> \<not> overlaps (last out) (g b)")
  case True
  show thesis
  proof (rule that)
    show "push_region out (g b) = Inr (out @ [g b])" using True by (simp add: push_region_def)
    show "pushed g (seen @ [b]) (out @ [g b])" using inv True by (rule pushed_append)
  qed (use keeps_flag [OF pb] in \<open>auto simp: extends_append flags_snoc\<close>)
next
  case False
  then have ne: "out \<noteq> []" and ovl: "overlaps (last out) (g b)" by auto
  obtain m where m: "merge_region (last out) (g b) = Inr m"
    using merge_possible [OF inv ne ps pb ovl] by blast
  from inv ne obtain a where "a \<in> set seen" "region_min (last out) = region_min (g a)"
    unfolding pushed_def by blast
  with ps pb have mn: "region_min (last out) \<le> region_min (g b)" by (simp add: mono_min)
  from inv ne have "last seen \<in> set seen" "region_max (last out) = region_max (g (last seen))"
    unfolding pushed_def by auto
  with ps pb have mx: "region_max (last out) \<le> region_max (g b)" by (simp add: mono_max)
  note mr = merge_region_Inr [OF m ovl mn]
  have fl: "flags (butlast out @ [m]) = flags out \<union> (if main (g b) then {length out - 1} else {})"
    using ne mr(3) by (cases out rule: rev_cases) (auto simp: flags_snoc)
  show thesis
  proof (rule that)
    show "push_region out (g b) = Inr (butlast out @ [m])"
      using False m by (simp add: push_region_def)
    show "pushed g (seen @ [b]) (butlast out @ [m])" using inv ne ovl m mn mx by (rule pushed_merge)
    show "extends_regions out (butlast out @ [m])" using ne mr(4) by (intro extends_last) auto
  qed (use keeps_flag [OF pb] fl mr(4) ne in auto)
qed

text \<open>The loop after the main region has been marked: the marked index and flag stay.\<close>

lemma map_loop_after:
  assumes f: "maps_to f P g" and "main_sel < i" and "pushed g seen out"
    and "\<forall>a\<in>set seen. P a \<and> (\<forall>b\<in>set rs. before a b)"
    and "sorted_wrt before rs" and "\<forall>b\<in>set rs. P b"
  shows "\<exists>out' st'. map_loop f main_sel i rs st out nm = Inr ((out', nm), st') \<and>
     pushed g (seen @ rs) out' \<and> extends_regions out out' \<and>
     ((\<forall>b\<in>set rs. \<not> main b) \<longrightarrow> flags out' = flags out)"
  using assms(2-)
proof (induction rs arbitrary: i seen st out)
  case Nil
  then show ?case by simp
next
  case (Cons b rs)
  from Cons.prems have inv: "pushed g seen out" and ps: "\<forall>a\<in>set seen. P a \<and> before a b" and pb: "P b"
    by auto
  obtain out' where o: "push_region out (g b) = Inr out'" "pushed g (seen @ [b]) out'"
    "extends_regions out out'" "out' \<noteq> []" "span (g b) \<subseteq> span (last out')"
    "flags out' \<subseteq> flags out \<union> (if main b then {length out' - 1} else {})" "flags out \<subseteq> flags out'"
    by (rule push_step [OF inv ps pb])
  obtain st1 where st1: "f st b = Inr ([g b], st1)"
    using f pb unfolding maps_to_def by blast
  have "\<exists>out'' st''. map_loop f main_sel (Suc i) rs st1 out' nm = Inr ((out'', nm), st'') \<and>
     pushed g ((seen @ [b]) @ rs) out'' \<and> extends_regions out' out'' \<and>
     ((\<forall>b\<in>set rs. \<not> main b) \<longrightarrow> flags out'' = flags out')"
    by (rule Cons.IH) (use Cons.prems o in auto)
  then show ?case
    using o st1 Cons.prems(1) by (auto intro: extends_regions_trans)
qed

lemma map_loop_marked:
  assumes f: "maps_to f P g" and out: "pushed g seen out'" "out' \<noteq> []"
    and seen: "\<forall>a\<in>set seen. P a \<and> (\<forall>b\<in>set rs. before a b)" and rs: "sorted_wrt before rs" "\<forall>b\<in>set rs. P b"
  shows "\<exists>out'' st''. map_loop f i (Suc i) rs st (butlast out' @ [(last out')\<lparr>main := True\<rparr>]) (length out' - 1) =
      Inr ((out'', length out' - 1), st'') \<and> pushed g (seen @ rs) out'' \<and> length out' - 1 < length out'' \<and>
    span (last out') \<subseteq> span (out'' ! (length out' - 1)) \<and>
    (flags out' \<subseteq> {length out' - 1} \<and> (\<forall>b\<in>set rs. \<not> main b) \<longrightarrow> flags out'' = {length out' - 1})"
proof -
  let ?marked = "butlast out' @ [(last out')\<lparr>main := True\<rparr>]"
  have len: "length ?marked = length out'" "length out' - 1 < length out'" using out(2) by auto
  have mk: "?marked ! (length out' - 1) = (last out')\<lparr>main := True\<rparr>"
    using out(2) by (simp add: nth_append)
  obtain out'' st'' where l: "map_loop f i (Suc i) rs st ?marked (length out' - 1) =
      Inr ((out'', length out' - 1), st'')" "pushed g (seen @ rs) out''"
    "extends_regions ?marked out''" "(\<forall>b\<in>set rs. \<not> main b) \<longrightarrow> flags out'' = flags ?marked"
    using map_loop_after [OF f, of i "Suc i" seen ?marked rs st "length out' - 1"]
      pushed_mark [OF out] seen rs by auto
  have "span (?marked ! (length out' - 1)) \<subseteq> span (out'' ! (length out' - 1))"
    using l(3) len unfolding extends_regions_def by metis
  then have "span (last out') \<subseteq> span (out'' ! (length out' - 1))" unfolding mk by simp
  moreover have "length out' - 1 < length out''"
    using l(3) len by (simp add: extends_regions_def)
  ultimately show ?thesis using l flags_mark_last [OF out(2)] by auto
qed

lemma map_loop_before:
  assumes f: "maps_to f P g" and "pushed g seen out"
    and "\<forall>a\<in>set seen. P a \<and> (\<forall>b\<in>set rs. before a b)"
    and "sorted_wrt before rs" and "\<forall>b\<in>set rs. P b" and "k < length rs"
  shows "\<exists>out' nm' st'. map_loop f (i + k) i rs st out nm = Inr ((out', nm'), st') \<and>
     pushed g (seen @ rs) out' \<and> nm' < length out' \<and> span (g (rs ! k)) \<subseteq> span (out' ! nm') \<and>
     (flags out = {} \<and> flags rs = {k} \<longrightarrow> flags out' = {nm'})"
  using assms(2-)
proof (induction rs arbitrary: i k seen st out)
  case Nil
  then show ?case by simp
next
  case (Cons b rs)
  from Cons.prems have inv: "pushed g seen out" and ps: "\<forall>a\<in>set seen. P a \<and> before a b" and pb: "P b"
    by auto
  obtain out' where o: "push_region out (g b) = Inr out'" "pushed g (seen @ [b]) out'"
    "extends_regions out out'" "out' \<noteq> []" "span (g b) \<subseteq> span (last out')"
    "flags out' \<subseteq> flags out \<union> (if main b then {length out' - 1} else {})" "flags out \<subseteq> flags out'"
    by (rule push_step [OF inv ps pb])
  obtain st1 where st1: "f st b = Inr ([g b], st1)"
    using f pb unfolding maps_to_def by blast
  show ?case
  proof (cases k)
    case 0
    have "\<exists>out'' st''. map_loop f i (Suc i) rs st1 (butlast out' @ [(last out')\<lparr>main := True\<rparr>]) (length out' - 1) =
        Inr ((out'', length out' - 1), st'') \<and> pushed g ((seen @ [b]) @ rs) out'' \<and> length out' - 1 < length out'' \<and>
      span (last out') \<subseteq> span (out'' ! (length out' - 1)) \<and>
      (flags out' \<subseteq> {length out' - 1} \<and> (\<forall>b\<in>set rs. \<not> main b) \<longrightarrow> flags out'' = {length out' - 1})"
      by (rule map_loop_marked [OF f o(2,4)]) (use Cons.prems in auto)
    moreover have "flags out' \<subseteq> {length out' - 1} \<and> (\<forall>b\<in>set rs. \<not> main b)" if "flags out = {}" "flags (b # rs) = {0}"
    proof
      show "flags out' \<subseteq> {length out' - 1}" using o(6) that(1) by (auto split: if_splits)
      show "\<forall>b\<in>set rs. \<not> main b" using flags_empty flags_Cons_zero that(2) by blast
    qed
    ultimately show ?thesis using o st1 0 by auto
  next
    case (Suc k')
    have "\<exists>out'' nm'' st''. map_loop f (Suc i + k') (Suc i) rs st1 out' nm = Inr ((out'', nm''), st'') \<and>
       pushed g ((seen @ [b]) @ rs) out'' \<and> nm'' < length out'' \<and>
       span (g (rs ! k')) \<subseteq> span (out'' ! nm'') \<and>
       (flags out' = {} \<and> flags rs = {k'} \<longrightarrow> flags out'' = {nm''})"
      by (rule Cons.IH) (use Cons.prems o Suc in auto)
    then show ?thesis using o st1 Suc flags_Cons_Suc [of b rs k'] by auto
  qed
qed

theorem map_selections_keeps:
  assumes f: "maps_to f P g" and wf: "wf_selection s" and P: "\<forall>r\<in>set (regions s). P r"
  shows "\<exists>s' st'. map_selections f st s = Inr (s', st') \<and> wf_selection s' \<and>
    spans (regions s') = spans (map g (regions s)) \<and>
    span (g (regions s ! main_selection s)) \<subseteq> span (regions s' ! main_selection s') \<and>
    (main_flags s \<longrightarrow> main_flags s')"
proof -
  have "\<exists>out nm st'. map_loop f (0 + main_selection s) 0 (regions s) st [] 0 = Inr ((out, nm), st') \<and>
     pushed g ([] @ regions s) out \<and> nm < length out \<and>
     span (g (regions s ! main_selection s)) \<subseteq> span (out ! nm) \<and>
     (flags [] = {} \<and> flags (regions s) = {main_selection s} \<longrightarrow> flags out = {nm})"
    by (rule map_loop_before [OF f pushed_Nil]) (use wf P in \<open>auto simp: wf_selection_def\<close>)
  then obtain out nm st' where
    l: "map_loop f (main_selection s) 0 (regions s) st [] 0 = Inr ((out, nm), st')" and
    out: "pushed g (regions s) out" "nm < length out"
    "span (g (regions s ! main_selection s)) \<subseteq> span (out ! nm)"
    "flags (regions s) = {main_selection s} \<longrightarrow> flags out = {nm}"
    by (simp del: split_paired_Ex) blast
  from l have "map_selections f st s = Inr (\<lparr>regions = out, main_selection = nm\<rparr>, st')"
    by (simp add: map_selections_def)
  moreover note out
  moreover have "main_selection s < length (regions s)" using wf by (simp add: wf_selection_def)
  ultimately show ?thesis by (auto simp: wf_selection_def main_flags_iff pushed_def)
qed

end

end
