(* ===== verification/Region_Moves.thy ===== *)
theory Region_Moves
  imports Region_Map
begin

text \<open>
  The region operations of src/selection.rs that the modes map over a selection, as interpretations
  of the contract of Region_Map: none of them can make \<open>map_selections\<close> panic on a selection that
  lies inside the buffer. The exceptions are \<open>extend_to\<close> and \<open>extend_to_boundary\<close>, for which
  concrete selections that panic are given.
\<close>

definition within :: "nat \<Rightarrow> sel_region \<Rightarrow> bool" where
  "within n r \<longleftrightarrow> caret r \<le> n \<and> tail r \<le> n"

definition moves_in_range :: "nat \<Rightarrow> nat \<Rightarrow> nat \<Rightarrow> bool" where
  "moves_in_range n bytes_per_line count \<longleftrightarrow>
     n \<le> isize_max \<and> count \<le> isize_max \<and> bytes_per_line \<le> isize_max \<and>
     bytes_per_line * count \<le> isize_max"

text \<open>Within the range of \<open>isize\<close> no conversion, product or sum of a move wraps.\<close>

definition moved :: "nat \<Rightarrow> direction \<Rightarrow> nat \<Rightarrow> nat \<Rightarrow> nat \<Rightarrow> nat" where
  "moved c d bytes_per_line n count =
     (case d of
        Up \<Rightarrow> c - bytes_per_line * count
      | Down \<Rightarrow> min n (c + bytes_per_line * count)
      | Left \<Rightarrow> c - count
      | Right \<Rightarrow> min n (c + count))"

lemma isize_saturating_mul_small:
  "a * b \<le> isize_max \<Longrightarrow> isize_saturating_mul (int a) (int b) = int (a * b)"
  by (simp add: isize_saturating_mul_def isize_max_def flip: of_nat_mult)

lemma usize_saturating_mul_small:
  "a * b \<le> isize_max \<Longrightarrow> usize_saturating_mul a b = a * b"
  by (simp add: usize_saturating_mul_def isize_max_def usize_modulus_def)

lemma as_usize_difference:
  "a \<le> isize_max \<Longrightarrow> b \<le> isize_max \<Longrightarrow> as_usize (max 0 (isize_wrap (int a - int b))) = a - b"
  by (auto simp: isize_wrap_id isize_max_def as_usize_def usize_modulus_def max_def)

lemma move_caret_moved:
  assumes "moves_in_range n bytes_per_line count" "caret r \<le> n"
  shows "move_caret r d bytes_per_line n count = moved (caret r) d bytes_per_line n count"
proof -
  from assms have c: "caret r \<le> isize_max" and k: "count \<le> isize_max"
    and b: "bytes_per_line \<le> isize_max" and bk: "bytes_per_line * count \<le> isize_max"
    by (auto simp: moves_in_range_def)
  have "caret r + bytes_per_line * count < usize_modulus" "caret r + count < usize_modulus"
    using c k bk by (simp_all add: isize_max_def usize_modulus_def)
  then show ?thesis
    using c k b bk as_usize_difference [OF c bk]
    by (cases d) (simp_all add: move_caret_def moved_def as_isize_small isize_saturating_mul_small
        usize_saturating_mul_small as_usize_difference usize_add_small)
qed

lemma moved_le: "c \<le> n \<Longrightarrow> moved c d b n k \<le> n"
  by (cases d) (auto simp: moved_def)

lemma moved_mono: "c \<le> c' \<Longrightarrow> moved c d b n k \<le> moved c' d b n k"
  by (cases d) (auto simp: moved_def min_def)

lemma moved_strict:
  "c < c' \<Longrightarrow> 0 < moved c d b n k \<Longrightarrow> moved c' d b n k < n \<Longrightarrow> moved c d b n k < moved c' d b n k"
  by (cases d) (auto simp: moved_def)

lemma before_carets: "before a b \<Longrightarrow> caret a < caret b \<and> tail a < tail b"
  by (simp add: before_def region_defs)

lemma before_zero: "within 0 a \<Longrightarrow> within 0 b \<Longrightarrow> \<not> before a b"
  by (simp add: within_def before_def region_defs)

definition move_ok :: "nat \<Rightarrow> nat \<Rightarrow> nat \<Rightarrow> sel_region \<Rightarrow> bool" where
  "move_ok n bytes_per_line count r \<longleftrightarrow> moves_in_range n bytes_per_line count \<and> within n r"

lemma simple_move_eq:
  assumes "move_ok n b k r" "0 < n"
  shows "simple_move r d b n k = region_new (moved (caret r) d b n k) (moved (caret r) d b n k)"
  using assms by (simp add: simple_move_def move_ok_def within_def move_caret_moved Let_def)

lemma simple_extend_eq:
  assumes "move_ok n b k r" "0 < n"
  shows "simple_extend r d b n k = region_new (moved (caret r) d b n k) (tail r)"
  using assms by (simp add: simple_extend_def move_ok_def within_def move_caret_moved Let_def)

lemmas direction_defs = strict_forward_def strict_backward_def

interpretation move_map: region_map "\<lambda>r. simple_move r d b n k" "move_ok n b k" for d b n k
proof
  fix x y assume P: "move_ok n b k x" "move_ok n b k y" and xy: "before x y"
  then have n: "0 < n" using before_zero [of x y] by (cases n) (auto simp: move_ok_def)
  note eqs = P [THEN simple_move_eq [OF _ n]]
  have "caret x < caret y" using before_carets [OF xy] ..
  then have le: "moved (caret x) d b n k \<le> moved (caret y) d b n k" by (simp add: moved_mono)
  show "region_min (simple_move x d b n k) \<le> region_min (simple_move y d b n k)"
    and "region_max (simple_move x d b n k) \<le> region_max (simple_move y d b n k)"
    using le by (simp_all add: eqs)
  show "before (simple_move x d b n k) (simple_move y d b n k)"
    if "strict_forward (simple_move x d b n k)"
    using that by (simp add: eqs direction_defs)
  show "before (simple_move x d b n k) (simple_move y d b n k)"
    if "strict_backward (simple_move x d b n k)"
    using that by (simp add: eqs direction_defs)
qed (auto simp: simple_move_def Let_def split: if_splits)

interpretation extend_map: region_map "\<lambda>r. simple_extend r d b n k" "move_ok n b k" for d b n k
proof
  fix x y assume P: "move_ok n b k x" "move_ok n b k y" and xy: "before x y"
  then have n: "0 < n" using before_zero [of x y] by (cases n) (auto simp: move_ok_def)
  note eqs = P [THEN simple_extend_eq [OF _ n]]
  have c: "caret x < caret y" and t: "tail x < tail y" using before_carets [OF xy] by auto
  then have le: "moved (caret x) d b n k \<le> moved (caret y) d b n k" by (simp add: moved_mono)
  show "region_min (simple_extend x d b n k) \<le> region_min (simple_extend y d b n k)"
    and "region_max (simple_extend x d b n k) \<le> region_max (simple_extend y d b n k)"
    using le t by (auto simp: eqs)
  show "before (simple_extend x d b n k) (simple_extend y d b n k)"
    if "strict_forward (simple_extend x d b n k)" "strict_backward (simple_extend y d b n k)"
  proof -
    from P(2) have "tail y \<le> n" by (simp add: move_ok_def within_def)
    with that moved_strict [OF c] show ?thesis by (simp add: eqs direction_defs before_def)
  qed
  show "before (simple_extend x d b n k) (simple_extend y d b n k)"
    if "strict_backward (simple_extend x d b n k)" "strict_forward (simple_extend y d b n k)"
    using that t by (simp add: eqs direction_defs before_def)
qed (auto simp: simple_extend_def Let_def split: if_splits)

interpretation jump_map: region_map "\<lambda>r. jump_to r offset" "\<lambda>_. True" for offset
  by unfold_locales (simp_all add: jump_to_def direction_defs)

interpretation swap_map: region_map swap_caret "\<lambda>_. True"
  by unfold_locales (auto simp: swap_caret_def before_def region_defs)

interpretation collapse_map: region_map collapse "\<lambda>_. True"
  by unfold_locales (auto simp: collapse_def before_def region_defs)

interpretation backward_map: region_map to_backward "\<lambda>_. True"
  by unfold_locales (auto simp: to_backward_def before_def region_defs)

section \<open>Line boundaries and the append closure\<close>

definition boundary :: "nat \<Rightarrow> direction \<Rightarrow> nat \<Rightarrow> nat \<Rightarrow> nat" where
  "boundary c d bytes_per_line n =
     (case d of
        Up \<Rightarrow> 0
      | Down \<Rightarrow> n - 1
      | Left \<Rightarrow> bytes_per_line * (c div bytes_per_line)
      | Right \<Rightarrow> min (bytes_per_line * (c div bytes_per_line) + bytes_per_line - 1) (n - 1))"

lemma line_end:
  "c + b - Suc (c mod b) = b * (c div b) + b - Suc 0" for b :: nat
  using mult_div_mod_eq [of b c] by linarith

lemma jump_to_boundary_eq:
  assumes "0 < b" "0 < n"
  shows "jump_to_boundary r d b n = Inr (region_new (boundary (caret r) d b n) (boundary (caret r) d b n))"
  using assms
  by (cases d) (simp_all add: jump_to_boundary_def boundary_caret_def boundary_def
      minus_mod_eq_mult_div line_end)

lemma extend_to_boundary_eq:
  assumes "0 < b" "0 < n"
  shows "extend_to_boundary r d b n = Inr (region_new (boundary (caret r) d b n) (tail r))"
  using assms
  by (cases d) (simp_all add: extend_to_boundary_def boundary_caret_def boundary_def
      minus_mod_eq_mult_div line_end)

lemma min_shift_mono: "x \<le> y \<Longrightarrow> min (x + b - Suc 0) m \<le> min (y + b - Suc 0) m" for x :: nat
  by simp

lemma boundary_mono: "c \<le> c' \<Longrightarrow> boundary c d b n \<le> boundary c' d b n"
proof -
  assume "c \<le> c'"
  then have "b * (c div b) \<le> b * (c' div b)" by (simp add: div_le_mono)
  from this min_shift_mono [OF this] show ?thesis by (cases d) (simp_all add: boundary_def)
qed

lemma boundary_le: "0 < n \<Longrightarrow> c \<le> n \<Longrightarrow> boundary c d b n \<le> n"
  using times_div_less_eq_dividend [of b c]
  by (cases d) (auto simp: boundary_def simp del: times_div_less_eq_dividend)

interpretation boundary_map:
  region_map "\<lambda>r. projr (jump_to_boundary r d b n)" "\<lambda>r. 0 < b \<and> within n r" for d b n
proof
  fix x y assume P: "0 < b \<and> within n x" "0 < b \<and> within n y" and xy: "before x y"
  then have "0 < n" using before_zero [of x y] by (cases n) auto
  with P have eqs: "jump_to_boundary r d b n =
      Inr (region_new (boundary (caret r) d b n) (boundary (caret r) d b n))" for r
    by (simp add: jump_to_boundary_eq)
  have "caret x < caret y" using before_carets [OF xy] ..
  then have le: "boundary (caret x) d b n \<le> boundary (caret y) d b n" by (simp add: boundary_mono)
  show "region_min (projr (jump_to_boundary x d b n)) \<le> region_min (projr (jump_to_boundary y d b n))"
    and "region_max (projr (jump_to_boundary x d b n)) \<le> region_max (projr (jump_to_boundary y d b n))"
    using le by (simp_all add: eqs)
  show "before (projr (jump_to_boundary x d b n)) (projr (jump_to_boundary y d b n))"
    if "strict_forward (projr (jump_to_boundary x d b n))"
    using that by (simp add: eqs direction_defs)
  show "before (projr (jump_to_boundary x d b n)) (projr (jump_to_boundary y d b n))"
    if "strict_backward (projr (jump_to_boundary x d b n))"
    using that by (simp add: eqs direction_defs)
qed (auto simp: jump_to_boundary_def boundary_caret_def split: direction.splits if_splits)

definition append_region :: "nat \<Rightarrow> nat \<Rightarrow> sel_region \<Rightarrow> sel_region" where
  "append_region bytes_per_line max_size r =
     simple_extend (to_forward r) Right bytes_per_line max_size 1"

lemma append_region_eq:
  assumes "move_ok n b 1 r"
  shows "append_region b n r = region_new (min n (region_max r + 1)) (region_min r)"
proof (cases "n = 0")
  case True
  with assms show ?thesis
    by (simp add: append_region_def simple_extend_def to_forward_def move_ok_def within_def region_defs)
next
  case False
  have "move_ok n b 1 (to_forward r)"
    using assms by (auto simp: move_ok_def within_def to_forward_def region_defs)
  with False show ?thesis
    by (simp add: append_region_def simple_extend_eq moved_def) (simp add: to_forward_def)
qed

interpretation append_map: region_map "append_region b n" "move_ok n b 1" for b n
proof
  fix x y assume P: "move_ok n b 1 x" "move_ok n b 1 y" and xy: "before x y"
  note eqs = P [THEN append_region_eq]
  have le: "region_min x \<le> n" "region_min y \<le> n" "region_max x \<le> n" "region_max y \<le> n"
    using P by (auto simp: move_ok_def within_def region_max_def region_min_def min_le_iff_disj)
  have xy': "region_min x \<le> region_max x" "region_max x < region_min y" "region_min y \<le> region_max y"
    using xy by (simp_all add: before_def)
  show "region_min (append_region b n x) \<le> region_min (append_region b n y)"
    and "region_max (append_region b n x) \<le> region_max (append_region b n y)"
    using le xy' unfolding eqs region_min_new region_max_new by linarith+
  show "before (append_region b n x) (append_region b n y)"
    if "strict_backward (append_region b n y)"
    using that le xy' unfolding eqs direction_defs region_new_simps by linarith
  show "before (append_region b n x) (append_region b n y)"
    if "strict_backward (append_region b n x)"
    using that le xy' unfolding eqs direction_defs region_new_simps by linarith
qed (simp add: append_region_eq)

end
