(* ===== verification/Selection_Props.thy ===== *)
theory Selection_Props
  imports Region_Moves
begin

text \<open>
  Properties of src/selection.rs: the operations on a whole selection keep the invariant, the lookup
  by range finds exactly the regions that meet it, cycling the main region is reversible, splitting
  a region loses nothing, and where the code departs from its own invariant.
\<close>

section \<open>Lookup by range\<close>

lemma binary_search_spec:
  assumes "sorted_wrt (<) ks" "lo \<le> hi" "hi \<le> length ks"
    and "\<forall>j<lo. ks ! j < t" and "\<forall>j. hi \<le> j \<and> j < length ks \<longrightarrow> t < ks ! j"
  shows "binary_search ks t lo hi \<le> hi \<and> (\<forall>j<binary_search ks t lo hi. ks ! j < t) \<and>
    (\<forall>j. binary_search ks t lo hi \<le> j \<and> j < length ks \<longrightarrow> t \<le> ks ! j)"
  using assms
proof (induction ks t lo hi rule: binary_search.induct)
  case (1 ks t lo hi)
  define mid where "mid = lo + (hi - lo) div 2"
  note lt = sorted_wrt_nth_less [OF "1.prems"(1)]
  show ?case
  proof (cases "lo < hi")
    case False
    then have "binary_search ks t lo hi = lo" by (simp add: binary_search.simps)
    with False "1.prems" show ?thesis by (auto simp: less_imp_le)
  next
    case True
    then have mid: "lo \<le> mid" "mid < hi" "mid < length ks" using "1.prems" by (auto simp: mid_def)
    consider "ks ! mid = t" | "ks ! mid < t" | "ks ! mid > t" by linarith
    then show ?thesis
    proof cases
      case 1
      then have "binary_search ks t lo hi = mid"
        using True by (simp add: binary_search.simps mid_def Let_def)
      moreover have "ks ! j < t" if "j < mid" for j using lt [OF that mid(3)] 1 by simp
      moreover have "t \<le> ks ! j" if "mid \<le> j" "j < length ks" for j
        using lt [of mid j] that 1 by (cases "mid = j") auto
      ultimately show ?thesis using mid by auto
    next
      case 2
      have "\<forall>j<mid + 1. ks ! j < t" using lt [OF _ mid(3)] 2 by (auto simp: less_Suc_eq dest: less_trans)
      then show ?thesis
        using "1.IH"(1) [OF True mid_def _ 2] "1.prems" 2 mid True
        by (auto simp: binary_search.simps [of ks t lo hi] Let_def simp flip: mid_def)
    next
      case 3
      have "\<forall>j. mid \<le> j \<and> j < length ks \<longrightarrow> t < ks ! j"
        using lt [of mid] 3 by (metis le_neq_implies_less less_trans)
      then show ?thesis
        using "1.IH"(2) [OF True mid_def] "1.prems" 3 mid True
        by (auto simp: binary_search.simps [of ks t lo hi] Let_def simp flip: mid_def)
    qed
  qed
qed

lemma sorted_max: "sorted_wrt before rs \<Longrightarrow> sorted_wrt (<) (map region_max rs)"
  unfolding sorted_wrt_map
  by (erule sorted_wrt_mono_rel [rotated]) (auto simp: before_def region_defs)

text \<open>\<open>search\<close> finds the first region that ends at or after the offset.\<close>

lemma search_spec:
  assumes "wf_selection s"
  obtains i where "search s offset = Inr i" "i \<le> length (regions s)"
    "\<forall>j<i. region_max (regions s ! j) < offset"
    "\<forall>j. i \<le> j \<and> j < length (regions s) \<longrightarrow> offset \<le> region_max (regions s ! j)"
proof (cases "offset > region_max (last (regions s))")
  case True
  have ne: "regions s \<noteq> []" using assms by (rule wf_selection_nonempty)
  have "region_max (regions s ! j) < offset" if "j < length (regions s)" for j
  proof -
    let ?ks = "map region_max (regions s)"
    have "sorted_wrt (\<le>) ?ks"
      using sorted_max [of "regions s"] assms by (simp add: wf_selection_def strict_sorted_imp_sorted)
    then have "?ks ! j \<le> ?ks ! (length (regions s) - 1)"
      using that by (intro sorted_nth_mono) auto
    with True ne that show ?thesis by (simp add: last_conv_nth)
  qed
  with True ne show ?thesis by (intro that [of "length (regions s)"]) (auto simp: search_def)
next
  case False
  have ne: "regions s \<noteq> []" using assms by (rule wf_selection_nonempty)
  let ?ks = "map region_max (regions s)"
  let ?i = "binary_search ?ks offset 0 (length (regions s))"
  have "?i \<le> length (regions s) \<and> (\<forall>j<?i. ?ks ! j < offset) \<and>
      (\<forall>j. ?i \<le> j \<and> j < length ?ks \<longrightarrow> offset \<le> ?ks ! j)"
    by (rule binary_search_spec) (use assms in \<open>auto simp: wf_selection_def intro: sorted_max\<close>)
  with False ne show ?thesis by (intro that [of ?i]) (auto simp: search_def)
qed

lemma filter_slice:
  assumes "i \<le> k" "k \<le> length xs" "\<forall>j<i. \<not> Q (xs ! j)" "\<forall>j. i \<le> j \<and> j < k \<longrightarrow> Q (xs ! j)"
    "\<forall>j. k \<le> j \<and> j < length xs \<longrightarrow> \<not> Q (xs ! j)"
  shows "filter Q xs = take (k - i) (drop i xs)"
proof -
  have "xs = take i xs @ take (k - i) (drop i xs) @ drop k xs"
    using assms(1,2) by (metis append_assoc append_take_drop_id le_add_diff_inverse take_add)
  moreover have "filter Q (take i xs) = []"
    using assms by (auto simp: filter_empty_conv in_set_conv_nth)
  moreover have "filter Q (drop k xs) = []"
    using assms by (auto simp: filter_empty_conv in_set_conv_nth)
  moreover have "filter Q (take (k - i) (drop i xs)) = take (k - i) (drop i xs)"
    using assms by (intro filter_True) (auto simp: in_set_conv_nth)
  ultimately show ?thesis by (metis append_Nil append_Nil2 filter_append)
qed

lemma regions_in_range_filter:
  assumes wf: "wf_selection s" and ab: "a \<le> b"
  shows "regions_in_range s a b =
    Inr (filter (\<lambda>r. a \<le> region_max r \<and> region_min r \<le> b) (regions s))"
proof -
  let ?rs = "regions s"
  obtain i where i: "search s a = Inr i" "i \<le> length ?rs" "\<forall>j<i. region_max (?rs ! j) < a"
    "\<forall>j. i \<le> j \<and> j < length ?rs \<longrightarrow> a \<le> region_max (?rs ! j)" by (rule search_spec [OF wf, of a])
  obtain l where l: "search s b = Inr l" "l \<le> length ?rs" "\<forall>j<l. region_max (?rs ! j) < b"
    "\<forall>j. l \<le> j \<and> j < length ?rs \<longrightarrow> b \<le> region_max (?rs ! j)" by (rule search_spec [OF wf, of b])
  define k where "k = (if l < length ?rs \<and> region_min (?rs ! l) \<le> b then l + 1 else l)"
  have il: "i \<le> l"
  proof (rule ccontr)
    assume "\<not> i \<le> l"
    with i l have "region_max (?rs ! l) < a" "b \<le> region_max (?rs ! l)" by auto
    with ab show False by simp
  qed
  have later: "\<not> region_min (?rs ! j) \<le> b" if "l < j" "j < length ?rs" for j
  proof -
    have "before (?rs ! l) (?rs ! j)"
      using wf that by (auto simp: wf_selection_def intro: sorted_wrt_nth_less)
    moreover have "b \<le> region_max (?rs ! l)" using l(4) that by simp
    ultimately show ?thesis by (simp add: before_def)
  qed
  have early: "region_min (?rs ! j) \<le> b" if "j < l" for j
    using l(3) that region_min_le_max [of "?rs ! j"] by (metis less_imp_le order_trans)
  have "filter (\<lambda>r. a \<le> region_max r \<and> region_min r \<le> b) ?rs = take (k - i) (drop i ?rs)"
  proof (rule filter_slice)
    show "\<forall>j. k \<le> j \<and> j < length ?rs \<longrightarrow> \<not> (a \<le> region_max (?rs ! j) \<and> region_min (?rs ! j) \<le> b)"
    proof (intro allI impI)
      fix j assume j: "k \<le> j \<and> j < length ?rs"
      then have "l < j \<or> (j = l \<and> \<not> region_min (?rs ! l) \<le> b)" by (auto simp: k_def split: if_splits)
      with later j show "\<not> (a \<le> region_max (?rs ! j) \<and> region_min (?rs ! j) \<le> b)" by blast
    qed
  qed (use i il l(2) early in \<open>auto simp: k_def less_Suc_eq split: if_splits\<close>)
  moreover have "i \<le> k" "k \<le> length ?rs" using il l(2) by (auto simp: k_def)
  ultimately show ?thesis
    using i(1) l(1) by (simp add: regions_in_range_def Let_def flip: k_def)
qed

text \<open>C16: \<open>regions_in_range\<close>, two binary searches and an adjustment of the upper index, returns on
  every selection that satisfies the invariant exactly the regions that meet the closed range, in
  order, and never indexes out of bounds.\<close>

theorem regions_in_range_exact:
  assumes "wf_selection s" "a \<le> b"
  shows "regions_in_range s a b = Inr (filter (\<lambda>r. span r \<inter> {a..b} \<noteq> {}) (regions s))"
proof -
  have "span r \<inter> {a..b} \<noteq> {} \<longleftrightarrow> a \<le> region_max r \<and> region_min r \<le> b" for r
  proof -
    have "span r \<inter> {a..b} \<noteq> {} \<longleftrightarrow> max (region_min r) a \<le> min (region_max r) b"
      unfolding span_def Int_atLeastAtMost by auto
    with assms(2) region_min_le_max [of r] show ?thesis by linarith
  qed
  then show ?thesis using regions_in_range_filter [OF assms] by presburger
qed

definition three_regions :: selection where
  "three_regions = \<lparr>regions = [region_new 3 1, (region_new 5 9)\<lparr>main := True\<rparr>, region_new 12 12],
     main_selection = 1\<rparr>"

lemma three_regions_wf: "wf_selection three_regions" "main_flags three_regions"
  "in_bounds 20 three_regions"
  by (auto simp: three_regions_def wf_selection_def main_flags_def in_bounds_def before_def
      less_Suc_eq numeral_3_eq_3)

theorem regions_in_range_exact_witness:
  "wf_selection three_regions \<and>
   regions_in_range three_regions 4 12 =
     Inr [(region_new 5 9)\<lparr>main := True\<rparr>, region_new 12 12]"
  using regions_in_range_exact [OF three_regions_wf(1), of 4 12]
  by (simp add: three_regions_wf(1)) (simp add: three_regions_def span_def region_defs)

section \<open>Moving and extending\<close>

text \<open>C33: Within the range of \<open>isize\<close> (buffer length, count and their product) the caret computed by
  \<open>simple_move\<close> and \<open>simple_extend\<close> is the mathematical one in every direction: no conversion to
  \<open>isize\<close>, saturating product or sum wraps, and the result stays within the buffer.\<close>

theorem move_caret_no_wrap:
  assumes "n \<le> isize_max" "count \<le> isize_max" "bpl \<le> isize_max" "bpl * count \<le> isize_max"
    and "caret r \<le> n"
  shows "move_caret r d bpl n count =
      (case d of Up \<Rightarrow> caret r - bpl * count | Down \<Rightarrow> min n (caret r + bpl * count)
       | Left \<Rightarrow> caret r - count | Right \<Rightarrow> min n (caret r + count)) \<and>
    move_caret r d bpl n count \<le> n"
  using move_caret_moved [of n bpl count r d] moved_le [of "caret r" n d bpl count] assms
  by (simp add: moves_in_range_def moved_def)

theorem move_caret_no_wrap_witness:
  "move_caret (region_new 5 5) Down 16 100 3 = 53 \<and> move_caret (region_new 5 5) Up 16 100 3 = 0"
  using move_caret_no_wrap [of 100 3 16 "region_new 5 5" Down]
    move_caret_no_wrap [of 100 3 16 "region_new 5 5" Up]
  by (simp add: isize_max_def)

text \<open>Outside that range the release build wraps: a count of \<open>2^60\<close> with 16 bytes per line
  saturates the product at \<open>usize::MAX\<close>, and adding the caret then moves it up by one byte
  although the user asked to move down.\<close>

theorem move_down_saturated_wraps:
  assumes "0 < caret r" "caret r \<le> n" "n \<le> isize_max"
  shows "move_caret r Down 16 n 1152921504606846976 = caret r - 1"
  using assms
  by (simp add: move_caret_def usize_saturating_mul_def usize_add_def usize_modulus_def isize_max_def
      mod_if)

theorem move_down_saturated_wraps_witness:
  "move_caret (region_new 5 5) Down 16 100 1152921504606846976 = 4"
  using move_down_saturated_wraps [of "region_new 5 5" 100] by (simp add: isize_max_def)

text \<open>So two cursors change their order, and the one that comes out behind is merged with a cursor elsewhere: a panic.\<close>

lemma huge_count_panics:
  fixes two :: selection
  defines "two \<equiv> \<lparr>regions = [\<lparr>caret = 0, tail = 0, main = True\<rparr>, \<lparr>caret = 5, tail = 5, main = False\<rparr>], main_selection = 0\<rparr>"
  shows "map_selections (single (\<lambda>r. simple_move r Down 16 20 1152921504606846976)) () two = Inl MergeDisjointCursors"
    "map_selections (single (\<lambda>r. simple_extend r Down 16 20 1152921504606846976)) () two = Inl MergeDifferentDirections"
  by (simp_all add: two_def map_selections_def single_def simple_move_def simple_extend_def move_caret_def
      usize_saturating_mul_def usize_add_def usize_modulus_def push_region_def overlaps_def merge_region_def region_defs)

lemma in_bounds_map:
  assumes "in_bounds n s" "spans (regions s') = spans (map g (regions s))"
    and "\<And>r. within n r \<Longrightarrow> within n (g r)"
  shows "in_bounds n s'"
proof -
  have "span (g r) \<subseteq> {..n}" if "r \<in> set (regions s)" for r
    using that assms(1,3) by (simp add: in_bounds_def within_def span_bound)
  then show ?thesis using assms(2) by (simp add: in_bounds_spans spans_def UN_subset_iff)
qed

lemma in_bounds_within: "in_bounds n s \<longleftrightarrow> (\<forall>r\<in>set (regions s). within n r)"
  by (simp add: in_bounds_def within_def)

text \<open>C14: Moving every region of a selection inside the buffer (the closure of \<open>Action::Move\<close>) by a distance within
  the range of \<open>isize\<close> (length of the data, count, and count times bytes per line) never
  reaches a panic of \<open>SelRegion::merge\<close>: carets that meet are merged, the result is sorted, disjoint
  and inside the buffer, and exactly the main region carries the main flag. Beyond that range it may panic
  (\<open>huge_count_panics\<close>).\<close>

theorem move_selection_safe:
  assumes "wf_selection s" "in_bounds n s" "moves_in_range n bpl count"
  shows "\<exists>s'. map_selections (single (\<lambda>r. simple_move r d bpl n count)) () s = Inr (s', ()) \<and>
    wf_selection s' \<and> in_bounds n s' \<and> (main_flags s \<longrightarrow> main_flags s')"
proof -
  have P: "\<forall>r\<in>set (regions s). move_ok n bpl count r"
    using assms(2,3) by (simp add: in_bounds_within move_ok_def)
  have "within n (simple_move r d bpl n count)" if "within n r" for r
    using that assms(3) simple_move_eq [of n bpl count r d] moved_le [of "caret r" n]
    by (cases "n = 0") (auto simp: move_ok_def within_def simple_move_def)
  with move_map.map_selections_keeps [OF single_maps_to assms(1) P, of d "()"] show ?thesis
    using in_bounds_map [OF assms(2)] by fastforce
qed

theorem move_selection_safe_witness:
  "\<exists>s'. map_selections (single (\<lambda>r. simple_move r Left 16 20 9)) () three_regions = Inr (s', ()) \<and>
     wf_selection s' \<and> in_bounds 20 s' \<and> (main_flags three_regions \<longrightarrow> main_flags s')"
  by (rule move_selection_safe) (simp_all add: three_regions_wf moves_in_range_def isize_max_def)

text \<open>C15: Extending every region (the closure of \<open>Action::Extend\<close>) by a distance within the range of \<open>isize\<close> never
  panics either: two regions that come to overlap always point the same way, whatever directions the selection
  mixes. Beyond that range it may panic (\<open>huge_count_panics\<close>).\<close>

theorem extend_selection_safe:
  assumes "wf_selection s" "in_bounds n s" "moves_in_range n bpl count"
  shows "\<exists>s'. map_selections (single (\<lambda>r. simple_extend r d bpl n count)) () s = Inr (s', ()) \<and>
    wf_selection s' \<and> in_bounds n s' \<and> (main_flags s \<longrightarrow> main_flags s')"
proof -
  have P: "\<forall>r\<in>set (regions s). move_ok n bpl count r"
    using assms(2,3) by (simp add: in_bounds_within move_ok_def)
  have "within n (simple_extend r d bpl n count)" if "within n r" for r
    using that assms(3) simple_extend_eq [of n bpl count r d] moved_le [of "caret r" n]
    by (cases "n = 0") (auto simp: move_ok_def within_def simple_extend_def)
  with extend_map.map_selections_keeps [OF single_maps_to assms(1) P, of d "()"] show ?thesis
    using in_bounds_map [OF assms(2)] by fastforce
qed

theorem extend_selection_safe_witness:
  "\<exists>s'. map_selections (single (\<lambda>r. simple_extend r Left 16 20 9)) () three_regions = Inr (s', ()) \<and>
     wf_selection s' \<and> in_bounds 20 s' \<and> (main_flags three_regions \<longrightarrow> main_flags s')"
  by (rule extend_selection_safe) (simp_all add: three_regions_wf moves_in_range_def isize_max_def)

text \<open>Extending to an absolute offset (a count before \<open>G\<close>) does panic: whenever the offset lies
  strictly between the tails of two regions, one becomes forward and the other backward, they share
  the offset, and \<open>merge\<close> panics.\<close>

theorem extend_to_panics:
  assumes "tail a < offset" "offset < tail b" "main_selection s < 2" "regions s = [a, b]"
  shows "map_selections (single (\<lambda>r. extend_to r offset)) () s = Inl MergeDifferentDirections"
  using assms
  by (simp add: map_selections_def single_def extend_to_def push_region_def overlaps_def
      merge_region_def Let_def region_defs less_2_cases_iff)

theorem extend_to_panics_witness:
  "map_selections (single (\<lambda>r. extend_to r 5)) ()
     \<lparr>regions = [(region_new 0 0)\<lparr>main := True\<rparr>, region_new 10 10], main_selection = 0\<rparr> =
   Inl MergeDifferentDirections"
  by (rule extend_to_panics) simp_all

section \<open>Removing, cycling, splitting\<close>

lemma sorted_wrt_take_drop:
  assumes "sorted_wrt P xs"
  shows "sorted_wrt P (take i xs @ drop (Suc i) xs)"
proof -
  have "sorted_wrt P (take i xs @ drop i xs)" using assms by simp
  then have "sorted_wrt P (take i xs)" "sorted_wrt P (drop i xs)"
    "\<forall>x\<in>set (take i xs). \<forall>y\<in>set (drop i xs). P x y"
    unfolding sorted_wrt_append by blast+
  moreover have "set (drop (Suc i) xs) \<subseteq> set (drop i xs)" by (rule set_drop_subset_set_drop) simp
  moreover have "sorted_wrt P (drop (Suc i) xs)" using assms by (rule sorted_wrt_drop)
  ultimately show ?thesis by (auto simp: sorted_wrt_append)
qed

lemma set_main_sorted:
  assumes "set_main rs i b = Inr rs'" "sorted_wrt before rs"
  shows "sorted_wrt before rs'"
proof -
  have rs': "rs' = rs[i := (rs ! i)\<lparr>main := b\<rparr>]" and i: "i < length rs"
    using assms(1) by (auto simp: set_main_def split: if_splits)
  have "before (rs' ! j) (rs' ! k) = before (rs ! j) (rs ! k)" if "j < k" "k < length rs" for j k
    using that i unfolding rs' by (cases "j = i"; cases "k = i") simp_all
  with assms(2) rs' show ?thesis by (simp add: sorted_wrt_iff_nth_less)
qed

lemma remove_nth: "i \<le> length xs \<Longrightarrow> j < length xs - 1 \<Longrightarrow>
    (take i xs @ drop (Suc i) xs) ! j = (if j < i then xs ! j else xs ! Suc j)"
  by (simp add: nth_append min_def)

text \<open>C32: \<open>Selection::remove\<close> keeps the regions sorted, disjoint and non-empty, but keeps the main flag
  unique only when the removed region is not in front of the main one, or the main region is the
  last: otherwise the index moves to the next region while the old one stays flagged, and two regions
  are main.\<close>

theorem remove_main_flag:
  assumes "wf_selection s" "main_flags s" "index < length (regions s)" "1 < length (regions s)"
  shows "\<exists>s'. remove index s = Inr s' \<and> wf_selection s' \<and>
    (main_flags s' \<longleftrightarrow> main_selection s \<le> index \<or> main_selection s = length (regions s) - 1)"
proof -
  let ?rs = "regions s" and ?m = "main_selection s"
  define rs where "rs = take index ?rs @ drop (Suc index) ?rs"
  define m where "m = min (length rs - 1) ?m"
  define s' where "s' = \<lparr>regions = rs[m := (rs ! m)\<lparr>main := True\<rparr>], main_selection = m\<rparr>"
  have len: "length rs = length ?rs - 1" using assms(3) by (simp add: rs_def)
  have m: "m < length rs" using len assms(4) by (auto simp: m_def)
  have nth: "rs ! j = (if j < index then ?rs ! j else ?rs ! Suc j)" if "j < length rs" for j
    using that assms(3) len unfolding rs_def by (intro remove_nth) auto
  have mm: "?m < length ?rs" using assms(1) by (simp add: wf_selection_def)
  have flag: "main (?rs ! j) \<longleftrightarrow> j = ?m" if "j < length ?rs" for j
    using assms(2) that by (simp add: main_flags_def)
  have set: "set_main rs m True = Inr (rs[m := (rs ! m)\<lparr>main := True\<rparr>])"
    using m by (simp add: set_main_def)
  have r: "remove index s = Inr s'"
    using assms(3,4) set [unfolded m_def] by (simp add: remove_def s'_def Let_def m_def flip: rs_def)
  have "sorted_wrt before rs"
    using assms(1) unfolding rs_def wf_selection_def by (intro sorted_wrt_take_drop) simp
  with set m have wf: "wf_selection s'" by (auto simp: s'_def wf_selection_def dest: set_main_sorted)
  have others: "main (rs ! j) \<longleftrightarrow> (if j < index then j = ?m else Suc j = ?m)" if "j < length rs" for j
    using nth [OF that] flag [of j] flag [of "Suc j"] that len assms(3) by auto
  have "main_flags s' \<longleftrightarrow> (\<forall>j<length rs. j \<noteq> m \<longrightarrow> \<not> (if j < index then j = ?m else Suc j = ?m))"
    using m others by (auto simp: main_flags_def s'_def nth_list_update)
  also have "\<dots> \<longleftrightarrow> ?m \<le> index \<or> ?m = length ?rs - 1"
  proof
    assume unique: "\<forall>j<length rs. j \<noteq> m \<longrightarrow> \<not> (if j < index then j = ?m else Suc j = ?m)"
    show "?m \<le> index \<or> ?m = length ?rs - 1"
    proof (rule ccontr)
      assume "\<not> ?thesis"
      then have "?m - 1 < length rs" "?m - 1 \<noteq> m" "\<not> ?m - 1 < index" "Suc (?m - 1) = ?m"
        using mm len by (auto simp: m_def min_def)
      with unique show False by auto
    qed
  qed (use mm len assms(3) in \<open>auto simp: m_def min_def split: if_splits\<close>)
  finally show ?thesis using r wf by blast
qed

theorem remove_main_flag_witness:
  "\<exists>s'. remove 0 three_regions = Inr s' \<and> wf_selection s' \<and> \<not> main_flags s'"
  using remove_main_flag [OF three_regions_wf(1,2), of 0] by (auto simp: three_regions_def)

lemma cycle_return: "m < n \<Longrightarrow> ((m + c) mod n + n - c mod n) mod n = m" for m n c :: nat
proof -
  assume m: "m < n"
  then have q: "c mod n < n" by simp
  have e: "(m + c) mod n = (if m + c mod n < n then m + c mod n else m + c mod n - n)"
  proof -
    have "(m + q) mod n = (if m + q < n then m + q else m + q - n)" if "q < n" for q
      using m that by (auto simp: le_mod_geq not_less)
    from this [OF q] show ?thesis by (simp only: mod_add_right_eq)
  qed
  show ?thesis
  proof (cases "m + c mod n < n")
    case True
    with e have "(m + c) mod n + n - c mod n = m + n" by simp
    with m show ?thesis by simp
  next
    case False
    with e have "(m + c) mod n + n - c mod n = m" by simp
    with m show ?thesis by simp
  qed
qed

text \<open>Cycling the main region forward and back by the same count restores the selection, as long as
  the sum of the index and the count does not wrap.\<close>

theorem select_next_prev:
  assumes "wf_selection s" "main_flags s" "main_selection s + count < usize_modulus"
  shows "and_then (select_next count s) (select_prev count) = Inr s"
proof -
  let ?rs = "regions s" and ?m = "main_selection s" and ?n = "length (regions s)"
  define k where "k = (?m + count) mod ?n"
  have m: "?m < ?n" using assms(1) by (simp add: wf_selection_def)
  then have k: "k < ?n" unfolding k_def by (intro mod_less_divisor) linarith
  have return: "(k + ?n - count mod ?n) mod ?n = ?m" unfolding k_def using m by (rule cycle_return)
  have flag: "main (?rs ! j) \<longleftrightarrow> j = ?m" if "j < ?n" for j
    using assms(2) that by (simp add: main_flags_def)
  let ?off = "?rs[?m := (?rs ! ?m)\<lparr>main := False\<rparr>]"
  let ?on = "?off[k := (?off ! k)\<lparr>main := True\<rparr>]"
  have nx: "select_next count s = Inr \<lparr>regions = ?on, main_selection = k\<rparr>"
    using m k assms(3) by (simp add: select_next_def set_main_def usize_add_small k_def Let_def)
  have restored: "?on[k := (?on ! k)\<lparr>main := False\<rparr>, ?m := (?on[k := (?on ! k)\<lparr>main := False\<rparr>] ! ?m)\<lparr>main := True\<rparr>] = ?rs"
    using m k flag by (intro nth_equalityI) (auto simp: nth_list_update)
  show ?thesis
    using nx restored m k by (simp add: select_prev_def set_main_def return Let_def)
qed

theorem select_next_prev_witness:
  "and_then (select_next 5 three_regions) (select_prev 5) = Inr three_regions"
  by (rule select_next_prev [OF three_regions_wf(1,2)])
     (simp add: three_regions_def usize_modulus_def)

text \<open>Cutting \<open>[start, stop]\<close> out of a region loses and duplicates nothing: the parts that remain
  cover exactly the bytes of the region outside the cut, the left part ends before it and the right
  part starts after it.\<close>

theorem split_at_region_exact:
  assumes "split_at_region r start stop = (left, right)" "start \<le> stop"
    and "region_min r \<le> start" "stop \<le> region_max r"
  shows "(\<Union>p\<in>set_option left \<union> set_option right. span p) = span r - {start..stop} \<and>
    (\<forall>p\<in>set_option left. region_max p < start) \<and> (\<forall>p\<in>set_option right. stop < region_min p)"
proof -
  have "min x y = x" "max x y = y" if "x \<le> y" for x y :: nat using that by simp_all
  with assms show ?thesis
    by (auto simp: split_at_region_def inherit_direction_def to_forward_def to_backward_def span_def
        region_min_new region_max_new split: if_splits)
qed

theorem split_at_region_exact_witness:
  "(\<Union>p\<in>set_option (fst (split_at_region (region_new 9 2) 4 6)) \<union>
       set_option (snd (split_at_region (region_new 9 2) 4 6)). span p) = {2..9} - {4..6}"
  using split_at_region_exact [of "region_new 9 2" 4 6 "fst (split_at_region (region_new 9 2) 4 6)"
      "snd (split_at_region (region_new 9 2) 4 6)"]
  by (simp add: span_def)

end
