(* ===== verification/Xi_Rope.thy ===== *)
theory Xi_Rope
  imports Prelude
begin

text \<open>
  The interface of the xi-rope crate (version 0.3, Cargo.toml), whose source is not part of the
  repository. The editor's definitions take a record \<open>X\<close> of the crate's operations as an argument;
  the locale \<open>xi_rope\<close> states what the crate documents about them. A \<open>Node<RopeInfo>\<close> is
  represented by the bytes it holds. The types \<open>'d\<close> (\<open>Delta\<close> and its newtype \<open>InsertDelta\<close>),
  \<open>'s\<close> (\<open>Subset\<close>) and \<open>'b\<close> (\<open>DeltaBuilder\<close>) stay abstract; the last five fields of the record
  are views that say what such a value stands for and are used in laws and theorems only.

  A delta stands for a mask over the base document (which elements it deletes) and one text per
  surviving element, inserted in front of it, plus a final text. A subset stands for a mask.
\<close>

named_theorems mask_simps \<open>counting and selecting by masks\<close>

section \<open>Masks and inserted texts\<close>

fun keep :: "bool list \<Rightarrow> 'a list \<Rightarrow> 'a list" where
  "keep (b # m) (x # xs) = (if b then x # keep m xs else keep m xs)"
| "keep m xs = []"

definition outside :: "bool list \<Rightarrow> 'a list \<Rightarrow> 'a list" where
  "outside m xs = keep (map Not m) xs"

definition survivors :: "bool list \<Rightarrow> nat" where
  "survivors m = length (filter Not m)"

fun expand :: "bool list \<Rightarrow> bool list \<Rightarrow> bool list" where
  "expand a [] = []"
| "expand a (True # m) = False # expand a m"
| "expand (x # a) (False # m) = x # expand a m"
| "expand [] (False # m) = False # expand [] m"

fun weave :: "'a list list \<Rightarrow> 'a list \<Rightarrow> 'a list" where
  "weave (g # gs) (x # xs) = g @ x # weave gs xs"
| "weave (g # gs) [] = g"
| "weave [] xs = xs"

fun inserted_mask :: "'a list list \<Rightarrow> bool list" where
  "inserted_mask [] = []"
| "inserted_mask [g] = map (\<lambda>_. True) g"
| "inserted_mask (g # gs) = map (\<lambda>_. True) g @ False # inserted_mask gs"

fun gather :: "'a list list \<Rightarrow> bool list \<Rightarrow> 'a list list" where
  "gather (g # gs) (True # m) =
     (case gather gs m of [] \<Rightarrow> [g] | h # hs \<Rightarrow> (g @ h) # hs)"
| "gather (g # gs) (False # m) = g # gather gs m"
| "gather gs [] = gs"
| "gather [] m = []"

lemma outside_simps [simp]:
  "outside [] xs = []" "outside m [] = []"
  "outside (b # m) (x # xs) = (if b then outside m xs else x # outside m xs)"
  by (simp_all add: outside_def)

lemma survivors_simps [simp]:
  "survivors [] = 0" "survivors (b # m) = (if b then survivors m else Suc (survivors m))"
  "survivors (m @ m') = survivors m + survivors m'"
  by (simp_all add: survivors_def)

lemma survivors_replicate [simp]:
  "survivors (replicate n False) = n" "survivors (replicate n True) = 0"
  by (simp_all add: survivors_def)

lemma length_outside: "length xs = length m \<Longrightarrow> length (outside m xs) = survivors m"
  by (induction m xs rule: list_induct2') auto

lemma outside_append:
  "length m = length xs \<Longrightarrow> outside (m @ m') (xs @ ys) = outside m xs @ outside m' ys"
  by (induction m xs rule: list_induct2) auto

lemma outside_none [simp]: "length xs = n \<Longrightarrow> outside (replicate n False) xs = xs"
  by (induction xs arbitrary: n) auto

lemma outside_all [simp]: "outside (replicate n True) xs = []"
  by (induction n arbitrary: xs) (simp, case_tac xs, auto)

lemma length_expand [simp]: "length (expand a m) = length m"
  by (induction a m rule: expand.induct) auto

lemma keep_expand: "length u = length m \<Longrightarrow> keep (expand a m) u = keep a (outside m u)"
proof (induction a m arbitrary: u rule: expand.induct)
  case (4 m)
  then show ?case by (cases u) (auto simp: outside_def)
qed (auto simp: outside_def length_Suc_conv split: if_splits)

lemma keep_Not: "keep (map Not m) xs = outside m xs"
  by (simp add: outside_def)

lemma outside_map_Not: "outside (map Not m) xs = keep m xs"
  by (simp add: outside_def comp_def)

lemma weave_Nil2 [simp]: "weave (g # gs) [] = g"
  by simp

lemma length_weave:
  "length gs = Suc (length xs) \<Longrightarrow> length (weave gs xs) = length (concat gs) + length xs"
  by (induction gs xs rule: weave.induct) (auto simp: length_Suc_conv)

lemma length_inserted_mask:
  "gs \<noteq> [] \<Longrightarrow> length (inserted_mask gs) = length (concat gs) + (length gs - 1)"
  by (induction gs rule: inserted_mask.induct) auto

lemma survivors_marked [simp]: "survivors (map (\<lambda>_. True) g) = 0"
  by (induction g) auto

lemma outside_marked [simp]: "outside (map (\<lambda>_. True) g) g = []"
  by (induction g) auto

lemma survivors_inserted_mask: "gs \<noteq> [] \<Longrightarrow> survivors (inserted_mask gs) = length gs - 1"
  by (induction gs rule: inserted_mask.induct) auto

text \<open>Dropping what an insertion inserted gives the base back.\<close>

lemma outside_inserted_mask:
  "length gs = Suc (length xs) \<Longrightarrow> outside (inserted_mask gs) (weave gs xs) = xs"
proof (induction gs arbitrary: xs rule: inserted_mask.induct)
  case (3 g g' gs)
  then show ?case by (cases xs) (auto simp: outside_append)
qed auto

lemma length_inserted_weave:
  "length gs = Suc (length xs) \<Longrightarrow> length (weave gs xs) = length (inserted_mask gs)"
  by (subst length_weave, assumption, subst length_inserted_mask) auto

section \<open>Edit scripts\<close>

text \<open>
  What a \<open>DeltaBuilder\<close> has been told: replace \<open>[start, stop)\<close> of the base by a text, with the
  intervals in order. \<open>apply_edits\<close> is the plain reading of such a script on the rest of the base
  from offset \<open>off\<close> on.
\<close>

type_synonym edits = "(nat \<times> nat \<times> bytes) list"

fun apply_edits :: "nat \<Rightarrow> edits \<Rightarrow> bytes \<Rightarrow> bytes" where
  "apply_edits off [] rest = rest"
| "apply_edits off ((start, stop, text) # es) rest =
     take (start - off) rest @ text @ apply_edits stop es (drop (stop - off) rest)"

fun edit_mask :: "nat \<Rightarrow> nat \<Rightarrow> edits \<Rightarrow> bool list" where
  "edit_mask off n [] = replicate (n - off) False"
| "edit_mask off n ((start, stop, text) # es) =
     replicate (start - off) False @ replicate (min stop n - start) True @ edit_mask stop n es"

fun edit_texts :: "nat \<Rightarrow> nat \<Rightarrow> edits \<Rightarrow> bytes list" where
  "edit_texts off n [] = replicate (Suc (n - off)) []"
| "edit_texts off n ((start, stop, text) # es) =
     replicate (start - off) [] @
     (case edit_texts stop n es of [] \<Rightarrow> [text] | c # cs \<Rightarrow> (text @ c) # cs)"

fun edits_ok :: "nat \<Rightarrow> nat \<Rightarrow> edits \<Rightarrow> bool" where
  "edits_ok off n [] = True"
| "edits_ok off n ((start, stop, text) # es) =
     (off \<le> start \<and> start \<le> stop \<and> start \<le> n \<and> edits_ok stop n es)"

fun edits_end :: "edits \<Rightarrow> nat" where
  "edits_end [] = 0"
| "edits_end [(start, stop, text)] = stop"
| "edits_end (e # es) = edits_end es"

lemma edits_end_snoc [simp]: "edits_end (es @ [(start, stop, text)]) = stop"
  by (induction es rule: edits_end.induct) auto

lemma edit_texts_nonempty [simp]: "edit_texts off n es \<noteq> []"
  by (cases "(off, n, es)" rule: edit_texts.cases) (auto split: list.splits)

lemma length_edit_mask: "edits_ok off n es \<Longrightarrow> length (edit_mask off n es) = n - off"
  by (induction off n es rule: edit_mask.induct) auto

lemma weave_replicate_Nil:
  "length xs = k \<Longrightarrow> weave (replicate k [] @ gs) (xs @ ys) = xs @ weave gs ys"
  by (induction k arbitrary: xs) (auto simp: length_Suc_conv)

lemma weave_Nils [simp]: "weave (replicate k []) xs = xs"
  by (induction k arbitrary: xs) (simp, case_tac xs, auto)

lemma weave_prefix: "gs \<noteq> [] \<Longrightarrow>
    weave (case gs of [] \<Rightarrow> [t] | c # cs \<Rightarrow> (t @ c) # cs) xs = t @ weave gs xs"
  by (cases gs; cases xs) auto

lemma weave_edits:
  assumes "edits_ok off n es" "length r = n - off"
  shows "weave (edit_texts off n es) (outside (edit_mask off n es) r) = apply_edits off es r"
  using assms
proof (induction off es r rule: apply_edits.induct)
  case (1 off rest)
  then show ?case using weave_Nils [of "Suc (n - off)" rest] by simp
next
  case (2 off start stop t es rest)
  let ?a = "take (start - off) rest" and ?b = "take (min stop n - start) (drop (start - off) rest)"
  let ?c = "drop (stop - off) rest"
  from 2 have ok: "off \<le> start" "start \<le> stop" "start \<le> n" by auto
  have c: "drop (min stop n - start) (drop (start - off) rest) = ?c"
    using ok "2.prems"(2) by (cases "stop \<le> n") auto
  have split: "rest = ?a @ ?b @ ?c"
    unfolding c [symmetric] by (simp only: append_take_drop_id)
  have la: "length ?a = start - off" and lb: "length ?b = min stop n - start"
    using ok "2.prems"(2) by auto
  have IH: "weave (edit_texts stop n es) (outside (edit_mask stop n es) ?c) = apply_edits stop es ?c"
    by (rule "2.IH") (use 2 in auto)
  have "outside (edit_mask off n ((start, stop, t) # es)) rest = ?a @ outside (edit_mask stop n es) ?c"
    by (subst split) (simp only: edit_mask.simps outside_append la lb length_replicate outside_none
        outside_all append_Nil)
  then show ?case
    by (simp add: weave_replicate_Nil [OF la] weave_prefix IH)
qed

section \<open>Composing masks\<close>

lemma length_gather: "length gs = Suc (length m) \<Longrightarrow> length (gather gs m) = Suc (survivors m)"
  by (induction gs m rule: gather.induct) (auto split: list.splits)

lemma gather_none [simp]: "gather gs (replicate n False) = gs \<or> length gs < n"
  by (induction n arbitrary: gs) (auto, case_tac gs, auto)

lemma gather_keep_all: "n \<le> length gs \<Longrightarrow> gather gs (replicate n False) = gs"
  using gather_none [of gs n] by auto

lemma expand_marks: "expand a (map (\<lambda>_. True) g @ m) = map (\<lambda>_. False) g @ expand a m"
  by (induction g) auto

lemma outside_unmarked: "outside (map (\<lambda>_. False) g @ m) (g @ xs) = g @ outside m xs"
  by (induction g) auto

lemma inserted_mask_Cons:
  "gs \<noteq> [] \<Longrightarrow> inserted_mask (g # gs) = map (\<lambda>_. True) g @ False # inserted_mask gs"
  by (cases gs) auto

lemma gather_True:
  "gather (g # gs) (True # m) = (case gather gs m of [] \<Rightarrow> [g] | h # hs \<Rightarrow> (g @ h) # hs)"
  by simp

lemma gather_nonempty [simp]: "gs \<noteq> [] \<Longrightarrow> gather gs m \<noteq> []"
  by (induction gs m rule: gather.induct) (auto split: list.splits)

lemma outside_expand_inserted:
  assumes "length gs = Suc (length m)" "length xs = length m"
  shows "outside (expand m (inserted_mask gs)) (weave gs xs) = weave (gather gs m) (outside m xs)"
  using assms
proof (induction m arbitrary: gs xs)
  case Nil
  then obtain g where "gs = [g]" "xs = []" by (auto simp: length_Suc_conv)
  moreover have "expand [] (map (\<lambda>_. True) g) = map (\<lambda>_. False) g"
    using expand_marks [of "[]" g "[]"] by simp
  moreover have "outside (map (\<lambda>_. False) g) g = g" using outside_unmarked [of g "[]" "[]"] by simp
  ultimately show ?case by simp
next
  case (Cons b m)
  then obtain g gs' x xs' where gs: "gs = g # gs'" and xs: "xs = x # xs'"
    by (auto simp: length_Suc_conv)
  with Cons.prems have ne: "gs' \<noteq> []" by auto
  have IH: "outside (expand m (inserted_mask gs')) (weave gs' xs') = weave (gather gs' m) (outside m xs')"
    by (rule Cons.IH) (use Cons.prems gs xs in auto)
  show ?case
  proof (cases b)
    case True
    then show ?thesis
      by (simp add: gs xs ne inserted_mask_Cons expand_marks outside_unmarked IH weave_prefix)
  next
    case False
    then show ?thesis
      by (simp add: gs xs ne inserted_mask_Cons expand_marks outside_unmarked IH)
  qed
qed

lemma expand_none: "length a = n \<Longrightarrow> expand a (replicate n False) = a"
  by (induction a arbitrary: n) auto

lemma expand_or:
  "length a = length b \<Longrightarrow> expand (map2 (\<or>) a b) m = map2 (\<or>) (expand a m) (expand b m)"
proof (induction a m arbitrary: b rule: expand.induct)
  case (3 x a m)
  then show ?case by (cases b) auto
qed auto

lemma outside_union_expand:
  "length a = survivors m \<Longrightarrow> length u = length m \<Longrightarrow>
     outside (map2 (\<or>) m (expand a m)) u = outside a (outside m u)"
proof (induction a m arbitrary: u rule: expand.induct)
  case (1 a)
  then show ?case by simp
next
  case (2 a m)
  then show ?case by (cases u) auto
next
  case (3 x a m)
  then show ?case by (cases u) auto
qed auto

lemma gather_union:
  "length a = survivors m \<Longrightarrow> length gs = Suc (length m) \<Longrightarrow>
     gather gs (map2 (\<or>) m (expand a m)) = gather (gather gs m) a"
proof (induction a m arbitrary: gs rule: expand.induct)
  case (1 a)
  then show ?case by (cases gs) auto
next
  case (2 a m)
  then obtain g gs' where gs: "gs = g # gs'" and len: "length gs' = Suc (length m)" by (cases gs) auto
  then have "gather gs' m \<noteq> []" by (intro gather_nonempty) auto
  then obtain h hs where h: "gather gs' m = h # hs" by (cases "gather gs' m") auto
  with "2.IH" [of gs'] "2.prems" len have IH: "gather gs' (map2 (\<or>) m (expand a m)) = gather (h # hs) a"
    by simp
  have "(case gather (h # hs) a of [] \<Rightarrow> [g] | k # ks \<Rightarrow> (g @ k) # ks) = gather ((g @ h) # hs) a"
  proof (cases a)
    case (Cons b a')
    then show ?thesis by (cases b) (auto split: list.splits)
  qed simp
  with IH h show ?case by (simp add: gs)
next
  case (3 x a m)
  then obtain g gs' where "gs = g # gs'" "length gs' = Suc (length m)" by (cases gs) auto
  with 3 show ?case by (cases x) auto
qed auto

lemma Not_union_expand:
  "length a = survivors m \<Longrightarrow> map Not (map2 (\<or>) (expand a m) m) = expand (map Not a) m"
  by (induction a m rule: expand.induct) auto

lemma expand_disjoint: "length a = survivors m \<Longrightarrow> list_all2 (\<lambda>d i. d \<longrightarrow> \<not> i) (expand a m) m"
  by (induction a m rule: expand.induct) auto

lemma Not_split_disjoint:
  "list_all2 (\<lambda>d i. d \<longrightarrow> \<not> i) D I \<Longrightarrow>
     map Not I = map2 (\<or>) D (expand (map Not (outside D I)) D)"
  by (induction rule: list_all2_induct) auto

text \<open>The text a set of inserted and selected elements covers in a woven document.\<close>

lemma keep_inserted:
  assumes "length gs = Suc (length a)" "length xs = length a"
  shows "keep (map2 (\<or>) (expand a (inserted_mask gs)) (inserted_mask gs)) (weave gs xs) =
    weave (gather gs (map Not a)) (keep a xs)"
proof -
  have "survivors (inserted_mask gs) = length a"
    using assms(1) by (subst survivors_inserted_mask) auto
  then have "map Not (map2 (\<or>) (expand a (inserted_mask gs)) (inserted_mask gs)) =
      expand (map Not a) (inserted_mask gs)"
    by (intro Not_union_expand) simp
  then have "outside (map Not (map2 (\<or>) (expand a (inserted_mask gs)) (inserted_mask gs))) (weave gs xs) =
      outside (expand (map Not a) (inserted_mask gs)) (weave gs xs)" by simp
  also have "\<dots> = weave (gather gs (map Not a)) (outside (map Not a) xs)"
    using assms by (intro outside_expand_inserted) simp_all
  finally show ?thesis by (simp only: outside_map_Not)
qed

section \<open>The crate's operations and their contract\<close>

record interval =
  istart :: nat
  iend :: nat

record ('d, 's, 'b) xi =
  interval_is_empty :: "interval \<Rightarrow> bool"
  interval_contains :: "interval \<Rightarrow> nat \<Rightarrow> bool"
  interval_union :: "interval \<Rightarrow> interval \<Rightarrow> interval"
  interval_intersect :: "interval \<Rightarrow> interval \<Rightarrow> interval"
  interval_inclusive :: "nat \<Rightarrow> nat \<Rightarrow> interval"
  builder_new :: "nat \<Rightarrow> 'b"
  builder_delete :: "'b \<Rightarrow> interval \<Rightarrow> 'b outcome"
  builder_replace :: "'b \<Rightarrow> interval \<Rightarrow> bytes \<Rightarrow> 'b outcome"
  builder_build :: "'b \<Rightarrow> 'd"
  delta_simple_edit :: "interval \<Rightarrow> bytes \<Rightarrow> nat \<Rightarrow> 'd"
  delta_apply :: "'d \<Rightarrow> bytes \<Rightarrow> bytes"
  delta_new_document_len :: "'d \<Rightarrow> nat"
  delta_factor :: "'d \<Rightarrow> 'd \<times> 's"
  delta_synthesize :: "bytes \<Rightarrow> 's \<Rightarrow> 's \<Rightarrow> 'd"
  insert_inserted_subset :: "'d \<Rightarrow> 's"
  insert_transform_expand :: "'d \<Rightarrow> 's \<Rightarrow> bool \<Rightarrow> 'd"
  transformer_transform :: "'d \<Rightarrow> nat \<Rightarrow> bool \<Rightarrow> nat"
  subset_delete_from :: "'s \<Rightarrow> bytes \<Rightarrow> bytes"
  subset_complement :: "'s \<Rightarrow> 's"
  subset_union :: "'s \<Rightarrow> 's \<Rightarrow> 's"
  subset_transform_expand :: "'s \<Rightarrow> 's \<Rightarrow> 's"
  subset_transform_union :: "'s \<Rightarrow> 's \<Rightarrow> 's"
  subset_transform_shrink :: "'s \<Rightarrow> 's \<Rightarrow> 's"
  subset_is_empty :: "'s \<Rightarrow> bool"
  delta_del :: "'d \<Rightarrow> bool list"
  delta_ins :: "'d \<Rightarrow> bytes list"
  subset_mask :: "'s \<Rightarrow> bool list"
  builder_base :: "'b \<Rightarrow> nat"
  builder_edits :: "'b \<Rightarrow> edits"

definition insert_only :: "('d, 's, 'b) xi \<Rightarrow> 'd \<Rightarrow> bool" where
  "insert_only X d \<longleftrightarrow> delta_del X d = replicate (length (delta_del X d)) False"

definition base_len :: "('d, 's, 'b) xi \<Rightarrow> 'd \<Rightarrow> nat" where
  "base_len X d = length (delta_del X d)"

text \<open>
  The documented behaviour the editor relies on. Deltas and subsets are only used on documents of
  the length they were made for; nothing is said about other lengths. \<open>build_view\<close> allows the last
  interval to reach past the end of the base, as \<open>overwrite\<close> at the end of a buffer does.
\<close>

locale xi_rope =
  fixes X :: "('d, 's, 'b) xi"
  assumes interval_is_empty: "interval_is_empty X iv \<longleftrightarrow> iend iv \<le> istart iv"
    and interval_contains: "interval_contains X iv v \<longleftrightarrow> istart iv \<le> v \<and> v < iend iv"
    and interval_union: "istart a < iend a \<Longrightarrow> istart b < iend b \<Longrightarrow> interval_union X a b =
      \<lparr>istart = min (istart a) (istart b), iend = max (iend a) (iend b)\<rparr>"
    and interval_intersect: "interval_contains X (interval_intersect X a b) v \<longleftrightarrow>
      interval_contains X a v \<and> interval_contains X b v"
    and interval_inclusive: "hi < usize_modulus - 1 \<Longrightarrow>
      interval_inclusive X lo hi = \<lparr>istart = lo, iend = hi + 1\<rparr>"
    and builder_new_view: "builder_base X (builder_new X n) = n" "builder_edits X (builder_new X n) = []"
    and builder_delete_view: "builder_delete X bl iv = builder_replace X bl iv []"
    and builder_replace_sorted: "edits_end (builder_edits X bl) \<le> istart iv \<Longrightarrow>
      \<exists>bl'. builder_replace X bl iv t = Inr bl' \<and> builder_base X bl' = builder_base X bl \<and>
        builder_edits X bl' = builder_edits X bl @ [(istart iv, iend iv, t)]"
    and builder_replace_unsorted: "istart iv < edits_end (builder_edits X bl) \<Longrightarrow>
      builder_replace X bl iv t = Inl IntervalsNotSorted"
    and build_view: "edits_ok 0 (builder_base X bl) (builder_edits X bl) \<Longrightarrow>
      delta_del X (builder_build X bl) = edit_mask 0 (builder_base X bl) (builder_edits X bl) \<and>
      delta_ins X (builder_build X bl) = edit_texts 0 (builder_base X bl) (builder_edits X bl)"
    and simple_edit_view: "edits_ok 0 n [(istart iv, iend iv, t)] \<Longrightarrow>
      delta_del X (delta_simple_edit X iv t n) = edit_mask 0 n [(istart iv, iend iv, t)] \<and>
      delta_ins X (delta_simple_edit X iv t n) = edit_texts 0 n [(istart iv, iend iv, t)]"
    and delta_shape: "length (delta_ins X d) = Suc (survivors (delta_del X d))"
    and delta_apply_view: "length r = length (delta_del X d) \<Longrightarrow>
      delta_apply X d r = weave (delta_ins X d) (outside (delta_del X d) r)"
    and new_document_len_view: "delta_new_document_len X d =
      length (concat (delta_ins X d)) + survivors (delta_del X d)"
    and transform_view: "ix \<le> length (delta_del X d) \<Longrightarrow> transformer_transform X d ix True =
      (let k = survivors (take ix (delta_del X d))
       in length (concat (take (Suc k) (delta_ins X d))) + k)"
    and factor_insert: "delta_factor X d = (i, e) \<Longrightarrow>
      delta_del X i = replicate (length (delta_del X d)) False \<and> subset_mask X e = delta_del X d"
    and factor_apply: "delta_factor X d = (i, e) \<Longrightarrow> length r = length (delta_del X d) \<Longrightarrow>
      outside (expand (delta_del X d) (inserted_mask (delta_ins X i))) (delta_apply X i r) =
        delta_apply X d r"
    and synthesize_view: "length u = length (subset_mask X fr) \<Longrightarrow> length u = length (subset_mask X to) \<Longrightarrow>
      length (delta_del X (delta_synthesize X (keep (subset_mask X fr) u) fr to)) =
        survivors (subset_mask X fr) \<and>
      delta_apply X (delta_synthesize X (keep (subset_mask X fr) u) fr to) (outside (subset_mask X fr) u) =
        outside (subset_mask X to) u"
    and inserted_subset_view: "insert_only X i \<Longrightarrow>
      subset_mask X (insert_inserted_subset X i) = inserted_mask (delta_ins X i)"
    and insert_expand_view: "insert_only X i \<Longrightarrow> survivors (subset_mask X e) = length (delta_del X i) \<Longrightarrow>
      delta_del X (insert_transform_expand X i e True) = replicate (length (subset_mask X e)) False \<and>
      gather (delta_ins X (insert_transform_expand X i e True)) (subset_mask X e) = delta_ins X i"
    and delete_from_view: "length r = length (subset_mask X e) \<Longrightarrow>
      subset_delete_from X e r = outside (subset_mask X e) r"
    and complement_view: "subset_mask X (subset_complement X e) = map Not (subset_mask X e)"
    and union_view: "length (subset_mask X e) = length (subset_mask X e') \<Longrightarrow>
      subset_mask X (subset_union X e e') = map2 (\<or>) (subset_mask X e) (subset_mask X e')"
    and expand_view: "length (subset_mask X e) = survivors (subset_mask X e') \<Longrightarrow>
      subset_mask X (subset_transform_expand X e e') = expand (subset_mask X e) (subset_mask X e')"
    and transform_union_view: "length (subset_mask X e) = survivors (subset_mask X e') \<Longrightarrow>
      subset_mask X (subset_transform_union X e e') =
        map2 (\<or>) (expand (subset_mask X e) (subset_mask X e')) (subset_mask X e')"
    and shrink_view: "length (subset_mask X e) = length (subset_mask X e') \<Longrightarrow>
      subset_mask X (subset_transform_shrink X e e') = outside (subset_mask X e') (subset_mask X e)"
    and is_empty_view: "subset_is_empty X e \<longleftrightarrow> True \<notin> set (subset_mask X e)"
begin

lemma length_apply:
  assumes "length r = base_len X d"
  shows "length (delta_apply X d r) = delta_new_document_len X d"
  using assms delta_shape [of d]
  by (simp add: base_len_def delta_apply_view new_document_len_view length_weave length_outside)

text \<open>A delta built from an edit script does what the script says.\<close>

lemma build_apply:
  assumes "edits_ok 0 (builder_base X bl) (builder_edits X bl)" "length r = builder_base X bl"
  shows "delta_apply X (builder_build X bl) r = apply_edits 0 (builder_edits X bl) r"
    and "base_len X (builder_build X bl) = builder_base X bl"
  using assms build_view [OF assms(1)]
  by (simp_all add: delta_apply_view weave_edits length_edit_mask base_len_def)

lemma simple_edit_apply:
  assumes "edits_ok 0 n [(istart iv, iend iv, t)]" "length r = n"
  shows "delta_apply X (delta_simple_edit X iv t n) r = apply_edits 0 [(istart iv, iend iv, t)] r"
  using assms simple_edit_view [OF assms(1)]
  by (simp only: delta_apply_view weave_edits length_edit_mask)

lemma transform_le:
  assumes "ix \<le> base_len X d"
  shows "transformer_transform X d ix True \<le> delta_new_document_len X d"
proof -
  have "survivors (take ix (delta_del X d)) \<le> survivors (delta_del X d)"
    by (metis append_take_drop_id le_add1 survivors_simps(3))
  moreover have "length (concat (take k (delta_ins X d))) \<le> length (concat (delta_ins X d))" for k
    by (metis append_take_drop_id concat_append le_add1 length_append)
  ultimately show ?thesis
    using assms by (simp add: base_len_def transform_view new_document_len_view Let_def add_mono)
qed

lemma transform_mono:
  assumes "ix \<le> iy" "iy \<le> base_len X d"
  shows "transformer_transform X d ix True \<le> transformer_transform X d iy True"
proof -
  let ?kx = "survivors (take ix (delta_del X d))" and ?ky = "survivors (take iy (delta_del X d))"
  have k: "?kx \<le> ?ky"
    using assms(1) by (metis le_add1 le_add_diff_inverse survivors_simps(3) take_add)
  then have "length (concat (take (Suc ?kx) (delta_ins X d))) \<le>
      length (concat (take (Suc ?ky) (delta_ins X d)))"
    by (metis Suc_le_mono concat_append le_add1 le_add_diff_inverse length_append take_add)
  with k assms show ?thesis by (simp add: base_len_def transform_view Let_def)
qed

end

end
