(* ===== verification/Operations.thy ===== *)
theory Operations
  imports Xi_Rope Selection
begin

text \<open>
  The edit operations of src/operations.rs: each walks the regions of a selection and builds a delta
  with the builder of xi-rope. \<open>edited\<close> is what such a delta does, position by position; the lemmas of
  the second half show for every operation that on a selection inside the buffer the builder never
  panics and which bytes the delta inserts and deletes.
\<close>

unbundle bit_operations_syntax

type_synonym rope = bytes

fun for_each :: "('r \<Rightarrow> 'b \<Rightarrow> 'b outcome) \<Rightarrow> 'r list \<Rightarrow> 'b \<Rightarrow> 'b outcome" where
  "for_each step [] bl = Inr bl"
| "for_each step (r # rs) bl = and_then (step r bl) (for_each step rs)"

definition interval_new :: "nat \<Rightarrow> nat \<Rightarrow> interval" where
  "interval_new start stop = \<lparr>istart = start, iend = stop\<rparr>"

definition deletion :: "('d, 's, 'b) xi \<Rightarrow> rope \<Rightarrow> selection \<Rightarrow> 'd outcome" where
  "deletion X base sel =
     and_then
       (for_each (\<lambda>region bl.
            let iv = interval_new (region_min region) (region_max region + 1)
            in if \<not> interval_is_empty X iv then builder_delete X bl iv else Inr bl)
          (regions sel) (builder_new X (length base)))
       (\<lambda>bl. Inr (builder_build X bl))"

definition backspace :: "('d, 's, 'b) xi \<Rightarrow> rope \<Rightarrow> selection \<Rightarrow> 'd outcome" where
  "backspace X base sel =
     and_then
       (for_each (\<lambda>region bl.
            if caret region = 0 then Inr bl
            else builder_delete X bl (interval_new (caret region - 1) (caret region)))
          (regions sel) (builder_new X (length base)))
       (\<lambda>bl. Inr (builder_build X bl))"

definition delete_cursor :: "('d, 's, 'b) xi \<Rightarrow> rope \<Rightarrow> selection \<Rightarrow> 'd outcome" where
  "delete_cursor X base sel =
     and_then
       (for_each (\<lambda>region bl.
            let iv = interval_new (caret region) (min (length base) (caret region + 1))
            in if \<not> interval_is_empty X iv then builder_delete X bl iv else Inr bl)
          (regions sel) (builder_new X (length base)))
       (\<lambda>bl. Inr (builder_build X bl))"

definition insert_text :: "('d, 's, 'b) xi \<Rightarrow> rope \<Rightarrow> selection \<Rightarrow> bytes \<Rightarrow> 'd outcome" where
  "insert_text X base sel inserted =
     and_then
       (for_each (\<lambda>region bl.
            builder_replace X bl (interval_new (caret region) (caret region)) inserted)
          (regions sel) (builder_new X (length base)))
       (\<lambda>bl. Inr (builder_build X bl))"

definition paste ::
    "('d, 's, 'b) xi \<Rightarrow> rope \<Rightarrow> selection \<Rightarrow> bytes list \<Rightarrow> bool \<Rightarrow> nat \<Rightarrow> 'd outcome" where
  "paste X base sel register_contents after count =
     (if register_contents = [] then Inl UnwrapNone
      else let reg_iter = register_contents
                 @ replicate (length (regions sel)) (last register_contents)
           in and_then
             (for_each (\<lambda>(region, pasted) bl.
                  let insert_pos = (if after then min (length base) (region_max region + 1)
                                    else region_min region)
                  in builder_replace X bl (interval_new insert_pos insert_pos)
                       (concat (replicate count pasted)))
                (zip (regions sel) reg_iter) (builder_new X (length base)))
             (\<lambda>bl. Inr (builder_build X bl)))"

definition change :: "('d, 's, 'b) xi \<Rightarrow> rope \<Rightarrow> selection \<Rightarrow> bytes \<Rightarrow> 'd outcome" where
  "change X base sel inserted =
     and_then
       (for_each (\<lambda>region bl.
            builder_replace X bl (interval_new (caret region) (caret region + 1)) inserted)
          (regions sel) (builder_new X (length base)))
       (\<lambda>bl. Inr (builder_build X bl))"

definition overwrite_half :: "('d, 's, 'b) xi \<Rightarrow> rope \<Rightarrow> selection \<Rightarrow> u8 \<Rightarrow> 'd outcome" where
  "overwrite_half X base sel top_half =
     and_then
       (for_each (\<lambda>region bl.
            let base_char = (if length base > caret region then (base ! caret region) AND 0x0F else 0)
            in builder_replace X bl (interval_new (caret region) (caret region + 1)) [base_char OR top_half])
          (regions sel) (builder_new X (length base)))
       (\<lambda>bl. Inr (builder_build X bl))"

definition replace :: "('d, 's, 'b) xi \<Rightarrow> rope \<Rightarrow> selection \<Rightarrow> u8 \<Rightarrow> 'd outcome" where
  "replace X base sel ch =
     and_then
       (for_each (\<lambda>region bl.
            builder_replace X bl (interval_new (region_min region) (region_max region + 1))
              (replicate (region_max region - region_min region + 1) ch))
          (regions sel) (builder_new X (length base)))
       (\<lambda>bl. Inr (builder_build X bl))"

section \<open>Reading an edit script position by position\<close>

definition edited :: "bytes \<Rightarrow> (nat \<Rightarrow> bytes) \<Rightarrow> (nat \<Rightarrow> bool) \<Rightarrow> bytes" where
  "edited base ins del =
     concat (map (\<lambda>i. ins i @ (if del i then [] else [base ! i])) [0..<length base]) @ ins (length base)"

definition ins_at :: "edits \<Rightarrow> nat \<Rightarrow> bytes" where
  "ins_at es i = concat (map (\<lambda>(start, stop, t). if start = i then t else []) es)"

definition del_at :: "edits \<Rightarrow> nat \<Rightarrow> bool" where
  "del_at es i \<longleftrightarrow> (\<exists>(start, stop, t)\<in>set es. start \<le> i \<and> i < stop)"

lemma edited_cong:
  "(\<And>i. i \<le> length base \<Longrightarrow> ins i = ins' i) \<Longrightarrow> (\<And>i. i < length base \<Longrightarrow> del i = del' i) \<Longrightarrow>
     edited base ins del = edited base ins' del'"
  unfolding edited_def by (intro arg_cong2 [where f = append] arg_cong [where f = concat] map_cong) auto

lemma ins_at_Nil: "ins_at [] = (\<lambda>_. [])" and del_at_Nil: "del_at [] = (\<lambda>_. False)"
  by (auto simp: ins_at_def del_at_def)

lemma ins_at_Cons: "ins_at ((s, e, t) # es) i = (if s = i then t else []) @ ins_at es i"
  by (simp add: ins_at_def)

lemma del_at_Cons: "del_at ((s, e, t) # es) i \<longleftrightarrow> (s \<le> i \<and> i < e) \<or> del_at es i"
  by (simp add: del_at_def)

lemma edits_early:
  assumes "edits_ok off n es" "i < off"
  shows "ins_at es i = []" "\<not> del_at es i"
  using assms
  by (induction off n es rule: edits_ok.induct) (auto simp: ins_at_Cons del_at_Cons, auto simp: ins_at_def del_at_def)

lemma edits_past: "edits_ok off n es \<Longrightarrow> n < off \<Longrightarrow> es = []"
  by (cases "(off, n, es)" rule: edits_ok.cases) auto

lemma map_upt_nth: "b \<le> length base \<Longrightarrow> map ((!) base) [a..<b] = take (b - a) (drop a base)"
  by (rule nth_equalityI) (auto simp: min_def)

lemma concat_singletons: "concat (map (\<lambda>i. [f i]) xs) = map f xs"
  by (induction xs) auto

lemma replaced_tail:
  fixes base :: bytes
  assumes ok: "s \<le> e" "s \<le> n" "edits_ok e n es"
  shows "concat (map (\<lambda>i. ins_at ((s, e, t) # es) i @ (if del_at ((s, e, t) # es) i then [] else [base ! i])) [s..<n])
      @ ins_at ((s, e, t) # es) n =
    t @ concat (map (\<lambda>i. ins_at es i @ (if del_at es i then [] else [base ! i])) [e..<n]) @ ins_at es n"
    (is "concat (map ?f _) @ _ = t @ concat (map ?g _) @ _")
proof (cases "s = n")
  case True
  then show ?thesis using ok by (simp add: ins_at_Cons)
next
  case False
  with ok have sn: "s < n" by simp
  show ?thesis
  proof (cases "e = s")
    case True
    have rest: "map ?f [Suc s..<n] = map ?g [Suc s..<n]"
      using True by (auto simp: ins_at_Cons del_at_Cons)
    have here: "?f s = t @ ?g s" using True by (simp add: ins_at_Cons del_at_Cons)
    have "concat (map ?f [s..<n]) = t @ concat (map ?g [s..<n])"
      unfolding upt_conv_Cons [OF sn] by (simp only: list.map concat.simps here rest append_assoc)
    with True sn show ?thesis by (simp add: ins_at_Cons)
  next
    case False
    have gone: "concat (map ?f [Suc s..<min e n]) = []"
      using edits_early [OF ok(3)] by (auto simp: ins_at_Cons del_at_Cons)
    have rest: "map ?f [min e n..<n] = map ?g [e..<n]"
      using False ok by (cases "e \<le> n") (auto simp: ins_at_Cons del_at_Cons min_def)
    have here: "?f s = t" using False ok edits_early [OF ok(3)] by (simp add: ins_at_Cons del_at_Cons)
    have "Suc s \<le> min e n" "min e n \<le> n" using False ok sn by auto
    then have "[Suc s..<n] = [Suc s..<min e n] @ [min e n..<n]"
      by (metis le_add_diff_inverse upt_add_eq_append)
    then have "concat (map ?f [s..<n]) = t @ concat (map ?g [e..<n])"
      unfolding upt_conv_Cons [OF sn] by (simp only: list.map map_append concat.simps concat_append
          here gone rest append_Nil)
    then show ?thesis using sn by (simp add: ins_at_Cons)
  qed
qed

lemma apply_edits_positional:
  assumes "edits_ok off (length base) es" "n = length base"
  shows "apply_edits off es (drop off base) =
    concat (map (\<lambda>i. ins_at es i @ (if del_at es i then [] else [base ! i])) [off..<n]) @ ins_at es n"
  using assms
proof (induction off n es rule: edits_ok.induct)
  case (1 off n)
  then show ?case
    by (simp add: ins_at_def del_at_def concat_singletons map_upt_nth)
next
  case (2 off n s e t es)
  let ?f = "\<lambda>i. ins_at ((s, e, t) # es) i @ (if del_at ((s, e, t) # es) i then [] else [base ! i])"
  let ?g = "\<lambda>i. ins_at es i @ (if del_at es i then [] else [base ! i])"
  from 2 have ok: "off \<le> s" "s \<le> e" "s \<le> n" "edits_ok e n es" and n: "n = length base" by auto
  have IH: "apply_edits e es (drop e base) = concat (map ?g [e..<n]) @ ins_at es n"
    using 2 by simp
  have early: "ins_at es i = []" "\<not> del_at es i" if "i < e" for i
    using edits_early [OF ok(4) that] .
  have copy: "map ?f [off..<s] = map (\<lambda>i. [base ! i]) [off..<s]"
    using early ok by (auto simp: ins_at_Cons del_at_Cons)
  have head: "concat (map ?f [off..<s]) = take (s - off) (drop off base)"
    unfolding copy using ok n by (simp add: concat_singletons map_upt_nth)
  have split: "[off..<n] = [off..<s] @ [s..<n]" using ok by (metis upt_add_eq_append le_add_diff_inverse)
  have tail: "concat (map ?f [s..<n]) @ ins_at ((s, e, t) # es) n =
      t @ concat (map ?g [e..<n]) @ ins_at es n"
    using replaced_tail [OF ok(2-4)] by simp
  have "drop (e - off) (drop off base) = drop e base" using ok by simp
  then show ?case using IH head tail by (simp add: split)
qed

text \<open>The same reading of the mask and the texts of the delta that is built from a script.\<close>

lemma edit_mask_positional:
  assumes "edits_ok off n es"
  shows "edit_mask off n es = map (del_at es) [off..<n]"
  using assms
proof (induction off n es rule: edits_ok.induct)
  case (1 off n)
  then show ?case by (simp add: del_at_def map_replicate_const)
next
  case (2 off n s e t es)
  then have ok: "off \<le> s" "s \<le> e" "s \<le> n" "edits_ok e n es" by auto
  have early: "\<not> del_at es i" if "i < e" for i using edits_early(2) [OF ok(4) that] .
  have "[off..<n] = [off..<s] @ [s..<min e n] @ [e..<n]"
    using ok by (cases "e \<le> n") (simp_all add: upt_append)
  moreover have "map (del_at ((s, e, t) # es)) [off..<s] = replicate (s - off) False"
    using early ok by (intro map_const_upt) (auto simp: del_at_Cons)
  moreover have "map (del_at ((s, e, t) # es)) [s..<min e n] = replicate (min e n - s) True"
    by (intro map_const_upt) (auto simp: del_at_Cons)
  moreover have "map (del_at ((s, e, t) # es)) [e..<n] = map (del_at es) [e..<n]"
    by (auto simp: del_at_Cons)
  ultimately show ?case using 2 ok by simp
qed

definition prefixed :: "bytes \<Rightarrow> bytes list \<Rightarrow> bytes list" where
  "prefixed t gs = (case gs of [] \<Rightarrow> [t] | g # gs' \<Rightarrow> (t @ g) # gs')"

lemma gather_prefixed: "gather ((t @ g) # gs) m = prefixed t (gather (g # gs) m)"
  by (cases "(g # gs, m)" rule: gather.cases) (auto simp: prefixed_def split: list.splits)

lemma gather_copied: "gather (replicate k [] @ gs) (replicate k False @ m) = replicate k [] @ gather gs m"
  by (induction k) auto

lemma gather_deleted:
  "gs \<noteq> [] \<Longrightarrow> gather (g # replicate k [] @ gs) (replicate (Suc k) True @ m) = prefixed g (gather gs m)"
proof (induction k arbitrary: g)
  case 0
  then show ?case by (simp add: prefixed_def)
next
  case (Suc k)
  have "gather ([] # replicate k [] @ gs) (replicate (Suc k) True @ m) = prefixed [] (gather gs m)"
    by (rule Suc.IH [OF Suc.prems])
  moreover have "gather gs m \<noteq> []" by (rule gather_nonempty [OF Suc.prems])
  ultimately show ?case by (auto simp: prefixed_def split: list.splits)
qed

lemma gather_replaced:
  assumes ok: "s \<le> e" "s \<le> n" "edits_ok e n es"
  shows "gather (map (ins_at ((s, e, t) # es)) [s..<Suc n]) (map (del_at ((s, e, t) # es)) [s..<n]) =
    prefixed t (gather (map (ins_at es) [min e n..<Suc n]) (map (del_at es) [e..<n]))"
    (is "gather (map ?ins _) (map ?del _) = prefixed t (gather (map _ [?e..<_]) _)")
proof (cases "?e = s")
  case True
  then have d: "map ?del [s..<n] = map (del_at es) [e..<n]"
    using ok by (cases "e \<le> n") (auto simp: del_at_Cons min_def)
  have i: "map ?ins [s..<Suc n] = (t @ ins_at es s) # map (ins_at es) [Suc s..<Suc n]"
    using ok by (simp add: ins_at_Cons upt_conv_Cons del: upt_Suc)
  have "map (ins_at es) [s..<Suc n] = ins_at es s # map (ins_at es) [Suc s..<Suc n]"
    using ok by (simp add: upt_conv_Cons del: upt_Suc)
  then show ?thesis unfolding d i gather_prefixed True by (simp only:)
next
  case False
  then have lt: "s < ?e" "?e \<le> n" using ok by auto
  have d: "map ?del [s..<n] = replicate (Suc (?e - Suc s)) True @ map (del_at es) [e..<n]"
  proof -
    have "[s..<n] = [s..<?e] @ [e..<n]" using ok by (cases "e \<le> n") (simp_all add: upt_append)
    moreover have "map ?del [s..<?e] = replicate (?e - s) True"
      by (intro map_const_upt) (auto simp: del_at_Cons)
    moreover have "map ?del [e..<n] = map (del_at es) [e..<n]" by (auto simp: del_at_Cons)
    ultimately show ?thesis using lt by (simp add: Suc_diff_Suc del: replicate_Suc)
  qed
  have i: "map ?ins [s..<Suc n] = t # replicate (?e - Suc s) [] @ map (ins_at es) [?e..<Suc n]"
  proof -
    have "[s..<Suc n] = s # [Suc s..<?e] @ [?e..<Suc n]"
      using lt upt_append [of "Suc s" ?e "Suc n"] upt_conv_Cons [of s "Suc n"] by simp
    moreover have "map ?ins [Suc s..<?e] = replicate (?e - Suc s) []"
      using edits_early [OF ok(3)] by (intro map_const_upt) (auto simp: ins_at_Cons)
    moreover have "map ?ins [?e..<Suc n] = map (ins_at es) [?e..<Suc n]"
      using lt by (auto simp: ins_at_Cons simp del: upt_Suc)
    moreover have "ins_at es s = []" using edits_early [OF ok(3), of s] lt by simp
    ultimately show ?thesis by (simp add: ins_at_Cons del: upt_Suc)
  qed
  show ?thesis unfolding d i
    using lt by (intro gather_deleted) (simp del: upt_Suc)
qed

lemma edit_texts_positional:
  assumes "edits_ok off n es"
  shows "edit_texts off n es = gather (map (ins_at es) [min off n..<Suc n]) (map (del_at es) [off..<n])"
  using assms
proof (induction off n es rule: edits_ok.induct)
  case (1 off n)
  have texts: "map (ins_at []) [min off n..<Suc n] = replicate (Suc (n - off)) []"
    by (cases "off \<le> n") (auto simp: ins_at_Nil map_replicate_const Suc_diff_le simp del: upt_Suc)
  have mask: "map (del_at []) [off..<n] = replicate (n - off) False"
    by (simp add: del_at_Nil map_replicate_const)
  show ?case unfolding edit_texts.simps texts mask by (rule gather_keep_all [symmetric]) simp
next
  case (2 off n s e t es)
  then have ok: "off \<le> s" "s \<le> e" "s \<le> n" "edits_ok e n es" by auto
  let ?ins = "ins_at ((s, e, t) # es)" and ?del = "del_at ((s, e, t) # es)" and ?e = "min e n"
  have early: "ins_at es i = []" "\<not> del_at es i" if "i < e" for i
    using edits_early [OF ok(4) that] .
  have IH: "edit_texts e n es = gather (map (ins_at es) [?e..<Suc n]) (map (del_at es) [e..<n])"
    using 2 ok by simp
  have pre: "map ?ins [off..<s] = replicate (s - off) []" "map ?del [off..<s] = replicate (s - off) False"
    using early ok by (auto intro!: map_const_upt simp: ins_at_Cons del_at_Cons)
  have split: "[off..<Suc n] = [off..<s] @ [s..<Suc n]" "[off..<n] = [off..<s] @ [s..<n]"
    using ok by (simp_all add: upt_append)
  have "gather (map ?ins [s..<Suc n]) (map ?del [s..<n]) = prefixed t (edit_texts e n es)"
    unfolding IH by (rule gather_replaced [OF ok(2-4)])
  then show ?case
    using ok by (simp add: split pre gather_copied prefixed_def del: upt_Suc)
qed

section \<open>Scripts made from the regions of a selection\<close>

definition does_edit ::
    "('d, 's, 'b) xi \<Rightarrow> rope \<Rightarrow> 'd outcome \<Rightarrow> (nat \<Rightarrow> bytes) \<Rightarrow> (nat \<Rightarrow> bool) \<Rightarrow> bool" where
  "does_edit X base result ins del \<longleftrightarrow>
     (\<exists>d. result = Inr d \<and> delta_del X d = map del [0..<length base] \<and>
        delta_ins X d = gather (map ins [0..<Suc (length base)]) (map del [0..<length base]) \<and>
        delta_apply X d base = edited base ins del)"

lemma does_edit_cong:
  assumes "does_edit X base result ins del"
    and "\<And>i. i \<le> length base \<Longrightarrow> ins i = ins' i" "\<And>i. i < length base \<Longrightarrow> del i = del' i"
  shows "does_edit X base result ins' del'"
proof -
  have "map ins [0..<Suc (length base)] = map ins' [0..<Suc (length base)]"
    "map del [0..<length base] = map del' [0..<length base]"
    using assms(2,3) by (auto simp del: upt_Suc)
  moreover have "edited base ins del = edited base ins' del'" using assms(2,3) by (rule edited_cong)
  ultimately show ?thesis using assms(1) by (simp only: does_edit_def)
qed

lemma does_edit_result:
  assumes "does_edit X base result ins del"
  obtains d where "result = Inr d" "base_len X d = length base" "delta_apply X d base = edited base ins del"
    "delta_del X d = map del [0..<length base]"
    "delta_ins X d = gather (map ins [0..<Suc (length base)]) (map del [0..<length base])"
  using assms by (auto simp: does_edit_def base_len_def)

definition carets :: "selection \<Rightarrow> nat set" where
  "carets sel = caret ` set (regions sel)"

definition starts_after :: "nat \<times> nat \<times> bytes \<Rightarrow> nat \<times> nat \<times> bytes \<Rightarrow> bool" where
  "starts_after a b \<longleftrightarrow> fst (snd a) \<le> fst b"

lemma edits_ok_sorted:
  assumes "sorted_wrt starts_after es" "\<forall>(s, e, t)\<in>set es. off \<le> s \<and> s \<le> e \<and> s \<le> n"
  shows "edits_ok off n es"
  using assms
proof (induction es arbitrary: off)
  case (Cons a es)
  obtain s e t where a: "a = (s, e, t)" by (cases a)
  with Cons.prems have "\<forall>(s', e', t')\<in>set es. e \<le> s' \<and> s' \<le> e' \<and> s' \<le> n"
    by (fastforce simp: starts_after_def)
  with Cons a show ?case by auto
qed simp

lemma set_map_filter: "set (List.map_filter f xs) = {y. \<exists>x\<in>set xs. f x = Some y}"
  by (induction xs) (auto simp: map_filter_simps split: option.splits)

lemma sorted_map_filter:
  assumes "sorted_wrt P xs" "\<And>x y a b. x \<in> set xs \<Longrightarrow> y \<in> set xs \<Longrightarrow> P x y \<Longrightarrow> f x = Some a \<Longrightarrow> f y = Some b \<Longrightarrow> Q a b"
  shows "sorted_wrt Q (List.map_filter f xs)"
  using assms
proof (induction xs)
  case (Cons x xs)
  have "sorted_wrt Q (List.map_filter f xs)" using Cons by auto
  moreover have "\<forall>a b. f x = Some a \<longrightarrow> b \<in> set (List.map_filter f xs) \<longrightarrow> Q a b"
    using Cons.prems by (simp add: set_map_filter) blast
  ultimately show ?case by (auto simp: map_filter_simps split: option.splits)
qed (simp add: map_filter_simps)

lemma del_at_map_filter:
  "del_at (List.map_filter f xs) i \<longleftrightarrow> (\<exists>x\<in>set xs. case f x of None \<Rightarrow> False | Some (s, e, t) \<Rightarrow> s \<le> i \<and> i < e)"
  by (induction xs) (auto simp: map_filter_simps del_at_Cons split: option.splits, auto simp: del_at_def)

lemma ins_at_none: "(\<And>e t. (i, e, t) \<in> set es \<Longrightarrow> t = []) \<Longrightarrow> ins_at es i = []"
  by (auto simp: ins_at_def)

lemma ins_at_unique:
  assumes "sorted_wrt (\<lambda>a b. fst a < fst b) es" "(i, e, t) \<in> set es"
  shows "ins_at es i = t"
  using assms
proof (induction es)
  case (Cons a es)
  obtain s e' t' where a: "a = (s, e', t')" by (cases a)
  show ?case
  proof (cases "(i, e, t) = a")
    case True
    then have "ins_at es i = []" using Cons.prems a by (intro ins_at_none) auto
    with True a show ?thesis by (simp add: ins_at_Cons)
  next
    case False
    with Cons.prems a have "s < i" by auto
    with Cons False a show ?thesis by (auto simp: ins_at_Cons)
  qed
qed simp

section \<open>Scripts that overwrite or paste at whole regions\<close>

definition region_edit :: "u8 \<Rightarrow> sel_region \<Rightarrow> nat \<times> nat \<times> bytes" where
  "region_edit ch r = (region_min r, region_max r + 1, replicate (region_len r) ch)"

definition overwritten :: "bytes \<Rightarrow> sel_region list \<Rightarrow> u8 \<Rightarrow> bytes" where
  "overwritten base rs ch =
     map (\<lambda>i. if i \<in> spans rs then ch else base ! i) [0..<length base]
     @ (if length base \<in> spans rs then [ch] else [])"

definition paste_edit :: "nat \<Rightarrow> bool \<Rightarrow> nat \<Rightarrow> sel_region \<Rightarrow> bytes \<Rightarrow> nat \<times> nat \<times> bytes" where
  "paste_edit n after count r t =
     (let p = (if after then min n (region_max r + 1) else region_min r)
      in (p, p, concat (replicate count t)))"

definition paste_edits :: "nat \<Rightarrow> sel_region list \<Rightarrow> bytes list \<Rightarrow> bool \<Rightarrow> nat \<Rightarrow> edits" where
  "paste_edits n rs contents after count =
     map (\<lambda>(r, t). paste_edit n after count r t)
       (zip rs (contents @ replicate (length rs) (last contents)))"

lemma region_edits_ok:
  assumes "sorted_wrt before rs" "\<forall>r\<in>set rs. off \<le> region_min r \<and> region_max r \<le> n"
  shows "edits_ok off n (map (region_edit ch) rs)"
  using assms
proof (induction rs arbitrary: off)
  case (Cons r rs)
  have "edits_ok (region_max r + 1) n (map (region_edit ch) rs)"
    by (rule Cons.IH) (use Cons.prems in \<open>auto simp: before_def\<close>)
  moreover have "region_min r \<le> region_max r + 1" "region_min r \<le> n"
    using Cons.prems by (auto simp: region_defs)
  ultimately show ?case using Cons.prems by (simp add: region_edit_def [of ch r])
qed simp

lemma paste_edits_ok:
  assumes "sorted_wrt before rs" "\<forall>r\<in>set rs. off \<le> region_min r \<and> region_min r \<le> n" "off \<le> n"
  shows "edits_ok off n (map (\<lambda>(r, t). paste_edit n after count r t) (zip rs ts))"
  using assms
proof (induction rs arbitrary: off ts)
  case (Cons r rs)
  show ?case
  proof (cases ts)
    case ts: (Cons t ts')
    let ?p = "if after then min n (region_max r + 1) else region_min r"
    have "off \<le> ?p" "?p \<le> n" using Cons.prems by (auto simp: region_defs)
    moreover have "edits_ok ?p n (map (\<lambda>(r, t). paste_edit n after count r t) (zip rs ts'))"
      by (rule Cons.IH) (use Cons.prems in \<open>fastforce simp: before_def region_defs\<close>)+
    ultimately show ?thesis by (simp add: ts paste_edit_def Let_def)
  qed simp
qed simp

lemma overwritten_tail:
  fixes base :: bytes
  assumes r: "region_max r \<le> length base" and later: "\<And>i. i \<le> region_max r \<Longrightarrow> i \<notin> spans rs"
  shows "map (\<lambda>i. if i \<in> spans (r # rs) then ch else base ! i) [region_min r..<length base]
      @ (if length base \<in> spans (r # rs) then [ch] else []) =
    replicate (region_len r) ch @ map (\<lambda>i. if i \<in> spans rs then ch else base ! i) [region_max r + 1..<length base]
      @ (if length base \<in> spans rs then [ch] else [])"
    (is "map ?f [?mn..<?n] @ _ = _ @ map ?g [?mx + 1..<_] @ _")
proof (cases "?mx < ?n")
  case True
  have rest: "map ?f [?mx + 1..<?n] = map ?g [?mx + 1..<?n]" by (auto simp: span_def)
  have split: "[?mn..<?n] = [?mn..<?mx + 1] @ [?mx + 1..<?n]" using True region_min_le_max [of r]
    by (metis Suc_eq_plus1 Suc_leI le_SucI le_add_diff_inverse upt_add_eq_append)
  have "map ?f [?mn..<?mx + 1] = map (\<lambda>_. ch) [?mn..<?mx + 1]"
    by (intro map_cong) (auto simp: span_def)
  also have "\<dots> = replicate (region_len r) ch"
    using region_min_le_max [of r] unfolding map_replicate_const length_upt region_len_def by (simp add: Suc_diff_le)
  finally have "map ?f [?mn..<?mx + 1] = replicate (region_len r) ch" .
  moreover have "?n \<in> spans (r # rs) \<longleftrightarrow> ?n \<in> spans rs" using True by (auto simp: span_def)
  ultimately show ?thesis unfolding split map_append rest by simp
next
  case False
  with r have mx: "?mx = ?n" by simp
  have "map ?f [?mn..<?n] = replicate (?n - ?mn) ch"
    using region_min_le_max [of r] mx by (intro nth_equalityI) (auto simp: span_def)
  moreover have "?n \<in> spans (r # rs)" "?n \<notin> spans rs" using region_min_le_max [of r] mx later by (auto simp: span_def)
  ultimately show ?thesis using mx region_min_le_max [of r]
    by (simp add: region_len_def replicate_append_same)
qed

lemma region_edits_apply_from:
  assumes "sorted_wrt before rs" "\<forall>r\<in>set rs. off \<le> region_min r \<and> region_max r \<le> length base"
  shows "apply_edits off (map (region_edit ch) rs) (drop off base) =
    map (\<lambda>i. if i \<in> spans rs then ch else base ! i) [off..<length base]
    @ (if length base \<in> spans rs then [ch] else [])"
  using assms
proof (induction rs arbitrary: off)
  case Nil
  then show ?case by (simp add: spans_def map_upt_nth)
next
  case (Cons r rs)
  let ?mn = "region_min r" and ?mx = "region_max r" and ?n = "length base"
  let ?f = "\<lambda>i. if i \<in> spans (r # rs) then ch else base ! i"
  let ?g = "\<lambda>i. if i \<in> spans rs then ch else base ! i"
  from Cons.prems have r: "off \<le> ?mn" "?mx \<le> ?n" by auto
  have mm: "?mn \<le> ?mx" by (simp add: region_defs)
  have later: "i \<notin> spans rs" if "i \<le> ?mx" for i
    using Cons.prems that by (fastforce simp: spans_def span_def before_def)
  have IH: "apply_edits (?mx + 1) (map (region_edit ch) rs) (drop (?mx + 1) base) =
      map ?g [?mx + 1..<?n] @ (if ?n \<in> spans rs then [ch] else [])"
    by (rule Cons.IH) (use Cons.prems in \<open>auto simp: before_def\<close>)
  have pre: "map ?f [off..<?mn] = take (?mn - off) (drop off base)"
  proof -
    have "?mn \<le> ?n" using r mm by (meson le_trans)
    moreover have "map ?f [off..<?mn] = map ((!) base) [off..<?mn]"
      using later mm by (intro map_cong) (auto simp: span_def simp del: region_min_le_max)
    ultimately show ?thesis by (simp only: map_upt_nth)
  qed
  have "[off..<?n] = [off..<?mn] @ [?mn..<?n]" using r mm
    by (metis le_add_diff_inverse le_trans upt_add_eq_append)
  then have "map ?f [off..<?n] @ (if ?n \<in> spans (r # rs) then [ch] else []) =
      map ?f [off..<?mn] @ map ?f [?mn..<?n] @ (if ?n \<in> spans (r # rs) then [ch] else [])" by simp
  moreover have "map ?f [?mn..<?n] @ (if ?n \<in> spans (r # rs) then [ch] else []) =
      replicate (region_len r) ch @ map ?g [?mx + 1..<?n] @ (if ?n \<in> spans rs then [ch] else [])"
    by (rule overwritten_tail [OF r(2) later])
  moreover have "drop (?mx + 1 - off) (drop off base) = drop (?mx + 1) base"
    using le_trans [OF r(1) mm] by simp
  ultimately show ?case using IH pre by (simp add: region_edit_def [of ch r])
qed

lemma region_edits_apply:
  assumes "sorted_wrt before rs" "\<forall>r\<in>set rs. 0 \<le> region_min r \<and> region_max r \<le> length base"
  shows "apply_edits 0 (map (region_edit ch) rs) base = overwritten base rs ch"
  using region_edits_apply_from [OF assms, of ch] by (simp add: overwritten_def)

context xi_rope
begin

lemma for_each_edits:
  assumes step: "\<And>r bl. r \<in> set rs \<Longrightarrow> step r bl =
      (case ed r of None \<Rightarrow> Inr bl | Some (s, e, t) \<Rightarrow> builder_replace X bl (interval_new s e) t)"
    and ok: "edits_ok (edits_end (builder_edits X bl)) n (List.map_filter ed rs)"
  shows "\<exists>bl'. for_each step rs bl = Inr bl' \<and> builder_base X bl' = builder_base X bl \<and>
    builder_edits X bl' = builder_edits X bl @ List.map_filter ed rs"
  using assms
proof (induction rs arbitrary: bl)
  case Nil
  then show ?case by (simp add: map_filter_simps)
next
  case (Cons r rs)
  show ?case
  proof (cases "ed r")
    case None
    then show ?thesis using Cons by (simp add: map_filter_simps)
  next
    case (Some e)
    obtain a b t where e: "e = (a, b, t)" by (cases e)
    with Cons.prems Some obtain bl1 where bl1: "step r bl = Inr bl1"
      "builder_base X bl1 = builder_base X bl" "builder_edits X bl1 = builder_edits X bl @ [(a, b, t)]"
      using builder_replace_sorted [of bl "interval_new a b" t]
      by (auto simp: map_filter_simps interval_new_def)
    have "\<exists>bl'. for_each step rs bl1 = Inr bl' \<and> builder_base X bl' = builder_base X bl1 \<and>
        builder_edits X bl' = builder_edits X bl1 @ List.map_filter ed rs"
      by (rule Cons.IH) (use Cons.prems Some e bl1 in \<open>auto simp: map_filter_simps\<close>)
    with bl1 Some e show ?thesis by (auto simp: map_filter_simps)
  qed
qed

lemma script_does:
  assumes step: "\<And>r bl. r \<in> set rs \<Longrightarrow> step r bl =
      (case ed r of None \<Rightarrow> Inr bl | Some (s, e, t) \<Rightarrow> builder_replace X bl (interval_new s e) t)"
    and ok: "edits_ok 0 (length base) es" and es: "es = List.map_filter ed rs"
  shows "does_edit X base
      (and_then (for_each step rs (builder_new X (length base))) (\<lambda>bl. Inr (builder_build X bl)))
      (ins_at es) (del_at es)"
proof -
  obtain bl where bl: "for_each step rs (builder_new X (length base)) = Inr bl"
    "builder_base X bl = length base" "builder_edits X bl = es"
    using for_each_edits [of rs step ed "builder_new X (length base)" "length base", OF step] ok es
    by (auto simp: builder_new_view)
  have ok': "edits_ok 0 (builder_base X bl) (builder_edits X bl)" unfolding bl(2,3) by (rule ok)
  have "delta_apply X (builder_build X bl) base = apply_edits 0 es base"
    using build_apply(1) [OF ok' bl(2) [symmetric]] unfolding bl(2,3) .
  moreover have "apply_edits 0 es base = edited base (ins_at es) (del_at es)"
    using apply_edits_positional [OF ok refl] by (simp add: edited_def)
  moreover have "delta_del X (builder_build X bl) = map (del_at es) [0..<length base]"
    and "delta_ins X (builder_build X bl) =
      gather (map (ins_at es) [0..<Suc (length base)]) (map (del_at es) [0..<length base])"
    using build_view [OF ok'] edit_mask_positional [OF ok] edit_texts_positional [OF ok]
    unfolding bl(2,3) by simp_all
  ultimately show ?thesis using bl(1) by (simp add: does_edit_def)
qed

lemma script_of_regions:
  assumes step: "\<And>r bl. r \<in> set rs \<Longrightarrow> step r bl =
      (case ed r of None \<Rightarrow> Inr bl | Some (s, e, t) \<Rightarrow> builder_replace X bl (interval_new s e) t)"
    and sorted: "sorted_wrt P rs"
    and order: "\<And>a b sa ea ta sb eb tb. a \<in> set rs \<Longrightarrow> b \<in> set rs \<Longrightarrow> P a b \<Longrightarrow>
      ed a = Some (sa, ea, ta) \<Longrightarrow> ed b = Some (sb, eb, tb) \<Longrightarrow> ea \<le> sb"
    and range: "\<And>r s e t. r \<in> set rs \<Longrightarrow> ed r = Some (s, e, t) \<Longrightarrow> s \<le> e \<and> s \<le> length base"
  shows "does_edit X base
      (and_then (for_each step rs (builder_new X (length base))) (\<lambda>bl. Inr (builder_build X bl)))
      (ins_at (List.map_filter ed rs)) (del_at (List.map_filter ed rs))"
proof -
  let ?es = "List.map_filter ed rs"
  have "sorted_wrt starts_after ?es"
    using sorted by (rule sorted_map_filter) (auto simp: starts_after_def dest: order)
  moreover have "\<forall>(s, e, t)\<in>set ?es. 0 \<le> s \<and> s \<le> e \<and> s \<le> length base"
    using range by (auto simp: set_map_filter)
  ultimately have ok: "edits_ok 0 (length base) ?es" by (rule edits_ok_sorted)
  show ?thesis by (rule script_does [OF step ok refl])
qed

lemma deletion_does:
  assumes "wf_selection sel" "in_bounds (length base) sel"
  shows "does_edit X base (deletion X base sel) (\<lambda>_. []) (\<lambda>i. i \<in> spans (regions sel))"
proof -
  let ?ed = "\<lambda>r. Some (region_min r, region_max r + 1, [])"
  have "does_edit X base (deletion X base sel)
      (ins_at (List.map_filter ?ed (regions sel))) (del_at (List.map_filter ?ed (regions sel)))"
    unfolding deletion_def
    by (rule script_of_regions [where P = before])
       (use assms in \<open>auto simp: interval_is_empty interval_new_def builder_delete_view Let_def
          wf_selection_def before_def in_bounds_def region_defs min_le_iff_disj le_max_iff_disj le_SucI\<close>)
  then show ?thesis
    by (rule does_edit_cong)
       (auto simp: del_at_map_filter spans_def span_def less_Suc_eq_le set_map_filter intro: ins_at_none)
qed

lemma backspace_does:
  assumes "wf_selection sel" "in_bounds (length base) sel"
  shows "does_edit X base (backspace X base sel) (\<lambda>_. []) (\<lambda>i. Suc i \<in> carets sel)"
proof -
  let ?ed = "\<lambda>r. if caret r = 0 then None else Some (caret r - 1, caret r, [])"
  have "does_edit X base (backspace X base sel)
      (ins_at (List.map_filter ?ed (regions sel))) (del_at (List.map_filter ?ed (regions sel)))"
    unfolding backspace_def
    by (rule script_of_regions [where P = before])
       (use assms in \<open>auto simp: builder_delete_view wf_selection_def before_def region_defs in_bounds_def
          split: if_splits\<close>)
  then show ?thesis
  proof (rule does_edit_cong)
    show "del_at (List.map_filter ?ed (regions sel)) i \<longleftrightarrow> Suc i \<in> carets sel" for i
      by (force simp: del_at_map_filter carets_def split: if_splits)
  qed (auto simp: set_map_filter intro!: ins_at_none split: if_splits)
qed

lemma delete_cursor_does:
  assumes "wf_selection sel" "in_bounds (length base) sel"
  shows "does_edit X base (delete_cursor X base sel) (\<lambda>_. []) (\<lambda>i. i \<in> carets sel)"
proof -
  let ?ed = "\<lambda>r. if caret r < length base then Some (caret r, min (length base) (caret r + 1), [])
    else None"
  have "does_edit X base (delete_cursor X base sel)
      (ins_at (List.map_filter ?ed (regions sel))) (del_at (List.map_filter ?ed (regions sel)))"
    unfolding delete_cursor_def
    by (rule script_of_regions [where P = before])
       (use assms in \<open>auto simp: builder_delete_view wf_selection_def before_def region_defs in_bounds_def
          interval_is_empty interval_new_def Let_def split: if_splits\<close>)
  then show ?thesis
  proof (rule does_edit_cong)
    show "del_at (List.map_filter ?ed (regions sel)) i \<longleftrightarrow> i \<in> carets sel" if "i < length base" for i
      using that by (force simp: del_at_map_filter carets_def split: if_splits)
  qed (auto simp: set_map_filter intro!: ins_at_none split: if_splits)
qed

text \<open>Operations that put one text at every caret.\<close>

lemma at_carets:
  assumes wf: "wf_selection sel"
    and ed: "\<And>r. ed r = Some (caret r, stop r, tx (caret r))"
  shows "ins_at (List.map_filter ed (regions sel)) i = (if i \<in> carets sel then tx i else [])"
proof (cases "i \<in> carets sel")
  case True
  then obtain r where r: "r \<in> set (regions sel)" "caret r = i" by (auto simp: carets_def)
  have "sorted_wrt (\<lambda>a b. fst a < fst b) (List.map_filter ed (regions sel))"
    by (rule sorted_map_filter [where P = before])
       (use wf in \<open>auto simp: wf_selection_def ed before_def region_defs\<close>)
  moreover have "(i, stop r, tx i) \<in> set (List.map_filter ed (regions sel))"
    using r ed [of r] by (force simp: set_map_filter)
  ultimately show ?thesis using True by (simp add: ins_at_unique)
next
  case False
  then show ?thesis by (auto simp: set_map_filter ed carets_def intro!: ins_at_none)
qed

lemma insert_text_does:
  assumes "wf_selection sel" "in_bounds (length base) sel"
  shows "does_edit X base (insert_text X base sel t) (\<lambda>i. if i \<in> carets sel then t else []) (\<lambda>_. False)"
proof -
  let ?ed = "\<lambda>r. Some (caret r, caret r, t)"
  have "does_edit X base (insert_text X base sel t)
      (ins_at (List.map_filter ?ed (regions sel))) (del_at (List.map_filter ?ed (regions sel)))"
    unfolding insert_text_def
    by (rule script_of_regions [where P = before])
       (use assms in \<open>auto simp: wf_selection_def before_def region_defs in_bounds_def\<close>)
  then show ?thesis
    by (rule does_edit_cong)
       (auto simp: at_carets [OF assms(1), where stop = caret and tx = "\<lambda>_. t"] del_at_map_filter)
qed

lemma overwrite_does:
  assumes "wf_selection sel" "in_bounds (length base) sel"
  shows "does_edit X base
      (and_then (for_each (\<lambda>r bl. builder_replace X bl (interval_new (caret r) (caret r + 1)) (tx (caret r)))
        (regions sel) (builder_new X (length base))) (\<lambda>bl. Inr (builder_build X bl)))
      (\<lambda>i. if i \<in> carets sel then tx i else []) (\<lambda>i. i \<in> carets sel)"
proof -
  let ?ed = "\<lambda>r. Some (caret r, caret r + 1, tx (caret r))"
  have "does_edit X base
      (and_then (for_each (\<lambda>r bl. builder_replace X bl (interval_new (caret r) (caret r + 1)) (tx (caret r)))
        (regions sel) (builder_new X (length base))) (\<lambda>bl. Inr (builder_build X bl)))
      (ins_at (List.map_filter ?ed (regions sel))) (del_at (List.map_filter ?ed (regions sel)))"
    by (rule script_of_regions [where P = before])
       (use assms in \<open>auto simp: wf_selection_def before_def region_defs in_bounds_def\<close>)
  then show ?thesis
    by (rule does_edit_cong)
       (auto simp: at_carets [OF assms(1), where stop = "\<lambda>r. caret r + 1" and tx = tx]
          del_at_map_filter carets_def image_iff le_less_Suc_eq)
qed

lemma change_does:
  assumes "wf_selection sel" "in_bounds (length base) sel"
  shows "does_edit X base (change X base sel t)
    (\<lambda>i. if i \<in> carets sel then t else []) (\<lambda>i. i \<in> carets sel)"
  unfolding change_def by (rule overwrite_does [OF assms, of "\<lambda>_. t"])

lemma overwrite_half_does:
  assumes "wf_selection sel" "in_bounds (length base) sel"
  shows "does_edit X base (overwrite_half X base sel half)
    (\<lambda>i. if i \<in> carets sel then [(if i < length base then (base ! i) AND 0x0F else 0) OR half] else [])
    (\<lambda>i. i \<in> carets sel)"
  unfolding overwrite_half_def Let_def
  by (rule overwrite_does [OF assms, of "\<lambda>i. [(if i < length base then (base ! i) AND 0x0F else 0) OR half]"])

lemma replace_does:
  assumes "wf_selection sel" "in_bounds (length base) sel"
  shows "does_edit X base (replace X base sel ch) (ins_at (map (region_edit ch) (regions sel)))
    (\<lambda>i. i \<in> spans (regions sel))"
    and "edited base (ins_at (map (region_edit ch) (regions sel))) (\<lambda>i. i \<in> spans (regions sel)) =
      overwritten base (regions sel) ch"
proof -
  let ?es = "map (region_edit ch) (regions sel)"
  have es: "?es = List.map_filter (\<lambda>r. Some (region_edit ch r)) (regions sel)"
    by (induction "regions sel") (auto simp: map_filter_def comp_def)
  have rs: "sorted_wrt before (regions sel)" "\<forall>r\<in>set (regions sel). 0 \<le> region_min r \<and> region_max r \<le> length base"
    using assms by (auto simp: wf_selection_def in_bounds_def region_max_def)
  have ok: "edits_ok 0 (length base) ?es" using region_edits_ok [OF rs] .
  have dels: "del_at ?es = (\<lambda>i. i \<in> spans (regions sel))"
    by (rule ext) (auto simp: del_at_def region_edit_def spans_def span_def less_Suc_eq_le)
  have "does_edit X base (replace X base sel ch) (ins_at ?es) (del_at ?es)"
    unfolding replace_def by (rule script_does [OF _ ok es]) (simp add: region_edit_def region_len_def)
  then show "does_edit X base (replace X base sel ch) (ins_at ?es) (\<lambda>i. i \<in> spans (regions sel))"
    by (simp add: dels)
  show "edited base (ins_at ?es) (\<lambda>i. i \<in> spans (regions sel)) = overwritten base (regions sel) ch"
    using region_edits_apply [OF rs, of ch] apply_edits_positional [OF ok refl]
    by (simp add: edited_def dels)
qed

lemma paste_does:
  assumes "wf_selection sel" "in_bounds (length base) sel" "contents \<noteq> []"
  shows "does_edit X base (paste X base sel contents after count)
    (ins_at (paste_edits (length base) (regions sel) contents after count)) (\<lambda>_. False)"
proof -
  let ?zs = "zip (regions sel) (contents @ replicate (length (regions sel)) (last contents))"
  let ?ed = "\<lambda>(r, t). Some (paste_edit (length base) after count r t)"
  let ?es = "paste_edits (length base) (regions sel) contents after count"
  have es: "?es = List.map_filter ?ed ?zs"
    by (auto simp: paste_edits_def map_filter_def comp_def case_prod_unfold)
  have ok: "edits_ok 0 (length base) ?es"
    unfolding paste_edits_def
    by (rule paste_edits_ok) (use assms in \<open>auto simp: wf_selection_def in_bounds_def region_defs\<close>)
  have dels: "del_at ?es = (\<lambda>_. False)"
    by (rule ext) (auto simp: del_at_def paste_edits_def paste_edit_def Let_def)
  have "does_edit X base (paste X base sel contents after count) (ins_at ?es) (del_at ?es)"
    unfolding paste_def Let_def using assms(3)
    by (simp only: if_False) (rule script_does [OF _ ok es], auto simp: paste_edit_def Let_def split: prod.splits)
  then show ?thesis by (simp add: dels)
qed

end

end
