(* ===== verification/History.thy ===== *)
theory History
  imports Xi_Rope Selection
begin

text \<open>
  The undo history (src/history.rs). An action is a delta; \<open>invert\<close> builds the delta that takes an
  edit back and \<open>chain\<close> joins two deltas into one. \<open>History\<close> keeps a stack of inverse actions for
  undo, one for redo, and the partial action of an edit that is still going on (insert mode).

  The abstract counterpart is a \<open>timeline\<close> of whole documents: what was before, what is now, what
  was undone. \<open>history_ok\<close> says that every delta on the stacks fits the document it will be applied
  to, and the refinement lemmas show that each operation moves the timeline as it should.
\<close>

section \<open>Actions\<close>

record 'd action =
  delta :: 'd

definition from_delta :: "'d \<Rightarrow> 'd action" where
  "from_delta d = \<lparr>delta = d\<rparr>"

definition invert :: "('d, 's, 'b) xi \<Rightarrow> 'd action \<Rightarrow> bytes \<Rightarrow> 'd action" where
  "invert X a base_rope =
     (let (inserts, deletions) = delta_factor X (delta a);
          ins_subset = insert_inserted_subset X inserts;
          deleted_now = subset_delete_from X (subset_complement X deletions) base_rope;
          deletions_from_base = subset_transform_expand X deletions ins_subset;
          deletions_from_inverted = ins_subset
      in \<lparr>delta = delta_synthesize X deleted_now deletions_from_base deletions_from_inverted\<rparr>)"

definition subsets_for_chain :: "('d, 's, 'b) xi \<Rightarrow> 'd action \<Rightarrow> 'd \<Rightarrow> 's \<times> 's \<times> 's" where
  "subsets_for_chain X a nxt =
     (let (ins1, del1) = delta_factor X (delta a);
          (ins2, del2) = delta_factor X nxt;
          inserts_in_mid_union = insert_inserted_subset X ins1;
          deletes_from_mid_union = subset_transform_expand X del1 (insert_inserted_subset X ins1);
          union_ins_delta = insert_transform_expand X ins2 deletes_from_mid_union True;
          new_inserts = insert_inserted_subset X union_ins_delta;
          new_deletes =
            (let pre_expand = subset_transform_expand X del2 deletes_from_mid_union
             in if subset_is_empty X new_inserts then pre_expand
                else subset_transform_expand X pre_expand new_inserts);
          rebased_deletes_from_union = subset_transform_expand X deletes_from_mid_union new_inserts;
          deletes_from_union = subset_union X rebased_deletes_from_union new_deletes;
          rebased_inserts_in_union = subset_transform_expand X inserts_in_mid_union new_inserts;
          inserts_in_union = subset_union X rebased_inserts_in_union new_inserts;
          inserts_in_mid_text = subset_transform_shrink X inserts_in_mid_union deletes_from_mid_union;
          prefinal_insertion = insert_inserted_subset X ins2;
          inserts_in_prefinal = subset_transform_union X inserts_in_mid_text prefinal_insertion
      in (inserts_in_union, deletes_from_union, inserts_in_prefinal))"

definition chain :: "('d, 's, 'b) xi \<Rightarrow> 'd action \<Rightarrow> bytes \<Rightarrow> 'd \<Rightarrow> 'd action" where
  "chain X a after_self nxt =
     (let after_next = delta_apply X (fst (delta_factor X nxt)) after_self;
          (inserted, deleted, inserts_in_prefinal) = subsets_for_chain X a nxt;
          tombstones = subset_delete_from X (subset_complement X inserts_in_prefinal) after_next
      in \<lparr>delta = delta_synthesize X tombstones inserted deleted\<rparr>)"

section \<open>The history of a buffer\<close>

record 'd history =
  partial :: "('d action \<times> selection) option"
  undo_stack :: "('d action \<times> selection) list"
  redo_stack :: "('d action \<times> selection) list"

definition history_new :: "'d history" where
  "history_new = \<lparr>partial = None, undo_stack = [], redo_stack = []\<rparr>"

definition perform_final ::
    "('d, 's, 'b) xi \<Rightarrow> bytes \<Rightarrow> 'd \<Rightarrow> selection \<Rightarrow> 'd history \<Rightarrow> 'd history" where
  "perform_final X current_rope d sel h =
     h\<lparr>undo_stack := undo_stack h @ [(invert X (from_delta d) current_rope, sel)], redo_stack := []\<rparr>"

definition perform_partial ::
    "('d, 's, 'b) xi \<Rightarrow> bytes \<Rightarrow> 'd \<Rightarrow> selection \<Rightarrow> 'd history \<Rightarrow> 'd history" where
  "perform_partial X current_rope d sel h =
     (let this_inversion = invert X (from_delta d) current_rope;
          replaced = (case partial h of
              None \<Rightarrow> (this_inversion, sel)
            | Some (act, old_sel) \<Rightarrow> (chain X this_inversion current_rope (delta act), old_sel))
      in h\<lparr>partial := Some replaced\<rparr>)"

definition commit_partial :: "'d history \<Rightarrow> 'd history" where
  "commit_partial h =
     (case partial h of
        None \<Rightarrow> h
      | Some (act, sel) \<Rightarrow>
          h\<lparr>partial := None, undo_stack := undo_stack h @ [(act, sel)], redo_stack := []\<rparr>)"

definition undo ::
    "('d, 's, 'b) xi \<Rightarrow> bytes \<Rightarrow> selection \<Rightarrow> 'd history \<Rightarrow> ('d \<times> selection) option \<times> 'd history" where
  "undo X current_rope sel h =
     (if undo_stack h = [] then (None, h)
      else let (act, old_selection) = last (undo_stack h)
           in (Some (delta act, old_selection),
               h\<lparr>undo_stack := butlast (undo_stack h),
                 redo_stack := redo_stack h @ [(invert X act current_rope, sel)]\<rparr>))"

definition redo ::
    "('d, 's, 'b) xi \<Rightarrow> bytes \<Rightarrow> selection \<Rightarrow> 'd history \<Rightarrow> ('d \<times> selection) option \<times> 'd history" where
  "redo X current_rope sel h =
     (if redo_stack h = [] then (None, h)
      else let (act, old_selection) = last (redo_stack h)
           in (Some (delta act, old_selection),
               h\<lparr>redo_stack := butlast (redo_stack h),
                 undo_stack := undo_stack h @ [(invert X act current_rope, sel)]\<rparr>))"

section \<open>Inverting and chaining\<close>

definition takes :: "('d, 's, 'b) xi \<Rightarrow> 'd \<Rightarrow> bytes \<Rightarrow> bytes \<Rightarrow> bool" where
  "takes X d r r' \<longleftrightarrow> base_len X d = length r \<and> delta_apply X d r = r'"

context xi_rope
begin

lemma factor_views:
  assumes "delta_factor X d = (i, e)" "length r = base_len X d"
  shows "insert_only X i" "length (delta_ins X i) = Suc (length r)"
    "delta_apply X i r = weave (delta_ins X i) r" "subset_mask X e = delta_del X d"
    "delta_apply X d r = weave (gather (delta_ins X i) (delta_del X d)) (outside (delta_del X d) r)"
    "delta_del X i = replicate (length r) False"
proof -
  from factor_insert [OF assms(1)] assms(2)
  have del: "delta_del X i = replicate (length r) False" and e: "subset_mask X e = delta_del X d"
    by (simp_all add: base_len_def)
  show "delta_del X i = replicate (length r) False" "subset_mask X e = delta_del X d"
    by (fact del e)+
  show "insert_only X i" using del by (simp add: insert_only_def)
  show len: "length (delta_ins X i) = Suc (length r)" using delta_shape [of i] del by simp
  show ap: "delta_apply X i r = weave (delta_ins X i) r" using delta_apply_view [of r i] del by simp
  show "delta_apply X d r = weave (gather (delta_ins X i) (delta_del X d)) (outside (delta_del X d) r)"
    using factor_apply [OF assms(1), of r] assms(2) ap len
      outside_expand_inserted [of "delta_ins X i" "delta_del X d" r]
    by (simp add: base_len_def)
qed

text \<open>A delta synthesised between two subsets of one union string.\<close>

lemma synthesize_takes:
  assumes "tomb = keep (subset_mask X fr) u" "outside (subset_mask X fr) u = r"
    "outside (subset_mask X to) u = r'" "length u = length (subset_mask X fr)"
    "length u = length (subset_mask X to)"
  shows "takes X (delta_synthesize X tomb fr to) r r'"
  using synthesize_view [OF assms(4,5)] assms length_outside [of u "subset_mask X fr"]
  by (simp add: takes_def base_len_def)

lemma delete_complement:
  "length r = length (subset_mask X e) \<Longrightarrow>
     subset_delete_from X (subset_complement X e) r = keep (subset_mask X e) r"
  using delete_from_view [of r "subset_complement X e"]
  by (simp add: complement_view outside_map_Not)

lemma length_takes: "takes X d r r' \<Longrightarrow> length r' = delta_new_document_len X d"
  using length_apply [of r d] by (auto simp: takes_def)

theorem invert_takes:
  assumes "takes X (delta a) r r'"
  shows "takes X (delta (invert X a r)) r' r"
proof -
  obtain i e where f: "delta_factor X (delta a) = (i, e)" by (cases "delta_factor X (delta a)")
  from assms have len: "length r = base_len X (delta a)" and r': "r' = delta_apply X (delta a) r"
    by (simp_all add: takes_def)
  note v = factor_views [OF f len]
  let ?I = "insert_inserted_subset X i" and ?gs = "delta_ins X i" and ?u = "weave (delta_ins X i) r"
  have I: "subset_mask X ?I = inserted_mask ?gs" using inserted_subset_view [OF v(1)] .
  have sv: "survivors (inserted_mask ?gs) = length r" using v(2) by (subst survivors_inserted_mask) auto
  have lu: "length ?u = length (inserted_mask ?gs)" using v(2) by (rule length_inserted_weave)
  have D: "subset_mask X (subset_transform_expand X e ?I) = expand (delta_del X (delta a)) (inserted_mask ?gs)"
    using expand_view [of e ?I] len sv by (simp add: I v(4) base_len_def)
  have deleted: "subset_delete_from X (subset_complement X e) r = keep (delta_del X (delta a)) r"
    using delete_complement [of r e] len by (simp add: v(4) base_len_def)
  have "takes X (delta_synthesize X (keep (delta_del X (delta a)) r) (subset_transform_expand X e ?I) ?I) r' r"
  proof (rule synthesize_takes [where u = ?u])
    show "keep (delta_del X (delta a)) r = keep (subset_mask X (subset_transform_expand X e ?I)) ?u"
      using v(2) lu by (simp add: D keep_expand outside_inserted_mask)
    show "outside (subset_mask X (subset_transform_expand X e ?I)) ?u = r'"
      using factor_apply [OF f, of r] len v(3) by (simp add: D r' base_len_def)
    show "outside (subset_mask X ?I) ?u = r" using v(2) by (simp add: I outside_inserted_mask)
  qed (simp_all add: D I lu)
  then show ?thesis by (simp add: invert_def f deleted Let_def)
qed

text \<open>
  The three subsets of \<open>subsets_for_chain\<close>, read as masks over the union string of both edits
  (the middle union \<open>weave gs1 r0\<close> with the insertions of the second edit woven in).
\<close>

lemma expand_unless_empty:
  assumes "survivors (subset_mask X s) = length (subset_mask X e)"
  shows "subset_mask X (if subset_is_empty X s then e else subset_transform_expand X e s) =
    expand (subset_mask X e) (subset_mask X s)"
proof (cases "subset_is_empty X s")
  case True
  then have "subset_mask X s = replicate (length (subset_mask X s)) False"
    by (metis (full_types) is_empty_view replicate_length_same)
  with assms have "expand (subset_mask X e) (subset_mask X s) = subset_mask X e"
    by (metis expand_none survivors_replicate(1))
  with True show ?thesis by simp
qed (use assms expand_view [of e s] in simp)

text \<open>The tombstones of a chained delta: what is kept of the second text \<open>r1\<close> with its insertions \<open>gather gs D\<close>, by the
  first insertions that survive and the second ones, is what is kept of the first union \<open>u\<close> with \<open>gs\<close>.\<close>

lemma keep_chained:
  assumes len: "length gs = Suc (length D)" and lu: "length u = length I" "length D = length I"
    and u1: "outside D u = r1" and disj: "map Not I = map2 (\<or>) D (expand (map Not (outside D I)) D)"
  shows "keep (map2 (\<or>) (expand (outside D I) (inserted_mask (gather gs D))) (inserted_mask (gather gs D)))
      (weave (gather gs D) r1) =
    keep (map2 (\<or>) (expand I (inserted_mask gs)) (inserted_mask gs)) (weave gs u)"
proof -
  have lsh: "length (outside D I) = survivors D" by (rule length_outside) (simp add: lu)
  have sv: "survivors D = length r1" using length_outside [of u D] lu u1 by simp
  have "keep (map2 (\<or>) (expand (outside D I) (inserted_mask (gather gs D))) (inserted_mask (gather gs D)))
      (weave (gather gs D) r1) =
      weave (gather (gather gs D) (map Not (outside D I))) (keep (outside D I) r1)"
    by (rule keep_inserted) (use len lsh sv length_gather [OF len] in simp_all)
  also have "gather (gather gs D) (map Not (outside D I)) = gather gs (map Not I)"
    unfolding disj by (rule gather_union [symmetric]) (use len lsh in simp_all)
  also have "keep (outside D I) r1 = keep I u"
    using outside_union_expand [of "map Not (outside D I)" D u] lsh lu u1
    by (simp add: disj [symmetric] outside_map_Not)
  also have "weave (gather gs (map Not I)) (keep I u) =
      keep (map2 (\<or>) (expand I (inserted_mask gs)) (inserted_mask gs)) (weave gs u)"
    by (rule keep_inserted [symmetric]) (use len lu in simp_all)
  finally show ?thesis .
qed

lemma subsets_for_chain_masks:
  assumes f1: "delta_factor X (delta a) = (i1, e1)" and f2: "delta_factor X nxt = (i2, e2)"
    and l0: "length r0 = base_len X (delta a)" and l1: "length r1 = base_len X nxt"
    and r1: "r1 = delta_apply X (delta a) r0"
    and sub: "subsets_for_chain X a nxt = (ins, del, pre)"
    and I: "I = inserted_mask (delta_ins X i1)" and D: "D = expand (delta_del X (delta a)) I"
  obtains gs where "length gs = Suc (length D)" "gather gs D = delta_ins X i2"
    "subset_mask X ins = map2 (\<or>) (expand I (inserted_mask gs)) (inserted_mask gs)"
    "subset_mask X del = expand (map2 (\<or>) D (expand (delta_del X nxt) D)) (inserted_mask gs)"
    "subset_mask X pre = map2 (\<or>) (expand (outside D I) (inserted_mask (delta_ins X i2)))
      (inserted_mask (delta_ins X i2))"
proof -
  note v1 = factor_views [OF f1 l0] and v2 = factor_views [OF f2 l1]
  let ?D = "subset_transform_expand X e1 (insert_inserted_subset X i1)"
  let ?j = "insert_transform_expand X i2 ?D True"
  let ?N = "inserted_mask (delta_ins X ?j)"
  have mI: "subset_mask X (insert_inserted_subset X i1) = I"
    unfolding I by (rule inserted_subset_view [OF v1(1)])
  have svI: "survivors I = length r0" unfolding I using v1(2) by (subst survivors_inserted_mask) auto
  have lenI: "length (weave (delta_ins X i1) r0) = length I" unfolding I by (rule length_inserted_weave [OF v1(2)])
  have mD: "subset_mask X ?D = D"
    using expand_view [of e1 "insert_inserted_subset X i1"] l0 svI by (simp add: mI v1(4) D base_len_def)
  have "outside D (weave (delta_ins X i1) r0) = r1"
    using factor_apply [OF f1, of r0] l0 v1(3) by (simp add: D I r1 base_len_def)
  then have svD: "survivors D = length r1"
    using length_outside [of "weave (delta_ins X i1) r0" D] lenI by (simp add: D)
  have svj: "survivors (subset_mask X ?D) = length (delta_del X i2)" using svD v2(6) by (simp add: mD)
  have j: "delta_del X ?j = replicate (length D) False" "gather (delta_ins X ?j) D = delta_ins X i2"
    using insert_expand_view [OF v2(1) svj] by (simp_all add: mD)
  then have lenj: "length (delta_ins X ?j) = Suc (length D)" and insj: "insert_only X ?j"
    using delta_shape [of ?j] by (simp_all add: insert_only_def)
  have mN: "subset_mask X (insert_inserted_subset X ?j) = ?N" by (rule inserted_subset_view [OF insj])
  have svN: "survivors ?N = length D" using lenj by (subst survivors_inserted_mask) auto
  have l2: "length (delta_del X nxt) = survivors D" using l1 svD by (simp add: base_len_def)
  have mE: "subset_mask X (subset_transform_expand X e2 ?D) = expand (delta_del X nxt) D"
    using expand_view [of e2 ?D] l2 by (simp add: mD v2(4))
  have new: "subset_mask X (if subset_is_empty X (insert_inserted_subset X ?j)
        then subset_transform_expand X e2 ?D
        else subset_transform_expand X (subset_transform_expand X e2 ?D) (insert_inserted_subset X ?j)) =
      expand (expand (delta_del X nxt) D) ?N"
    using expand_unless_empty [of "insert_inserted_subset X ?j" "subset_transform_expand X e2 ?D"] svN
    by (simp add: mE mN)
  have lenDI: "length D = length I" by (simp add: D)
  have rebD: "subset_mask X (subset_transform_expand X ?D (insert_inserted_subset X ?j)) = expand D ?N"
    using expand_view [of ?D "insert_inserted_subset X ?j"] svN by (simp add: mD mN)
  have rebI: "subset_mask X (subset_transform_expand X (insert_inserted_subset X i1)
      (insert_inserted_subset X ?j)) = expand I ?N"
    using expand_view [of "insert_inserted_subset X i1" "insert_inserted_subset X ?j"] svN lenDI
    by (simp add: mI mN)
  have shr: "subset_mask X (subset_transform_shrink X (insert_inserted_subset X i1) ?D) = outside D I"
    using shrink_view [of "insert_inserted_subset X i1" ?D] lenDI by (simp add: mI mD)
  have mP: "subset_mask X (insert_inserted_subset X i2) = inserted_mask (delta_ins X i2)"
    by (rule inserted_subset_view [OF v2(1)])
  have "survivors (inserted_mask (delta_ins X i2)) = length r1"
    using v2(2) by (subst survivors_inserted_mask) auto
  then have lp: "length (outside D I) = survivors (inserted_mask (delta_ins X i2))"
    using svD lenDI length_outside [of I D] by simp
  note eqs = sub [unfolded subsets_for_chain_def f1 f2 Let_def prod.case prod.inject, THEN conjunct1]
    sub [unfolded subsets_for_chain_def f1 f2 Let_def prod.case prod.inject, THEN conjunct2, THEN conjunct1]
    sub [unfolded subsets_for_chain_def f1 f2 Let_def prod.case prod.inject, THEN conjunct2, THEN conjunct2]
  show thesis
  proof (rule that [OF lenj j(2)])
    show "subset_mask X ins = map2 (\<or>) (expand I ?N) ?N"
      unfolding eqs(1) [symmetric] by (subst union_view) (simp_all add: rebI mN)
    show "subset_mask X del = expand (map2 (\<or>) D (expand (delta_del X nxt) D)) ?N"
      unfolding eqs(2) [symmetric] by (subst union_view) (simp_all add: rebD new expand_or)
    show "subset_mask X pre = map2 (\<or>) (expand (outside D I) (inserted_mask (delta_ins X i2)))
        (inserted_mask (delta_ins X i2))"
      unfolding eqs(3) [symmetric] using lp by (subst transform_union_view) (simp_all add: shr mP)
  qed
qed

theorem chain_takes:
  assumes a: "takes X (delta a) r0 r1" and nx: "takes X nxt r1 r2"
  shows "takes X (delta (chain X a r1 nxt)) r0 r2"
proof -
  obtain i1 e1 where f1: "delta_factor X (delta a) = (i1, e1)" by (cases "delta_factor X (delta a)")
  obtain i2 e2 where f2: "delta_factor X nxt = (i2, e2)" by (cases "delta_factor X nxt")
  obtain ins del pre where sub: "subsets_for_chain X a nxt = (ins, del, pre)"
    by (cases "subsets_for_chain X a nxt")
  from a nx have l0: "length r0 = base_len X (delta a)" and l1: "length r1 = base_len X nxt"
    and r1: "r1 = delta_apply X (delta a) r0" and r2: "r2 = delta_apply X nxt r1"
    by (simp_all add: takes_def)
  note v1 = factor_views [OF f1 l0] and v2 = factor_views [OF f2 l1]
  let ?I = "inserted_mask (delta_ins X i1)" and ?u = "weave (delta_ins X i1) r0"
  let ?D = "expand (delta_del X (delta a)) ?I"
  obtain gs where len: "length gs = Suc (length ?D)" and gs: "gather gs ?D = delta_ins X i2"
    and mi: "subset_mask X ins = map2 (\<or>) (expand ?I (inserted_mask gs)) (inserted_mask gs)"
    and md: "subset_mask X del = expand (map2 (\<or>) ?D (expand (delta_del X nxt) ?D)) (inserted_mask gs)"
    and mp: "subset_mask X pre = map2 (\<or>) (expand (outside ?D ?I) (inserted_mask (delta_ins X i2)))
      (inserted_mask (delta_ins X i2))"
    using subsets_for_chain_masks [OF f1 f2 l0 l1 r1 sub refl refl] .
  have lu: "length ?u = length ?I" by (rule length_inserted_weave [OF v1(2)])
  have u0: "outside ?I ?u = r0" by (rule outside_inserted_mask [OF v1(2)])
  have u1: "outside ?D ?u = r1" using factor_apply [OF f1, of r0] l0 v1(3) by (simp add: r1 base_len_def)
  have svD: "survivors ?D = length r1" using length_outside [of ?u ?D] lu u1 by simp
  have svI: "survivors ?I = length r0" using length_outside [of ?u ?I] lu u0 by simp
  have svN: "survivors (inserted_mask gs) = length ?u"
    using len lu by (subst survivors_inserted_mask) auto
  let ?U = "weave gs ?u"
  have lU: "length ?U = length (inserted_mask gs)" using len lu by (intro length_inserted_weave) simp
  have NU: "outside (inserted_mask gs) ?U = ?u" using len lu by (intro outside_inserted_mask) simp
  have rest: "map Not ?I = map2 (\<or>) ?D (expand (map Not (outside ?D ?I)) ?D)"
    by (rule Not_split_disjoint [OF expand_disjoint]) (use l0 svI in \<open>simp add: base_len_def\<close>)
  have swap: "map2 (\<or>) (expand b m) m = map2 (\<or>) m (expand b m)" for b m
    by (rule nth_equalityI) auto
  have tomb: "subset_delete_from X (subset_complement X pre) (delta_apply X i2 r1) = keep (subset_mask X ins) ?U"
  proof -
    have "subset_delete_from X (subset_complement X pre) (delta_apply X i2 r1) =
        keep (subset_mask X pre) (weave (delta_ins X i2) r1)"
      unfolding v2(3) by (rule delete_complement) (use length_inserted_weave [OF v2(2)] in \<open>simp add: mp\<close>)
    also have "\<dots> = keep (subset_mask X ins) ?U"
      unfolding mp mi gs [symmetric] by (rule keep_chained [OF len lu _ u1 rest]) simp
    finally show ?thesis .
  qed
  have "takes X (delta_synthesize X (keep (subset_mask X ins) ?U) ins del) r0 r2"
  proof (rule synthesize_takes [OF refl])
    show "outside (subset_mask X ins) ?U = r0"
      unfolding mi swap using outside_union_expand [of ?I "inserted_mask gs" ?U] svN lu lU NU u0 by simp
    have "outside (subset_mask X del) ?U = weave (gather gs (map2 (\<or>) ?D (expand (delta_del X nxt) ?D)))
        (outside (map2 (\<or>) ?D (expand (delta_del X nxt) ?D)) ?u)"
      unfolding md by (rule outside_expand_inserted) (use len lu in simp_all)
    also have "\<dots> = weave (gather (delta_ins X i2) (delta_del X nxt)) (outside (delta_del X nxt) r1)"
      using gather_union [of "delta_del X nxt" ?D gs] outside_union_expand [of "delta_del X nxt" ?D ?u]
        l1 svD len lu gs u1 by (simp add: base_len_def)
    finally show "outside (subset_mask X del) ?U = r2" by (simp add: v2(5) r2)
  qed (simp_all add: mi md lU)
  then show ?thesis by (simp add: chain_def f2 sub tomb Let_def)
qed

end

end
