(* ===== verification/Timeline.thy ===== *)
theory Timeline
  imports History
begin

text \<open>
  The abstract specification of an undo history: a timeline of whole documents, each with the
  selection it had. The locale \<open>undo_history\<close> is the interface a buffer relies on (edit, partial
  edit, commit, undo, redo); what a user expects of undo is proved once inside it. The \<open>sublocale\<close>
  at the end shows that the definitions of History provide it, for every xi-rope.
\<close>

section \<open>Timelines\<close>

type_synonym version = "bytes \<times> selection"

record timeline =
  past :: "version list"
  present :: bytes
  pending :: "version option"
  future :: "version list"

definition t_edit :: "bytes \<Rightarrow> selection \<Rightarrow> timeline \<Rightarrow> timeline" where
  "t_edit doc sel t = t\<lparr>past := (present t, sel) # past t, present := doc, future := []\<rparr>"

definition t_partial :: "bytes \<Rightarrow> selection \<Rightarrow> timeline \<Rightarrow> timeline" where
  "t_partial doc sel t = t\<lparr>present := doc,
     pending := Some (case pending t of None \<Rightarrow> (present t, sel) | Some v \<Rightarrow> v)\<rparr>"

definition t_commit :: "timeline \<Rightarrow> timeline" where
  "t_commit t = (case pending t of None \<Rightarrow> t
     | Some v \<Rightarrow> t\<lparr>past := v # past t, pending := None, future := []\<rparr>)"

definition t_undo :: "selection \<Rightarrow> timeline \<Rightarrow> timeline" where
  "t_undo sel t = (case past t of [] \<Rightarrow> t
     | (doc, old_sel) # vs \<Rightarrow> t\<lparr>past := vs, present := doc, future := (present t, sel) # future t\<rparr>)"

definition t_redo :: "selection \<Rightarrow> timeline \<Rightarrow> timeline" where
  "t_redo sel t = (case future t of [] \<Rightarrow> t
     | (doc, old_sel) # vs \<Rightarrow> t\<lparr>future := vs, present := doc, past := (present t, sel) # past t\<rparr>)"

lemma timeline_eq_iff:
  "t = t' \<longleftrightarrow> past t = past t' \<and> present t = present t' \<and> pending t = pending t' \<and> future t = future t'"
  for t t' :: timeline
  by (auto intro: timeline.equality)

text \<open>
  A run of partial edits, one after the other (the keys typed in insert mode): the history and
  document they lead to.
\<close>

fun partial_run ::
    "(bytes \<Rightarrow> 'd \<Rightarrow> selection \<Rightarrow> 'h \<Rightarrow> 'h) \<Rightarrow> ('d \<Rightarrow> bytes \<Rightarrow> bytes) \<Rightarrow> ('d \<times> selection) list \<Rightarrow>
     'h \<Rightarrow> bytes \<Rightarrow> 'h \<times> bytes" where
  "partial_run edit_partly app [] h r = (h, r)"
| "partial_run edit_partly app ((d, s) # es) h r =
     partial_run edit_partly app es (edit_partly r d s h) (app d r)"

fun run_fits :: "('d \<Rightarrow> bytes \<Rightarrow> bytes) \<Rightarrow> ('d \<Rightarrow> bytes \<Rightarrow> bool) \<Rightarrow> ('d \<times> selection) list \<Rightarrow> bytes \<Rightarrow> bool" where
  "run_fits app fit [] r = True"
| "run_fits app fit ((d, s) # es) r = (fit d r \<and> run_fits app fit es (app d r))"

section \<open>What a buffer relies on\<close>

locale undo_history =
  fixes app :: "'d \<Rightarrow> bytes \<Rightarrow> bytes" and fit :: "'d \<Rightarrow> bytes \<Rightarrow> bool"
    and inv :: "'h \<Rightarrow> bytes \<Rightarrow> bool" and view :: "'h \<Rightarrow> bytes \<Rightarrow> timeline"
    and edit :: "bytes \<Rightarrow> 'd \<Rightarrow> selection \<Rightarrow> 'h \<Rightarrow> 'h"
    and edit_partly :: "bytes \<Rightarrow> 'd \<Rightarrow> selection \<Rightarrow> 'h \<Rightarrow> 'h"
    and commit :: "'h \<Rightarrow> 'h"
    and undo_op :: "bytes \<Rightarrow> selection \<Rightarrow> 'h \<Rightarrow> ('d \<times> selection) option \<times> 'h"
    and redo_op :: "bytes \<Rightarrow> selection \<Rightarrow> 'h \<Rightarrow> ('d \<times> selection) option \<times> 'h"
  assumes present_view: "present (view h r) = r"
    and edit_inv: "inv h r \<Longrightarrow> fit d r \<Longrightarrow> pending (view h r) = None \<Longrightarrow> inv (edit r d s h) (app d r)"
    and edit_view: "inv h r \<Longrightarrow> fit d r \<Longrightarrow> pending (view h r) = None \<Longrightarrow>
      view (edit r d s h) (app d r) = t_edit (app d r) s (view h r)"
    and partly_inv: "inv h r \<Longrightarrow> fit d r \<Longrightarrow> inv (edit_partly r d s h) (app d r)"
    and partly_view: "inv h r \<Longrightarrow> fit d r \<Longrightarrow>
      view (edit_partly r d s h) (app d r) = t_partial (app d r) s (view h r)"
    and commit_inv: "inv h r \<Longrightarrow> inv (commit h) r"
    and commit_view: "inv h r \<Longrightarrow> view (commit h) r = t_commit (view h r)"
    and back_none: "past (view h r) = [] \<Longrightarrow> undo_op r s h = (None, h)"
    and back_some: "inv h r \<Longrightarrow> pending (view h r) = None \<Longrightarrow> past (view h r) = (doc, old) # vs \<Longrightarrow>
      \<exists>d h'. undo_op r s h = (Some (d, old), h') \<and> fit d r \<and> app d r = doc \<and> inv h' doc \<and>
        view h' doc = t_undo s (view h r)"
    and forth_none: "future (view h r) = [] \<Longrightarrow> redo_op r s h = (None, h)"
    and forth_some: "inv h r \<Longrightarrow> pending (view h r) = None \<Longrightarrow> future (view h r) = (doc, old) # vs \<Longrightarrow>
      \<exists>d h'. redo_op r s h = (Some (d, old), h') \<and> fit d r \<and> app d r = doc \<and> inv h' doc \<and>
        view h' doc = t_redo s (view h r)"
begin

lemma partial_run_pending:
  assumes "inv h r" "run_fits app fit es r" "partial_run edit_partly app es h r = (h', r')" "pending (view h r) = Some v"
  shows "inv h' r' \<and> view h' r' = (view h r)\<lparr>present := r'\<rparr>"
  using assms
proof (induction es arbitrary: h r)
  case Nil
  then show ?case using present_view [of h r] by (auto intro: timeline.equality)
next
  case (Cons e es)
  obtain d s where e: "e = (d, s)" by (cases e)
  let ?h = "edit_partly r d s h" and ?r = "app d r"
  from Cons.prems e have pre: "inv ?h ?r" "view ?h ?r = t_partial ?r s (view h r)"
    by (auto simp: partly_inv partly_view)
  with Cons.prems e have "inv h' r' \<and> view h' r' = (view ?h ?r)\<lparr>present := r'\<rparr>"
    by (intro Cons.IH) (auto simp: t_partial_def)
  with pre Cons.prems show ?case by (simp add: t_partial_def)
qed

text \<open>A committed run of partial edits is one edit of the timeline.\<close>

lemma partial_run_commit:
  assumes "inv h r" "run_fits app fit ((d, s) # es) r" "pending (view h r) = None"
    and "partial_run edit_partly app ((d, s) # es) h r = (h', r')"
  shows "inv (commit h') r' \<and> view (commit h') r' = t_edit r' s (view h r)"
proof -
  let ?h = "edit_partly r d s h" and ?r = "app d r"
  from assms have pre: "inv ?h ?r" "view ?h ?r = t_partial ?r s (view h r)"
    by (auto simp: partly_inv partly_view)
  with assms have "inv h' r' \<and> view h' r' = (view ?h ?r)\<lparr>present := r'\<rparr>"
    by (intro partial_run_pending) (auto simp: t_partial_def)
  with pre assms(3) show ?thesis
    by (simp add: commit_inv commit_view t_commit_def t_partial_def t_edit_def present_view)
qed

lemma undo_edit:
  assumes "inv h r" "fit d r" "pending (view h r) = None"
  obtains d' h' where "undo_op (app d r) s' (edit r d s h) = (Some (d', s), h')" "app d' (app d r) = r"
    "inv h' r" "past (view h' r) = past (view h r)" "future (view h' r) = [(app d r, s')]"
    "pending (view h' r) = None" "fit d' (app d r)"
proof -
  let ?v = "view (edit r d s h) (app d r)"
  have v: "?v = t_edit (app d r) s (view h r)" using assms by (simp add: edit_view)
  then have "pending ?v = None" "past ?v = (r, s) # past (view h r)"
    using assms by (simp_all add: t_edit_def present_view)
  from back_some [OF edit_inv [OF assms] this, of s'] that show thesis
    by (auto simp: v t_undo_def t_edit_def present_view assms(3))
qed

lemma redo_undo:
  assumes "inv h r" "pending (view h r) = None" "undo_op r s h = (Some (d, s0), h1)"
  obtains d' h2 where "redo_op (app d r) s0 h1 = (Some (d', s), h2)" "app d' (app d r) = r"
    "inv h2 r" "view h2 r = view h r"
proof -
  from assms(3) obtain v vs where p: "past (view h r) = v # vs"
    using back_none [of h r s] by (cases "past (view h r)") auto
  obtain doc old where v: "v = (doc, old)" by (cases v)
  from back_some [OF assms(1,2) p [unfolded v], of s] assms(3)
  have b: "old = s0" "app d r = doc" "inv h1 doc" "view h1 doc = t_undo s (view h r)" by auto
  then have "pending (view h1 doc) = None" "future (view h1 doc) = (r, s) # future (view h r)"
    using assms(2) p by (simp_all add: v t_undo_def present_view)
  from forth_some [OF b(3) this, of s0] b p v that assms(2) show thesis
    by (auto simp: t_redo_def t_undo_def present_view timeline_eq_iff)
qed

end

section \<open>The timeline of a history\<close>

fun versions :: "('d, 's, 'b) xi \<Rightarrow> ('d action \<times> selection) list \<Rightarrow> bytes \<Rightarrow> version list" where
  "versions X [] r = []"
| "versions X ((a, s) # as) r =
     (delta_apply X (delta a) r, s) # versions X as (delta_apply X (delta a) r)"

fun stack_ok :: "('d, 's, 'b) xi \<Rightarrow> ('d action \<times> selection) list \<Rightarrow> bytes \<Rightarrow> bool" where
  "stack_ok X [] r = True"
| "stack_ok X ((a, s) # as) r =
     (base_len X (delta a) = length r \<and> stack_ok X as (delta_apply X (delta a) r))"

definition settled :: "('d, 's, 'b) xi \<Rightarrow> 'd history \<Rightarrow> bytes \<Rightarrow> bytes" where
  "settled X h r = (case partial h of None \<Rightarrow> r | Some (a, s) \<Rightarrow> delta_apply X (delta a) r)"

definition history_ok :: "('d, 's, 'b) xi \<Rightarrow> 'd history \<Rightarrow> bytes \<Rightarrow> bool" where
  "history_ok X h r \<longleftrightarrow>
     (case partial h of None \<Rightarrow> True | Some (a, s) \<Rightarrow> base_len X (delta a) = length r) \<and>
     stack_ok X (rev (undo_stack h)) (settled X h r) \<and> stack_ok X (rev (redo_stack h)) (settled X h r)"

definition timeline_of :: "('d, 's, 'b) xi \<Rightarrow> 'd history \<Rightarrow> bytes \<Rightarrow> timeline" where
  "timeline_of X h r =
     \<lparr>past = versions X (rev (undo_stack h)) (settled X h r), present = r,
      pending = map_option (\<lambda>(a, s). (delta_apply X (delta a) r, s)) (partial h),
      future = versions X (rev (redo_stack h)) (settled X h r)\<rparr>"

definition fits_doc :: "('d, 's, 'b) xi \<Rightarrow> 'd \<Rightarrow> bytes \<Rightarrow> bool" where
  "fits_doc X d r \<longleftrightarrow> base_len X d = length r"

lemmas timeline_defs = timeline_of_def history_ok_def settled_def t_edit_def t_partial_def
  t_commit_def t_undo_def t_redo_def fits_doc_def

lemma pending_timeline: "pending (timeline_of X h r) = None \<longleftrightarrow> partial h = None"
  by (simp add: timeline_of_def)

lemma versions_eq_Nil [simp]: "versions X as r = [] \<longleftrightarrow> as = []"
  by (cases "(X, as, r)" rule: versions.cases) auto

lemma versions_eq_Cons:
  "versions X as r = (doc, s) # vs \<longleftrightarrow>
     (\<exists>a as'. as = (a, s) # as' \<and> doc = delta_apply X (delta a) r \<and> vs = versions X as' doc)"
  by (cases "(X, as, r)" rule: versions.cases) auto

context xi_rope
begin

lemma invert_step:
  assumes "base_len X (delta a) = length r"
  shows "base_len X (delta (invert X a r)) = length (delta_apply X (delta a) r)"
    and "delta_apply X (delta (invert X a r)) (delta_apply X (delta a) r) = r"
  using invert_takes [of a r] assms by (auto simp: takes_def)

lemma partial_step:
  assumes "history_ok X h r" "base_len X d = length r"
  shows "\<exists>a v. partial (perform_partial X r d s h) = Some (a, v) \<and>
    base_len X (delta a) = length (delta_apply X d r) \<and>
    delta_apply X (delta a) (delta_apply X d r) = settled X h r \<and>
    v = (case partial h of None \<Rightarrow> s | Some p \<Rightarrow> snd p)"
proof -
  let ?i = "invert X (from_delta d) r" and ?r = "delta_apply X d r"
  have i: "takes X (delta ?i) ?r r"
    using assms(2) by (intro invert_takes) (simp add: takes_def from_delta_def)
  show ?thesis
  proof (cases "partial h")
    case None
    with i show ?thesis by (simp add: perform_partial_def settled_def takes_def)
  next
    case (Some p)
    obtain a s' where p: "p = (a, s')" by (cases p)
    with Some assms have "takes X (delta a) r (settled X h r)"
      by (simp add: history_ok_def settled_def takes_def)
    from chain_takes [OF i this] Some p show ?thesis
      by (simp add: perform_partial_def takes_def)
  qed
qed

lemma partial_stacks:
  "undo_stack (perform_partial X r d s h) = undo_stack h"
  "redo_stack (perform_partial X r d s h) = redo_stack h"
  by (simp_all add: perform_partial_def Let_def)

end

sublocale xi_rope \<subseteq> hist: undo_history "delta_apply X" "fits_doc X" "history_ok X" "timeline_of X"
  "perform_final X" "perform_partial X" commit_partial "undo X" "redo X"
proof
  fix h r d s
  show "present (timeline_of X h r) = r" by (simp add: timeline_of_def)
  assume h: "history_ok X h r"
  show "history_ok X (commit_partial h) r"
    and "timeline_of X (commit_partial h) r = t_commit (timeline_of X h r)"
    using h by (auto simp: timeline_defs commit_partial_def split: option.splits)
  assume d: "fits_doc X d r"
  note step = invert_step [of "from_delta d" r, unfolded from_delta_def action.select_convs]
  show "history_ok X (perform_final X r d s h) (delta_apply X d r)"
    and "timeline_of X (perform_final X r d s h) (delta_apply X d r) =
      t_edit (delta_apply X d r) s (timeline_of X h r)"
    if "pending (timeline_of X h r) = None"
    using that h d step by (simp_all add: pending_timeline perform_final_def timeline_defs from_delta_def)
  obtain a v where p: "partial (perform_partial X r d s h) = Some (a, v)"
    "base_len X (delta a) = length (delta_apply X d r)"
    "delta_apply X (delta a) (delta_apply X d r) = settled X h r"
    "v = (case partial h of None \<Rightarrow> s | Some p \<Rightarrow> snd p)"
    using partial_step [OF h, of d s] d by (auto simp: fits_doc_def)
  have same: "settled X (perform_partial X r d s h) (delta_apply X d r) = settled X h r"
    using p by (simp add: settled_def)
  show "history_ok X (perform_partial X r d s h) (delta_apply X d r)"
    using h p unfolding history_ok_def same by (simp add: partial_stacks)
  show "timeline_of X (perform_partial X r d s h) (delta_apply X d r) =
      t_partial (delta_apply X d r) s (timeline_of X h r)"
    using p unfolding timeline_of_def same
    by (auto simp: t_partial_def partial_stacks settled_def split: option.splits)
next
  fix h r s
  show "undo X r s h = (None, h)" if "past (timeline_of X h r) = []"
    using that by (simp add: timeline_of_def undo_def)
  show "redo X r s h = (None, h)" if "future (timeline_of X h r) = []"
    using that by (simp add: timeline_of_def redo_def)
next
  fix h r doc old vs s
  assume h: "history_ok X h r" and n: "pending (timeline_of X h r) = None"
    and p: "past (timeline_of X h r) = (doc, old) # vs"
  from n p obtain a as where u: "undo_stack h = rev as @ [(a, old)]" "doc = delta_apply X (delta a) r"
    "vs = versions X as doc"
    by (auto simp: timeline_of_def settled_def versions_eq_Cons pending_timeline rev_swap)
  with h n have len: "base_len X (delta a) = length r" by (simp add: history_ok_def pending_timeline settled_def)
  from u h n invert_step [OF len] p
  show "\<exists>d h'. undo X r s h = (Some (d, old), h') \<and> fits_doc X d r \<and> delta_apply X d r = doc \<and>
      history_ok X h' doc \<and> timeline_of X h' doc = t_undo s (timeline_of X h r)"
    by (simp add: undo_def pending_timeline timeline_defs)
next
  fix h r doc old vs s
  assume h: "history_ok X h r" and n: "pending (timeline_of X h r) = None"
    and p: "future (timeline_of X h r) = (doc, old) # vs"
  from n p obtain a as where u: "redo_stack h = rev as @ [(a, old)]" "doc = delta_apply X (delta a) r"
    "vs = versions X as doc"
    by (auto simp: timeline_of_def settled_def versions_eq_Cons pending_timeline rev_swap)
  with h n have len: "base_len X (delta a) = length r" by (simp add: history_ok_def pending_timeline settled_def)
  from u h n invert_step [OF len] p
  show "\<exists>d h'. redo X r s h = (Some (d, old), h') \<and> fits_doc X d r \<and> delta_apply X d r = doc \<and>
      history_ok X h' doc \<and> timeline_of X h' doc = t_redo s (timeline_of X h r)"
    by (simp add: redo_def pending_timeline timeline_defs)
qed

context xi_rope
begin

lemma committed_run:
  assumes "history_ok X h r" "partial h = None"
    "run_fits (delta_apply X) (fits_doc X) ((d, s) # es) r"
    "partial_run (perform_partial X) (delta_apply X) ((d, s) # es) h r = (h', r')"
  shows "history_ok X (commit_partial h') r' \<and>
    timeline_of X (commit_partial h') r' = t_edit r' s (timeline_of X h r)"
  using hist.partial_run_commit [OF assms(1,3) _ assms(4)] assms(2) by (simp add: pending_timeline)

end

end
