(* ===== verification/Xi_Reference.thy ===== *)
theory Xi_Reference
  imports Xi_Rope
begin

text \<open>
  An executable implementation of the xi-rope interface, over the representation its documentation
  describes: a delta is, for every element of the base, the text inserted in front of it and whether
  it is deleted, and a final text. It shows that the contract of Xi_Rope can be met, and it is the
  instance on which the witnesses of the development evaluate.
\<close>

type_synonym ref_delta = "(bytes \<times> bool) list \<times> bytes"
type_synonym ref_builder = "nat \<times> edits"

definition ref_del :: "ref_delta \<Rightarrow> bool list" where
  "ref_del d = map snd (fst d)"

definition ref_ins :: "ref_delta \<Rightarrow> bytes list" where
  "ref_ins d = gather (map fst (fst d) @ [snd d]) (map snd (fst d))"

definition ref_apply :: "ref_delta \<Rightarrow> bytes \<Rightarrow> bytes" where
  "ref_apply d r = weave (ref_ins d) (outside (ref_del d) r)"

fun scatter :: "bool list \<Rightarrow> bytes list \<Rightarrow> ref_delta" where
  "scatter [] ts = ([], concat ts)"
| "scatter (True # m) ts = (let (es, l) = scatter m ts in (([], True) # es, l))"
| "scatter (False # m) [] = (let (es, l) = scatter m [] in (([], False) # es, l))"
| "scatter (False # m) (t # ts) = (let (es, l) = scatter m ts in ((t, False) # es, l))"

definition ref_of_edits :: "nat \<Rightarrow> edits \<Rightarrow> ref_delta" where
  "ref_of_edits n es = scatter (edit_mask 0 n es) (edit_texts 0 n es)"

definition ref_replace :: "ref_builder \<Rightarrow> interval \<Rightarrow> bytes \<Rightarrow> ref_builder outcome" where
  "ref_replace bl iv t =
     (if edits_end (snd bl) \<le> istart iv then Inr (fst bl, snd bl @ [(istart iv, iend iv, t)])
      else Inl IntervalsNotSorted)"

fun ref_synthesize :: "bytes \<Rightarrow> bool list \<Rightarrow> bool list \<Rightarrow> bytes \<Rightarrow> ref_delta" where
  "ref_synthesize ts (True # f) (True # t) pending = ref_synthesize (tl ts) f t pending"
| "ref_synthesize ts (True # f) (False # t) pending =
     ref_synthesize (tl ts) f t (pending @ take 1 ts)"
| "ref_synthesize ts (False # f) (b # t) pending =
     (let (es, l) = ref_synthesize ts f t [] in ((pending, b) # es, l))"
| "ref_synthesize ts f t pending = ([], pending)"

fun ref_insert_expand :: "bytes list \<Rightarrow> bool list \<Rightarrow> (bytes \<times> bool) list" where
  "ref_insert_expand ts [] = []"
| "ref_insert_expand ts (True # m) = ([], False) # ref_insert_expand ts m"
| "ref_insert_expand (t # ts) (False # m) = (t, False) # ref_insert_expand ts m"
| "ref_insert_expand [] (False # m) = ([], False) # ref_insert_expand [] m"

definition ref_transform :: "ref_delta \<Rightarrow> nat \<Rightarrow> nat" where
  "ref_transform d ix =
     (let k = survivors (take ix (ref_del d)) in length (concat (take (Suc k) (ref_ins d))) + k)"

definition ref_xi :: "(ref_delta, bool list, ref_builder) xi" where
  "ref_xi = \<lparr>
     interval_is_empty = (\<lambda>iv. iend iv \<le> istart iv),
     interval_contains = (\<lambda>iv v. istart iv \<le> v \<and> v < iend iv),
     interval_union = (\<lambda>a b. \<lparr>istart = min (istart a) (istart b), iend = max (iend a) (iend b)\<rparr>),
     interval_intersect = (\<lambda>a b. \<lparr>istart = max (istart a) (istart b), iend = min (iend a) (iend b)\<rparr>),
     interval_inclusive = (\<lambda>lo hi. \<lparr>istart = lo, iend = hi + 1\<rparr>),
     builder_new = (\<lambda>n. (n, [])),
     builder_delete = (\<lambda>bl iv. ref_replace bl iv []),
     builder_replace = ref_replace,
     builder_build = (\<lambda>(n, es). ref_of_edits n es),
     delta_simple_edit = (\<lambda>iv t n. ref_of_edits n [(istart iv, iend iv, t)]),
     delta_apply = ref_apply,
     delta_new_document_len = (\<lambda>d. length (concat (ref_ins d)) + survivors (ref_del d)),
     delta_factor = (\<lambda>d. ((map (\<lambda>(t, b). (t, False)) (fst d), snd d), ref_del d)),
     delta_synthesize = (\<lambda>tombstones from_dels to_dels. ref_synthesize tombstones from_dels to_dels []),
     insert_inserted_subset = (\<lambda>i. inserted_mask (ref_ins i)),
     insert_transform_expand = (\<lambda>i e after. (ref_insert_expand (map fst (fst i)) e, snd i)),
     transformer_transform = (\<lambda>d ix after. ref_transform d ix),
     subset_delete_from = outside,
     subset_complement = map Not,
     subset_union = map2 (\<or>),
     subset_transform_expand = expand,
     subset_transform_union = (\<lambda>e e'. map2 (\<or>) (expand e e') e'),
     subset_transform_shrink = (\<lambda>e e'. outside e' e),
     subset_is_empty = (\<lambda>e. True \<notin> set e),
     delta_del = ref_del,
     delta_ins = ref_ins,
     subset_mask = (\<lambda>e. e),
     builder_base = fst,
     builder_edits = snd\<rparr>"

lemma scatter_view:
  "length ts = Suc (survivors m) \<Longrightarrow> ref_del (scatter m ts) = m \<and> ref_ins (scatter m ts) = ts"
proof (induction m ts rule: scatter.induct)
  case (1 ts)
  then show ?case by (auto simp: ref_del_def ref_ins_def length_Suc_conv)
qed (auto simp: ref_del_def ref_ins_def Let_def split: prod.splits list.splits)

lemma length_edit_texts:
  "edits_ok off n es \<Longrightarrow> length (edit_texts off n es) = Suc (survivors (edit_mask off n es))"
  by (induction off n es rule: edit_mask.induct) (auto split: list.splits)

lemma ref_apply_Nil [simp]: "ref_apply ([], l) [] = l"
  by (simp add: ref_apply_def ref_ins_def ref_del_def)

lemma ref_apply_Cons [simp]:
  "ref_apply ((t, b) # es, l) (x # xs) = t @ (if b then [] else [x]) @ ref_apply (es, l) xs"
  by (simp add: ref_apply_def ref_ins_def ref_del_def weave_prefix)

lemma ref_synthesize_view:
  assumes "length u = length f" "length u = length t"
  shows "length (fst (ref_synthesize (keep f u) f t p)) = survivors f \<and>
    ref_apply (ref_synthesize (keep f u) f t p) (outside f u) = p @ outside t u"
  using assms
proof (induction f arbitrary: u t p)
  case Nil
  then show ?case by simp
next
  case (Cons b f)
  then obtain x u' c t' where ut: "u = x # u'" "t = c # t'" by (metis length_Suc_conv)
  with Cons.prems have len: "length u' = length f" "length u' = length t'" by auto
  show ?case
  proof (cases b)
    case True
    with Cons.IH [OF len] show ?thesis by (cases c) (simp_all add: ut)
  next
    case False
    with Cons.IH [OF len, of "[]"] show ?thesis
      by (auto simp: ut split: prod.splits)
  qed
qed

lemma ref_insert_expand_view:
  assumes "survivors m = length ts"
  shows "map snd (ref_insert_expand ts m) = replicate (length m) False"
    and "gather (map fst (ref_insert_expand ts m) @ [l]) m = ts @ [l]"
  using assms
  by (induction ts m rule: ref_insert_expand.induct) (auto simp: length_Suc_conv split: list.splits)

lemma ref_insert_only:
  "map snd es = replicate (length es) False \<Longrightarrow> ref_ins (es, l) = map fst es @ [l]"
  unfolding ref_ins_def by (simp add: gather_keep_all)

interpretation ref: xi_rope ref_xi
proof
  fix d i :: ref_delta and e :: "bool list" and r :: bytes
  assume f: "delta_factor ref_xi d = (i, e)" and r: "length r = length (delta_del ref_xi d)"
  from f have i: "i = (map (\<lambda>(t, b). (t, False)) (fst d), snd d)" by (simp add: ref_xi_def)
  have "map snd (fst i) = replicate (length (fst d)) False" unfolding i by (simp add: comp_def case_prod_unfold map_replicate_const)
  moreover have "map fst (fst i) = map fst (fst d)" unfolding i by auto
  ultimately have ins: "ref_ins i = map fst (fst d) @ [snd d]" "ref_del i = replicate (length (fst d)) False"
    using ref_insert_only [of "fst i" "snd i"] i by (auto simp: ref_del_def)
  have "ref_apply i r = weave (ref_ins i) r"
    using r ins(2) by (simp add: ref_apply_def) (simp add: ref_xi_def ref_del_def)
  then show "outside (expand (delta_del ref_xi d) (inserted_mask (delta_ins ref_xi i)))
      (delta_apply ref_xi i r) = delta_apply ref_xi d r"
    using outside_expand_inserted [of "map fst (fst d) @ [snd d]" "ref_del d" r] r ins(1)
    by (simp add: ref_xi_def ref_apply_def) (simp add: ref_ins_def ref_del_def)
next
  fix i :: ref_delta and e :: "bool list"
  assume "insert_only ref_xi i" "survivors (subset_mask ref_xi e) = length (delta_del ref_xi i)"
  then show "delta_del ref_xi (insert_transform_expand ref_xi i e True) =
        replicate (length (subset_mask ref_xi e)) False \<and>
      gather (delta_ins ref_xi (insert_transform_expand ref_xi i e True)) (subset_mask ref_xi e) =
        delta_ins ref_xi i"
    using ref_insert_expand_view [of e "map fst (fst i)"] ref_insert_only [of "fst i" "snd i"]
      ref_insert_only [of "ref_insert_expand (map fst (fst i)) e" "snd i"]
    by (auto simp: ref_xi_def insert_only_def ref_del_def) (metis length_map length_replicate)+
next
  fix u :: bytes and fr to :: "bool list"
  assume "length u = length (subset_mask ref_xi fr)" "length u = length (subset_mask ref_xi to)"
  then show "length (delta_del ref_xi (delta_synthesize ref_xi (keep (subset_mask ref_xi fr) u) fr to)) =
        survivors (subset_mask ref_xi fr) \<and>
      delta_apply ref_xi (delta_synthesize ref_xi (keep (subset_mask ref_xi fr) u) fr to)
        (outside (subset_mask ref_xi fr) u) = outside (subset_mask ref_xi to) u"
    using ref_synthesize_view [of u fr to "[]"] by (simp add: ref_xi_def ref_del_def)
next
  fix bl :: ref_builder
  assume "edits_ok 0 (builder_base ref_xi bl) (builder_edits ref_xi bl)"
  then show "delta_del ref_xi (builder_build ref_xi bl) =
        edit_mask 0 (builder_base ref_xi bl) (builder_edits ref_xi bl) \<and>
      delta_ins ref_xi (builder_build ref_xi bl) =
        edit_texts 0 (builder_base ref_xi bl) (builder_edits ref_xi bl)"
    using scatter_view [OF length_edit_texts]
    by (auto simp: ref_xi_def ref_of_edits_def split: prod.splits)
next
  fix n :: nat and iv :: interval and t :: bytes
  assume "edits_ok 0 n [(istart iv, iend iv, t)]"
  from scatter_view [OF length_edit_texts [OF this]]
  show "delta_del ref_xi (delta_simple_edit ref_xi iv t n) = edit_mask 0 n [(istart iv, iend iv, t)] \<and>
      delta_ins ref_xi (delta_simple_edit ref_xi iv t n) = edit_texts 0 n [(istart iv, iend iv, t)]"
    by (simp add: ref_xi_def ref_of_edits_def)
next
  fix d i :: ref_delta and e :: "bool list"
  assume "delta_factor ref_xi d = (i, e)"
  then show "delta_del ref_xi i = replicate (length (delta_del ref_xi d)) False \<and>
      subset_mask ref_xi e = delta_del ref_xi d"
    by (auto simp: ref_xi_def ref_del_def intro!: nth_equalityI split: prod.splits)
qed (auto simp: ref_xi_def ref_replace_def length_gather ref_ins_def ref_del_def ref_apply_def
    ref_transform_def)

end
