(* ===== verification/Edit_Props.thy ===== *)
theory Edit_Props
  imports Operations Timeline Xi_Reference Selection_Props
begin

text \<open>
  What the edit operations and the history do, for every xi-rope that meets its contract. The
  witnesses evaluate on the executable reference of Xi_Reference.
\<close>

section \<open>Examples\<close>

definition two_carets :: selection where
  "two_carets = \<lparr>regions = [\<lparr>caret = 1, tail = 2, main = True\<rparr>, \<lparr>caret = 4, tail = 4, main = False\<rparr>],
     main_selection = 0\<rparr>"

definition abcdef :: bytes where
  "abcdef = [97, 98, 99, 100, 101, 102]"

lemma two_carets_ok: "wf_selection two_carets" "in_bounds (length abcdef) two_carets"
  by (simp_all add: two_carets_def abcdef_def wf_selection_def before_def in_bounds_def region_defs)

lemma two_carets_spans: "spans (regions two_carets) = {1, 2, 4}" "carets two_carets = {1, 4}"
  by (auto simp: two_carets_def span_def region_defs carets_def)

section \<open>Operations\<close>

lemma edited_deletion: "edited base (\<lambda>_. []) del = nths base {i. \<not> del i}"
proof (induction base rule: rev_induct)
  case (snoc x base)
  have "concat (map (\<lambda>i. if del i then [] else [(base @ [x]) ! i]) [0..<length base]) =
      concat (map (\<lambda>i. if del i then [] else [base ! i]) [0..<length base])"
    by (intro arg_cong [where f = concat] map_cong) (auto simp: nth_append)
  with snoc show ?case by (simp add: edited_def nths_append)
qed (simp add: edited_def)

text \<open>C7: Deleting (the \<open>d\<close> key's \<open>operations::deletion\<close>) never panics in the delta builder, and the
  delta it builds removes from the buffer exactly the bytes under the regions of the selection.\<close>

theorem deletion_exact:
  assumes "xi_rope X" "wf_selection sel" "in_bounds (length base) sel"
  shows "\<exists>d. deletion X base sel = Inr d \<and> base_len X d = length base \<and>
    delta_apply X d base = nths base {i. i \<notin> spans (regions sel)}"
  using does_edit_result [OF xi_rope.deletion_does [OF assms]] edited_deletion by metis

theorem deletion_exact_witness:
  "\<exists>d. deletion ref_xi abcdef two_carets = Inr d \<and> base_len ref_xi d = length abcdef \<and>
    delta_apply ref_xi d abcdef = nths abcdef {i. i \<notin> spans (regions two_carets)}"
  by (rule deletion_exact) (simp_all add: ref.xi_rope_axioms two_carets_ok)

text \<open>C9: Replacing (\<open>operations::replace\<close>) overwrites every selected byte in place: the document keeps
  its length, except that a cursor on the position past the last byte appends one byte.\<close>

theorem replace_exact:
  assumes "xi_rope X" "wf_selection sel" "in_bounds (length base) sel"
  shows "\<exists>d. replace X base sel ch = Inr d \<and> base_len X d = length base \<and>
    delta_apply X d base = map (\<lambda>i. if i \<in> spans (regions sel) then ch else base ! i) [0..<length base]
      @ (if length base \<in> spans (regions sel) then [ch] else [])"
  using does_edit_result [OF xi_rope.replace_does(1) [OF assms, of ch]] xi_rope.replace_does(2) [OF assms, of ch]
  unfolding overwritten_def by metis

theorem replace_exact_witness:
  "\<exists>d. replace ref_xi abcdef two_carets 0 = Inr d \<and> base_len ref_xi d = length abcdef \<and>
    delta_apply ref_xi d abcdef =
      map (\<lambda>i. if i \<in> spans (regions two_carets) then 0 else abcdef ! i) [0..<length abcdef]
      @ (if length abcdef \<in> spans (regions two_carets) then [0] else [])"
  by (rule replace_exact) (simp_all add: ref.xi_rope_axioms two_carets_ok)

text \<open>C8: Inserting a text (\<open>operations::insert\<close>) puts it in front of every caret and nowhere else, and
  deletes nothing; overwriting with a text (\<open>operations::change\<close>) does the same and deletes the byte
  under every caret.\<close>

theorem insert_change_exact:
  assumes "xi_rope X" "wf_selection sel" "in_bounds (length base) sel"
  shows "\<exists>d d'. insert_text X base sel t = Inr d \<and> change X base sel t = Inr d' \<and>
    delta_apply X d base = edited base (\<lambda>i. if i \<in> carets sel then t else []) (\<lambda>_. False) \<and>
    delta_apply X d' base = edited base (\<lambda>i. if i \<in> carets sel then t else []) (\<lambda>i. i \<in> carets sel)"
proof -
  obtain d where "insert_text X base sel t = Inr d"
    "delta_apply X d base = edited base (\<lambda>i. if i \<in> carets sel then t else []) (\<lambda>_. False)"
    using does_edit_result [OF xi_rope.insert_text_does [OF assms]] by metis
  moreover obtain d' where "change X base sel t = Inr d'"
    "delta_apply X d' base = edited base (\<lambda>i. if i \<in> carets sel then t else []) (\<lambda>i. i \<in> carets sel)"
    using does_edit_result [OF xi_rope.change_does [OF assms]] by metis
  ultimately show ?thesis by blast
qed

theorem insert_change_exact_witness:
  "\<exists>d d'. insert_text ref_xi abcdef two_carets [0, 1] = Inr d \<and> change ref_xi abcdef two_carets [0, 1] = Inr d' \<and>
    delta_apply ref_xi d abcdef = [97, 0, 1, 98, 99, 100, 0, 1, 101, 102] \<and>
    delta_apply ref_xi d' abcdef = [97, 0, 1, 99, 100, 0, 1, 102]"
  using insert_change_exact [OF ref.xi_rope_axioms two_carets_ok, of "[0, 1]"]
  by (simp add: edited_def two_carets_spans abcdef_def)

text \<open>C10: Pasting (\<open>operations::paste\<close>) from a register with at least one entry never panics and only
  inserts: at each region its own register entry (the last one for regions beyond the register),
  \<open>count\<close> times, behind the region or in front of it, the document being unchanged elsewhere.\<close>

theorem paste_exact:
  assumes "xi_rope X" "wf_selection sel" "in_bounds (length base) sel" "contents \<noteq> []"
  shows "\<exists>d. paste X base sel contents after count = Inr d \<and>
    delta_apply X d base = edited base
      (ins_at (map (\<lambda>(r, t). let p = if after then min (length base) (region_max r + 1) else region_min r
                             in (p, p, concat (replicate count t)))
                (zip (regions sel) (contents @ replicate (length (regions sel)) (last contents)))))
      (\<lambda>_. False)"
proof -
  obtain d where "paste X base sel contents after count = Inr d"
    "delta_apply X d base = edited base
      (ins_at (paste_edits (length base) (regions sel) contents after count)) (\<lambda>_. False)"
    using does_edit_result [OF xi_rope.paste_does [OF assms, of after count]] by metis
  then show ?thesis unfolding paste_edits_def paste_edit_def by blast
qed

theorem paste_exact_witness:
  "\<exists>d. paste ref_xi abcdef two_carets [[0]] True 2 = Inr d \<and>
    delta_apply ref_xi d abcdef = [97, 98, 99, 0, 0, 100, 101, 0, 0, 102]"
  using paste_exact [OF ref.xi_rope_axioms two_carets_ok, of "[[0]]" True 2]
  by (simp add: edited_def two_carets_def abcdef_def ins_at_def Let_def region_defs numeral_eq_Suc)

section \<open>History\<close>

text \<open>C5: \<open>Action::invert\<close> is a true inverse: the inverted delta applies to the document the delta
  produced and gives the original document back, whatever the delta inserts and deletes.\<close>

theorem invert_roundtrip:
  assumes "xi_rope X" "base_len X (delta a) = length r"
  shows "base_len X (delta (invert X a r)) = length (delta_apply X (delta a) r) \<and>
    delta_apply X (delta (invert X a r)) (delta_apply X (delta a) r) = r"
  using xi_rope.invert_takes [OF assms(1), of a r] assms(2) by (simp add: takes_def)

theorem invert_roundtrip_witness:
  "base_len ref_xi (delta (invert ref_xi \<lparr>delta = ([([7], True), ([], False)], [8])\<rparr> [1, 2])) =
     length (delta_apply ref_xi (delta \<lparr>delta = ([([7], True), ([], False)], [8])\<rparr>) [1, 2]) \<and>
   delta_apply ref_xi (delta (invert ref_xi \<lparr>delta = ([([7], True), ([], False)], [8])\<rparr> [1, 2])) [7, 2, 8] = [1, 2]"
proof -
  have len: "base_len ref_xi (delta \<lparr>delta = ([([7], True), ([], False)], [8])\<rparr>) = length [1, 2 :: u8]"
    by (simp add: base_len_def ref_xi_def ref_del_def)
  have "delta_apply ref_xi (delta \<lparr>delta = ([([7], True), ([], False)], [8])\<rparr>) [1, 2] = [7, 2, 8]"
    by (simp add: ref_xi_def)
  with invert_roundtrip [OF ref.xi_rope_axioms len] show ?thesis by simp
qed

text \<open>C4: \<open>Action::chain\<close> composes: for an action from \<open>r0\<close> to \<open>r1\<close> and a delta from \<open>r1\<close> to \<open>r2\<close>,
  the chained action goes from \<open>r0\<close> to \<open>r2\<close> in one delta, also when the second delta deletes what
  the first inserted or inserts inside what it deleted.\<close>

theorem chain_composes:
  assumes "xi_rope X" "base_len X (delta a) = length r0" "base_len X nxt = length (delta_apply X (delta a) r0)"
  shows "base_len X (delta (chain X a (delta_apply X (delta a) r0) nxt)) = length r0 \<and>
    delta_apply X (delta (chain X a (delta_apply X (delta a) r0) nxt)) r0 =
       delta_apply X nxt (delta_apply X (delta a) r0)"
  using xi_rope.chain_takes [OF assms(1), of a r0 "delta_apply X (delta a) r0" nxt] assms(2,3)
  by (simp add: takes_def)

theorem chain_composes_witness:
  "delta_apply ref_xi (delta (chain ref_xi \<lparr>delta = ([([7, 9], True), ([], False)], [])\<rparr> [7, 9, 2]
      ([([], True), ([5], False), ([], True)], [6]))) [1, 2] = [5, 9, 6]"
proof -
  let ?a = "\<lparr>delta = ([([7, 9], True), ([], False)], [])\<rparr> :: ref_delta action"
  let ?d = "([([], True), ([5], False), ([], True)], [6]) :: ref_delta"
  have r1: "delta_apply ref_xi (delta ?a) [1, 2] = [7, 9, 2]" by (simp add: ref_xi_def)
  have "base_len ref_xi (delta ?a) = length [1, 2 :: u8]" "base_len ref_xi ?d = length [7, 9, 2 :: u8]"
    by (simp_all add: base_len_def ref_xi_def ref_del_def)
  from chain_composes [OF ref.xi_rope_axioms this(1), of ?d] this r1
  show ?thesis by (simp add: ref_xi_def)
qed

text \<open>C6: A run of partial edits (the keys of insert mode), each chained onto the one before, is one
  edit once committed: the history fits the final document, its past is the document and selection
  the run began with in front of the old past, and nothing is left to redo.\<close>

theorem partial_run_is_one_edit:
  assumes "xi_rope X" "history_ok X h r" "partial h = None"
    "run_fits (delta_apply X) (fits_doc X) ((d, s) # es) r"
    "partial_run (perform_partial X) (delta_apply X) ((d, s) # es) h r = (h', r')"
  shows "history_ok X (commit_partial h') r' \<and>
    timeline_of X (commit_partial h') r' = t_edit r' s (timeline_of X h r)"
  by (rule xi_rope.committed_run [OF assms])

theorem partial_run_is_one_edit_witness:
  "timeline_of ref_xi (commit_partial (fst (partial_run (perform_partial ref_xi) (delta_apply ref_xi)
      [(([([7], False)], []), selection_new), (([([], True), ([], False)], [8]), selection_new)] history_new [1]))) [1, 8] =
    t_edit [1, 8] selection_new (timeline_of ref_xi history_new [1])"
proof -
  let ?es = "[(([([], True), ([], False)], [8]), selection_new)] :: (ref_delta \<times> selection) list"
  let ?d = "([([7], False)], []) :: ref_delta"
  obtain h' r' where run: "partial_run (perform_partial ref_xi) (delta_apply ref_xi)
      ((?d, selection_new) # ?es) history_new [1] = (h', r')"
    by (cases "partial_run (perform_partial ref_xi) (delta_apply ref_xi) ((?d, selection_new) # ?es) history_new [1]")
  have r': "r' = [1, 8]" using run by (auto simp: ref_xi_def)
  have "history_ok ref_xi (commit_partial h') r' \<and> timeline_of ref_xi (commit_partial h') r' = t_edit r' selection_new (timeline_of ref_xi history_new [1])"
    by (rule partial_run_is_one_edit [OF ref.xi_rope_axioms _ _ _ run])
       (simp_all add: history_ok_def history_new_def settled_def fits_doc_def base_len_def, simp add: ref_xi_def ref_del_def)
  with run r' show ?thesis by simp
qed

end
