(* ===== verification/Selection_Delta.thy ===== *)
theory Selection_Delta
  imports Xi_Rope Region_Moves
begin

text \<open>
  How a selection follows an edit: \<open>Selection::apply_delta\<close> and
  \<open>Selection::apply_delta_offset_carets\<close> (src/selection.rs). Both carry carets and tails through
  the delta with xi-rope's \<open>Transformer\<close>. The locale \<open>carrying\<close> is what that transformer offers
  (it is monotone and stays inside the new document); \<open>strict_carrying\<close> adds that distinct
  positions stay distinct, which holds when the delta only inserts.
\<close>

definition selection_apply_delta ::
    "('d, 's, 'b) xi \<Rightarrow> 'd \<Rightarrow> nat \<Rightarrow> selection \<Rightarrow> selection outcome" where
  "selection_apply_delta X d max_len s =
     (let new_max_len = delta_new_document_len X d
      in if new_max_len = 0 then Inr (clear s)
         else and_then
           (map_selections (single (\<lambda>region.
              region_new
                (if max_len = caret region then new_max_len
                 else min new_max_len (transformer_transform X d (caret region) True))
                (if max_len = tail region then new_max_len
                 else min new_max_len (transformer_transform X d (tail region) True)))) () s)
           (\<lambda>(s', _). Inr s'))"

definition selection_apply_delta_offset_carets ::
    "('d, 's, 'b) xi \<Rightarrow> 'd \<Rightarrow> int \<Rightarrow> int \<Rightarrow> nat \<Rightarrow> selection \<Rightarrow> selection outcome" where
  "selection_apply_delta_offset_carets X d caret_offset tail_offset max_len s =
     (let new_max_len = delta_new_document_len X d
      in if new_max_len = 0 then Inr (clear s)
         else and_then
           (map_selections (single (\<lambda>region.
              region_new
                (if max_len = caret region
                 then as_usize (isize_wrap (as_isize new_max_len + caret_offset))
                 else min new_max_len (as_usize (isize_wrap
                        (as_isize (transformer_transform X d (caret region) True) + caret_offset))))
                (if max_len = tail region
                 then as_usize (isize_wrap (as_isize new_max_len + tail_offset))
                 else min new_max_len (as_usize (isize_wrap
                        (as_isize (transformer_transform X d (tail region) True) + tail_offset)))))) () s)
           (\<lambda>(s', _). Inr s'))"

section \<open>Directions\<close>

definition all_backward :: "selection \<Rightarrow> bool" where
  "all_backward s \<longleftrightarrow> (\<forall>r\<in>set (regions s). backward r)"

definition all_forward :: "selection \<Rightarrow> bool" where
  "all_forward s \<longleftrightarrow> (\<forall>r\<in>set (regions s). forward r)"

text \<open>Merging keeps a direction that both regions have, so a mapped selection has it too.\<close>

definition merge_closed :: "(sel_region \<Rightarrow> bool) \<Rightarrow> bool" where
  "merge_closed D \<longleftrightarrow> (\<forall>a b m. D a \<longrightarrow> D b \<longrightarrow> merge_region a b = Inr m \<longrightarrow> D m) \<and>
     (\<forall>a. D a \<longrightarrow> D (a\<lparr>main := True\<rparr>))"

lemma push_region_direction:
  assumes p: "push_region out r = Inr out'" and out: "\<forall>q\<in>set out. D q" and r: "D r"
    and D: "merge_closed D"
  shows "\<forall>q\<in>set out'. D q"
proof (cases "out = [] \<or> \<not> overlaps (last out) r")
  case True
  with p out r show ?thesis by (auto simp: push_region_def)
next
  case False
  with p obtain m where m: "merge_region (last out) r = Inr m" "out' = butlast out @ [m]"
    by (auto simp: push_region_def and_then_eq_Inr)
  moreover have "D (last out)" using out False by simp
  ultimately have "D m" using D r unfolding merge_closed_def by blast
  with m out show ?thesis by (auto dest: in_set_butlastD)
qed

lemma map_loop_direction:
  assumes "map_loop (single g) ms i rs () out nm = Inr ((out', nm'), st')"
    and "\<forall>q\<in>set out. D q" "\<forall>r\<in>set rs. D (g r)" and D: "merge_closed D"
  shows "\<forall>q\<in>set out'. D q"
  using assms(1-3)
proof (induction rs arbitrary: i out nm)
  case (Cons r rs)
  from Cons.prems(1) obtain out1 where p: "push_region out (g r) = Inr out1" and
    rest: "(if i = ms then if out1 = [] then Inl UnwrapNone
        else map_loop (single g) ms (Suc i) rs () (butlast out1 @ [(last out1)\<lparr>main := True\<rparr>]) (length out1 - 1)
      else map_loop (single g) ms (Suc i) rs () out1 nm) = Inr ((out', nm'), st')"
    by (auto simp: single_def [of g _ r] and_then_eq_Inr)
  have D1: "\<forall>q\<in>set out1. D q"
    using push_region_direction [OF p Cons.prems(2) _ D] Cons.prems(3) by simp
  have D2: "\<forall>q\<in>set (butlast out1 @ [(last out1)\<lparr>main := True\<rparr>]). D q" if "out1 \<noteq> []"
  proof -
    have "D (last out1)" using D1 that by simp
    then have "D ((last out1)\<lparr>main := True\<rparr>)" using D unfolding merge_closed_def by blast
    with D1 show ?thesis by (auto dest: in_set_butlastD)
  qed
  have rs: "\<forall>r\<in>set rs. D (g r)" using Cons.prems(3) by simp
  show ?case
  proof (cases "i = ms")
    case True
    with rest have ne: "out1 \<noteq> []" by auto
    with True rest have "map_loop (single g) ms (Suc i) rs ()
        (butlast out1 @ [(last out1)\<lparr>main := True\<rparr>]) (length out1 - 1) = Inr ((out', nm'), st')" by simp
    then show ?thesis by (rule Cons.IH [OF _ D2 [OF ne] rs])
  next
    case False
    with rest have "map_loop (single g) ms (Suc i) rs () out1 nm = Inr ((out', nm'), st')" by simp
    then show ?thesis by (rule Cons.IH [OF _ D1 rs])
  qed
qed auto

lemma map_selections_direction:
  assumes "map_selections (single g) () s = Inr (s', ())"
    and "\<forall>r\<in>set (regions s). D (g r)" "merge_closed D"
  shows "\<forall>r\<in>set (regions s'). D r"
proof -
  from assms(1) obtain out nm where
    l: "map_loop (single g) (main_selection s) 0 (regions s) () [] 0 = Inr ((out, nm), ())"
    and s': "s' = \<lparr>regions = out, main_selection = nm\<rparr>"
    by (auto simp: map_selections_def and_then_eq_Inr)
  show ?thesis
    unfolding s' using map_loop_direction [OF l _ assms(2,3)] by simp
qed

lemma merge_closed_backward: "merge_closed backward"
  by (auto simp: merge_closed_def merge_region_def Let_def and_then_eq_Inr region_defs split: if_splits)

lemma merge_closed_forward: "merge_closed forward"
  by (auto simp: merge_closed_def merge_region_def Let_def and_then_eq_Inr region_defs split: if_splits)

section \<open>Carrying positions through an edit\<close>

definition carried :: "(nat \<Rightarrow> nat) \<Rightarrow> sel_region \<Rightarrow> sel_region" where
  "carried T r = region_new (T (caret r)) (T (tail r))"

locale carrying =
  fixes T :: "nat \<Rightarrow> nat" and n m :: nat
  assumes mono: "x \<le> y \<Longrightarrow> y \<le> n \<Longrightarrow> T x \<le> T y"
    and top_pos: "T n = m"
begin

lemma bound: "x \<le> n \<Longrightarrow> T x \<le> m"
  using mono [of x n] top_pos by simp

lemma carried_mono:
  assumes "within n a" "within n b" "before a b"
  shows "T (caret a) \<le> T (caret b)" "T (caret a) \<le> T (tail b)"
    "T (tail a) \<le> T (caret b)" "T (tail a) \<le> T (tail b)"
  using assms by (auto simp: within_def before_def region_defs intro!: mono)

lemma carried_within: "within n r \<Longrightarrow> within m (carried T r)"
  by (simp add: within_def carried_def bound)

lemma carried_backward: "within n r \<Longrightarrow> backward r \<Longrightarrow> backward (carried T r)"
  by (simp add: carried_def within_def backward_def mono)

lemma carried_forward: "within n r \<Longrightarrow> forward r \<Longrightarrow> forward (carried T r)"
  by (simp add: carried_def within_def forward_def mono)

end

locale strict_carrying = carrying +
  assumes strict: "x < y \<Longrightarrow> y \<le> n \<Longrightarrow> T x < T y"

sublocale carrying \<subseteq> bwd: region_map "carried T" "\<lambda>r. within n r \<and> backward r"
proof
  fix a b assume P: "within n a \<and> backward a" "within n b \<and> backward b" "before a b"
  note le = carried_mono [of a b]
  show "region_min (carried T a) \<le> region_min (carried T b)"
    "region_max (carried T a) \<le> region_max (carried T b)"
    using P le by (auto simp: carried_def)
  show "before (carried T a) (carried T b)"
    if "strict_forward (carried T a)" using that P carried_backward [of a]
    by (simp add: strict_forward_def backward_def)
  show "before (carried T a) (carried T b)"
    if "strict_forward (carried T b)" using that P carried_backward [of b]
    by (simp add: strict_forward_def backward_def)
qed (simp add: carried_def)

sublocale carrying \<subseteq> fwd: region_map "carried T" "\<lambda>r. within n r \<and> forward r"
proof
  fix a b assume P: "within n a \<and> forward a" "within n b \<and> forward b" "before a b"
  note le = carried_mono [of a b]
  show "region_min (carried T a) \<le> region_min (carried T b)"
    "region_max (carried T a) \<le> region_max (carried T b)"
    using P le by (auto simp: carried_def)
  show "before (carried T a) (carried T b)"
    if "strict_backward (carried T b)" using that P carried_forward [of b]
    by (simp add: strict_backward_def forward_def)
  show "before (carried T a) (carried T b)"
    if "strict_backward (carried T a)" using that P carried_forward [of a]
    by (simp add: strict_backward_def forward_def)
qed (simp add: carried_def)

text \<open>Distinct positions stay distinct, so regions that did not touch still do not.\<close>

sublocale strict_carrying \<subseteq> all: region_map "carried T" "\<lambda>r. within n r"
proof
  fix a b assume P: "within n a" "within n b" "before a b"
  note le = carried_mono [OF P]
  show "region_min (carried T a) \<le> region_min (carried T b)"
    "region_max (carried T a) \<le> region_max (carried T b)"
    using le by (auto simp: carried_def)
  have "before (carried T a) (carried T b)"
    using P strict by (auto simp: carried_def before_def within_def region_defs)
  then show "before (carried T a) (carried T b)" "before (carried T a) (carried T b)" by auto
qed (simp add: carried_def)

text \<open>Regions whose two ends land on one position become cursors.\<close>

sublocale carrying \<subseteq> pts: region_map "carried T" "\<lambda>r. within n r \<and> T (caret r) = T (tail r)"
proof
  fix a b assume P: "within n a \<and> T (caret a) = T (tail a)" "within n b \<and> T (caret b) = T (tail b)"
    "before a b"
  note le = carried_mono [of a b]
  show "region_min (carried T a) \<le> region_min (carried T b)"
    "region_max (carried T a) \<le> region_max (carried T b)"
    using P le by (auto simp: carried_def)
  show "before (carried T a) (carried T b)" if "strict_forward (carried T a)"
    using that P by (simp add: carried_def strict_forward_def)
  show "before (carried T a) (carried T b)" if "strict_backward (carried T a)"
    using that P by (simp add: carried_def strict_backward_def)
qed (simp add: carried_def)

text \<open>The variant of the first digit of a byte: the caret steps back onto the new byte.\<close>

definition carried_back :: "(nat \<Rightarrow> nat) \<Rightarrow> sel_region \<Rightarrow> sel_region" where
  "carried_back T r = region_new (T (caret r) - 1) (T (tail r))"

sublocale carrying \<subseteq> bwd_back: region_map "carried_back T" "\<lambda>r. within n r \<and> backward r"
proof
  fix a b assume P: "within n a \<and> backward a" "within n b \<and> backward b" "before a b"
  note le = carried_mono [of a b] and ab = carried_backward [of a] carried_backward [of b]
  show "region_min (carried_back T a) \<le> region_min (carried_back T b)"
    "region_max (carried_back T a) \<le> region_max (carried_back T b)"
    using P le ab by (auto simp: carried_back_def carried_def backward_def)
  show "before (carried_back T a) (carried_back T b)"
    if "strict_forward (carried_back T a)" using that P ab
    by (auto simp: carried_back_def carried_def strict_forward_def backward_def)
  show "before (carried_back T a) (carried_back T b)"
    if "strict_forward (carried_back T b)" using that P ab
    by (auto simp: carried_back_def carried_def strict_forward_def backward_def)
qed (simp add: carried_back_def)

sublocale strict_carrying \<subseteq> all_back: region_map "carried_back T" "\<lambda>r. within n r \<and> 0 < T (caret r)"
proof
  fix a b assume P: "within n a \<and> 0 < T (caret a)" "within n b \<and> 0 < T (caret b)" "before a b"
  then have lt: "T (caret a) < T (caret b)" "T (caret a) < T (tail b)" "T (tail a) < T (caret b)"
    "T (tail a) < T (tail b)"
    by (auto simp: within_def before_def region_defs intro!: strict)
  show "region_min (carried_back T a) \<le> region_min (carried_back T b)"
    "region_max (carried_back T a) \<le> region_max (carried_back T b)"
    using lt P by (auto simp: carried_back_def)
  show "before (carried_back T a) (carried_back T b)"
    if "strict_forward (carried_back T a)" "strict_backward (carried_back T b)"
    using that lt P by (simp add: carried_back_def before_def strict_forward_def strict_backward_def)
  show "before (carried_back T a) (carried_back T b)"
    if "strict_backward (carried_back T a)" "strict_forward (carried_back T b)"
    using that lt P by (simp add: carried_back_def before_def strict_forward_def strict_backward_def)
qed (simp add: carried_back_def)

section \<open>Selections after an edit\<close>

definition keeps :: "nat \<Rightarrow> selection \<Rightarrow> selection \<Rightarrow> bool" where
  "keeps n s s' \<longleftrightarrow> wf_selection s' \<and> in_bounds n s' \<and> (main_flags s \<longrightarrow> main_flags s')"

lemma keeps_clear [simp]: "keeps n s (clear s)" "all_backward (clear s)" "all_forward (clear s)"
  by (simp_all add: keeps_def clear_def wf_selection_def in_bounds_def main_flags_def all_backward_def
      all_forward_def region_defs)

lemma spans_within: "(\<forall>r\<in>set rs. within n r) \<longleftrightarrow> spans rs \<subseteq> {..n}"
  by (simp add: spans_def UN_subset_iff span_bound within_def)

lemma map_loop_cong:
  assumes "\<And>r st. r \<in> set rs \<Longrightarrow> f st r = f' st r"
  shows "map_loop f ms i rs st out nm = map_loop f' ms i rs st out nm"
  using assms
proof (induction rs arbitrary: i st out nm)
  case (Cons r rs)
  have "map_loop f ms j rs st' o' n' = map_loop f' ms j rs st' o' n'" for j st' o' n'
    by (rule Cons.IH) (use Cons.prems in auto)
  then have "map_loop f ms j rs = map_loop f' ms j rs" for j by (intro ext)
  moreover have "f st r = f' st r" using Cons.prems by simp
  ultimately show ?case by (simp only: map_loop.simps)
qed simp

lemma map_selections_cong:
  "(\<And>r st. r \<in> set (regions s) \<Longrightarrow> f st r = f' st r) \<Longrightarrow> map_selections f st s = map_selections f' st s"
  unfolding map_selections_def by (subst map_loop_cong [of "regions s" f f']) auto

context carrying
begin

lemma keepsI:
  assumes "wf_selection s'" "spans (regions s') = spans (map g (regions s))"
    "\<forall>r\<in>set (regions s). within m (g r)" "main_flags s \<longrightarrow> main_flags s'"
  shows "keeps m s s'"
proof -
  have "\<forall>r\<in>set (map g (regions s)). within m r" using assms(3) by auto
  with assms show ?thesis by (simp only: keeps_def spans_within in_bounds_spans simp_thms)
qed

text \<open>One shape for all the closures: the contract \<open>region_map\<close> and a direction give the result.\<close>

lemma mapped_keeps:
  assumes map: "region_map g P" and wf: "wf_selection s" and P: "\<forall>r\<in>set (regions s). P r"
    and bound: "\<And>r. P r \<Longrightarrow> within m (g r)" and D: "merge_closed D" "\<And>r. P r \<Longrightarrow> D (g r)"
  shows "\<exists>s'. map_selections (single g) () s = Inr (s', ()) \<and> keeps m s s' \<and> (\<forall>r\<in>set (regions s'). D r)"
proof -
  obtain s' where s': "map_selections (single g) () s = Inr (s', ())" "wf_selection s'"
    "spans (regions s') = spans (map g (regions s))" "main_flags s \<longrightarrow> main_flags s'"
    using region_map.map_selections_keeps [OF map single_maps_to wf P, of "()"] by auto
  have "\<forall>r\<in>set (regions s'). D r"
    by (rule map_selections_direction [OF s'(1) _ D(1)]) (use P D(2) in auto)
  with s' keepsI [OF s'(2,3) _ s'(4)] P bound show ?thesis by auto
qed

lemma merge_closed_any: "merge_closed (\<lambda>_. True)"
  by (simp add: merge_closed_def)

lemma backward_keeps:
  assumes "wf_selection s" "in_bounds n s" "all_backward s"
  shows "\<exists>s'. map_selections (single (carried T)) () s = Inr (s', ()) \<and> keeps m s s' \<and> all_backward s'"
  unfolding all_backward_def
  by (rule mapped_keeps [OF bwd.region_map_axioms assms(1)])
     (use assms carried_within carried_backward merge_closed_backward in
       \<open>auto simp: in_bounds_def within_def all_backward_def\<close>)

lemma forward_keeps:
  assumes "wf_selection s" "in_bounds n s" "all_forward s"
  shows "\<exists>s'. map_selections (single (carried T)) () s = Inr (s', ()) \<and> keeps m s s' \<and> all_forward s'"
  unfolding all_forward_def
  by (rule mapped_keeps [OF fwd.region_map_axioms assms(1)])
     (use assms carried_within carried_forward merge_closed_forward in
       \<open>auto simp: in_bounds_def within_def all_forward_def\<close>)

lemma points_keep:
  assumes "wf_selection s" "in_bounds n s" "\<forall>r\<in>set (regions s). T (caret r) = T (tail r)"
  shows "\<exists>s'. map_selections (single (carried T)) () s = Inr (s', ()) \<and> keeps m s s'"
  using mapped_keeps [OF pts.region_map_axioms assms(1) _ _ merge_closed_any TrueI]
    assms carried_within by (auto simp: in_bounds_def within_def)

lemma backward_back_keeps:
  assumes "wf_selection s" "in_bounds n s" "all_backward s"
  shows "\<exists>s'. map_selections (single (carried_back T)) () s = Inr (s', ()) \<and> keeps m s s' \<and> all_backward s'"
proof -
  have b: "within m (carried_back T r)" "backward (carried_back T r)" if "within n r \<and> backward r" for r
    using that carried_within [of r] carried_backward [of r]
    by (auto simp: carried_back_def carried_def within_def backward_def)
  show ?thesis unfolding all_backward_def
    by (rule mapped_keeps [OF bwd_back.region_map_axioms assms(1) _ _ merge_closed_backward])
       (use assms b in \<open>auto simp: in_bounds_def within_def all_backward_def\<close>)
qed

end

context strict_carrying
begin

lemma any_keeps:
  assumes "wf_selection s" "in_bounds n s"
  shows "\<exists>s'. map_selections (single (carried T)) () s = Inr (s', ()) \<and> keeps m s s'"
  using mapped_keeps [OF all.region_map_axioms assms(1) _ _ merge_closed_any TrueI]
    assms carried_within by (auto simp: in_bounds_def within_def)

lemma any_back_keeps:
  assumes "wf_selection s" "in_bounds n s" "\<forall>r\<in>set (regions s). 0 < T (caret r)"
  shows "\<exists>s'. map_selections (single (carried_back T)) () s = Inr (s', ()) \<and> keeps m s s'"
proof -
  have "within m (carried_back T r)" if "within n r \<and> 0 < T (caret r)" for r
    using that carried_within [of r] by (auto simp: carried_back_def carried_def within_def)
  then show ?thesis
    using mapped_keeps [OF all_back.region_map_axioms assms(1) _ _ merge_closed_any TrueI] assms
    by (auto simp: in_bounds_def within_def)
qed

end

context xi_rope
begin

lemma transform_carrying:
  "carrying (\<lambda>p. transformer_transform X d p True) (base_len X d) (delta_new_document_len X d)"
proof
  show "transformer_transform X d (base_len X d) True = delta_new_document_len X d"
    using delta_shape [of d]
    by (simp add: transform_view base_len_def new_document_len_view Let_def)
qed (rule transform_mono)

lemma transform_insert_only:
  assumes "insert_only X d" "x \<le> base_len X d"
  shows "transformer_transform X d x True = length (concat (take (Suc x) (delta_ins X d))) + x"
proof -
  from assms(1) have "take x (delta_del X d) = replicate x False"
    using assms(2) unfolding insert_only_def base_len_def by (metis min.absorb1 take_replicate)
  then show ?thesis using assms(2) by (simp add: transform_view base_len_def Let_def)
qed

lemma insert_only_carrying:
  assumes "insert_only X d"
  shows "strict_carrying (\<lambda>p. transformer_transform X d p True) (base_len X d) (delta_new_document_len X d)"
proof (intro strict_carrying.intro strict_carrying_axioms.intro transform_carrying)
  fix x y assume xy: "x < y" "y \<le> base_len X d"
  then have "length (concat (take (Suc x) (delta_ins X d))) \<le> length (concat (take (Suc y) (delta_ins X d)))"
    by (metis Suc_le_mono concat_append le_add1 le_add_diff_inverse length_append less_imp_le take_add)
  with xy show "transformer_transform X d x True < transformer_transform X d y True"
    by (simp add: transform_insert_only [OF assms])
qed

lemma apply_delta_eq:
  assumes "in_bounds (base_len X d) s" "delta_new_document_len X d \<noteq> 0"
  shows "selection_apply_delta X d (base_len X d) s =
    and_then (map_selections (single (carried (\<lambda>p. transformer_transform X d p True))) () s)
      (\<lambda>(s', _). Inr s')"
proof -
  note c = carrying.top_pos [OF transform_carrying [of d]] carrying.bound [OF transform_carrying [of d]]
  show ?thesis
    unfolding selection_apply_delta_def Let_def
    by (subst map_selections_cong [where f' = "single (carried (\<lambda>p. transformer_transform X d p True))"])
       (use assms c in \<open>auto simp: single_def carried_def in_bounds_def min_absorb2\<close>)
qed

text \<open>\<open>apply_delta_offset_carets(delta, -1, 0)\<close>, the only offsets the editor uses.\<close>

lemma apply_delta_back_eq:
  assumes "in_bounds (base_len X d) s" "delta_new_document_len X d \<noteq> 0"
    and "delta_new_document_len X d \<le> isize_max"
    and "\<forall>r\<in>set (regions s). 0 < transformer_transform X d (caret r) True"
  shows "selection_apply_delta_offset_carets X d (- 1) 0 (base_len X d) s =
    and_then (map_selections (single (carried_back (\<lambda>p. transformer_transform X d p True))) () s)
      (\<lambda>(s', _). Inr s')"
proof -
  let ?T = "\<lambda>p. transformer_transform X d p True" and ?m = "delta_new_document_len X d"
  note c = carrying.top_pos [OF transform_carrying [of d]] carrying.bound [OF transform_carrying [of d]]
  have less: "as_usize (isize_wrap (as_isize p + - 1)) = p - 1" if "0 < p" "p \<le> ?m" for p
    using that assms(3) by (simp add: as_isize_def isize_wrap_def as_usize_def isize_max_def usize_modulus_def of_nat_diff nat_eq_iff)
  have same: "as_usize (isize_wrap (as_isize p + 0)) = p" if "p \<le> ?m" for p
    using that assms(3) by (simp add: as_isize_def isize_wrap_def as_usize_def isize_max_def usize_modulus_def nat_eq_iff)
  have step_back: "min ?m (?T p - 1) = ?T p - 1" if "p \<le> base_len X d" for p
    using c(2) [OF that] by simp
  show ?thesis
    unfolding selection_apply_delta_offset_carets_def Let_def
    by (subst map_selections_cong [where f' = "single (carried_back ?T)"])
       (use assms c less same step_back in \<open>auto simp: single_def carried_back_def in_bounds_def min_absorb2\<close>)
qed

lemma apply_delta_backward:
  assumes "wf_selection s" "in_bounds (base_len X d) s" "all_backward s"
  shows "\<exists>s'. selection_apply_delta X d (base_len X d) s = Inr s' \<and>
    keeps (delta_new_document_len X d) s s' \<and> all_backward s'"
  using carrying.backward_keeps [OF transform_carrying assms] apply_delta_eq [OF assms(2)]
  by (cases "delta_new_document_len X d = 0") (auto simp: selection_apply_delta_def)

lemma apply_delta_forward:
  assumes "wf_selection s" "in_bounds (base_len X d) s" "all_forward s"
  shows "\<exists>s'. selection_apply_delta X d (base_len X d) s = Inr s' \<and>
    keeps (delta_new_document_len X d) s s' \<and> all_forward s'"
  using carrying.forward_keeps [OF transform_carrying assms] apply_delta_eq [OF assms(2)]
  by (cases "delta_new_document_len X d = 0") (auto simp: selection_apply_delta_def)

lemma apply_delta_points:
  assumes "wf_selection s" "in_bounds (base_len X d) s"
    "\<forall>r\<in>set (regions s). transformer_transform X d (caret r) True = transformer_transform X d (tail r) True"
  shows "\<exists>s'. selection_apply_delta X d (base_len X d) s = Inr s' \<and>
    keeps (delta_new_document_len X d) s s'"
  using carrying.points_keep [OF transform_carrying assms] apply_delta_eq [OF assms(2)]
  by (cases "delta_new_document_len X d = 0") (auto simp: selection_apply_delta_def)

lemma apply_delta_insert_only:
  assumes "wf_selection s" "in_bounds (base_len X d) s" "insert_only X d"
  shows "\<exists>s'. selection_apply_delta X d (base_len X d) s = Inr s' \<and>
    keeps (delta_new_document_len X d) s s'"
  using strict_carrying.any_keeps [OF insert_only_carrying [OF assms(3)] assms(1,2)] apply_delta_eq [OF assms(2)]
  by (cases "delta_new_document_len X d = 0") (auto simp: selection_apply_delta_def)

lemma apply_delta_back_backward:
  assumes "wf_selection s" "in_bounds (base_len X d) s" "all_backward s"
    "delta_new_document_len X d \<le> isize_max"
    "\<forall>r\<in>set (regions s). 0 < transformer_transform X d (caret r) True"
  shows "\<exists>s'. selection_apply_delta_offset_carets X d (- 1) 0 (base_len X d) s = Inr s' \<and>
    keeps (delta_new_document_len X d) s s' \<and> all_backward s'"
  using carrying.backward_back_keeps [OF transform_carrying assms(1-3)]
    apply_delta_back_eq [OF assms(2) _ assms(4,5)]
  by (cases "delta_new_document_len X d = 0") (auto simp: selection_apply_delta_offset_carets_def)

lemma apply_delta_back_insert_only:
  assumes "wf_selection s" "in_bounds (base_len X d) s" "insert_only X d"
    "delta_new_document_len X d \<le> isize_max"
    "\<forall>r\<in>set (regions s). 0 < transformer_transform X d (caret r) True"
  shows "\<exists>s'. selection_apply_delta_offset_carets X d (- 1) 0 (base_len X d) s = Inr s' \<and>
    keeps (delta_new_document_len X d) s s'"
  using strict_carrying.any_back_keeps [OF insert_only_carrying [OF assms(3)] assms(1,2,5)]
    apply_delta_back_eq [OF assms(2) _ assms(4,5)]
  by (cases "delta_new_document_len X d = 0") (auto simp: selection_apply_delta_offset_carets_def)

end

end
