(* ===== verification/Current_Buffer.thy ===== *)
theory Current_Buffer
  imports Operations Timeline Selection_Delta
begin

text \<open>
  A buffer and the collection of open buffers (src/current_buffer.rs). A buffer holds the loaded
  bytes, the selection, the registers and the undo history. Operations that may panic return an
  \<open>outcome\<close>; those that talk to the file system take it as a world-passing record of calls.
  \<open>buffer_ok\<close> is the invariant: the selection is sorted, disjoint and inside the data, and every
  delta of the history fits the data.
\<close>

section \<open>The world outside\<close>

text \<open>
  A \<open>Path\<close> is the list of its code points. The file system is a state
  \<open>'w\<close> with the four calls the code makes: \<open>canonicalize\<close>, \<open>std::fs::read\<close>, \<open>std::fs::write\<close>, and
  opening a file, seeking to an offset and reading at most a number of bytes (the first error of
  those calls is the result).
\<close>

type_synonym path = rstring

datatype io_error = IoError rstring

record 'w io =
  io_canonicalize :: "'w \<Rightarrow> path \<Rightarrow> io_error + path"
  io_read_all :: "'w \<Rightarrow> path \<Rightarrow> io_error + bytes"
  io_read_at :: "'w \<Rightarrow> path \<Rightarrow> nat \<Rightarrow> nat \<Rightarrow> io_error + bytes"
  io_write :: "'w \<Rightarrow> path \<Rightarrow> bytes \<Rightarrow> (io_error + unit) \<times> 'w"

datatype dirty_bytes = ChangeInPlace "interval list" | ChangeLength

datatype overflow_selection_style = Cursor | Tail | CursorTail

section \<open>Buffers\<close>

record 'd buffer =
  buf_path :: "path option"
  buf_data :: bytes
  buf_selection :: selection
  buf_registers :: "rchar \<rightharpoonup> bytes list"
  buf_dirty :: bool
  buf_history :: "'d history"
  buf_data_start_offset :: nat

definition from_data_and_path :: "bytes \<Rightarrow> path option \<Rightarrow> 'd buffer" where
  "from_data_and_path bs p =
     \<lparr>buf_path = p, buf_data = bs, buf_selection = selection_new, buf_registers = Map.empty,
      buf_dirty = False, buf_history = history_new, buf_data_start_offset = 0\<rparr>"

definition buffer_default :: "'d buffer" where
  "buffer_default = from_data_and_path [] None"

text \<open>\<open>Rope::slice_to_cow\<close> on the bytes of a rope: a range that starts past the end has no leaf to
  start in; one that ends past the end is cut there.\<close>

definition slice_to_cow :: "bytes \<Rightarrow> nat \<Rightarrow> nat \<Rightarrow> bytes outcome" where
  "slice_to_cow base start stop =
     (if stop \<le> start then Inr []
      else if start \<le> length base then Inr (take (stop - start) (drop start base))
      else Inl IndexOutOfBounds)"

definition load_next_chunk ::
    "('d, 's, 'b) xi \<Rightarrow> 'w io \<Rightarrow> 'w \<Rightarrow> nat \<Rightarrow> 'd buffer \<Rightarrow> (io_error + bool) \<times> 'd buffer" where
  "load_next_chunk X io w chunk_size buf =
     (case buf_path buf of
        None \<Rightarrow> (Inr False, buf)
      | Some p \<Rightarrow>
          (case io_read_at io w p (length (buf_data buf)) chunk_size of
             Inl e \<Rightarrow> (Inl e, buf)
           | Inr next_chunk \<Rightarrow>
               if length next_chunk > 0 then
                 (let d = delta_simple_edit X
                        (interval_new (length (buf_data buf)) (length (buf_data buf)))
                        next_chunk (length (buf_data buf))
                  in (Inr True, buf\<lparr>buf_data := delta_apply X d (buf_data buf)\<rparr>))
               else (Inr False, buf)))"

definition scratch_name :: rstring where
  "scratch_name = map of_char ''*scratch*''"

definition buffer_name :: "'d buffer \<Rightarrow> rstring" where
  "buffer_name buf = (case buf_path buf of Some p \<Rightarrow> p | None \<Rightarrow> scratch_name)"

subsection \<open>Mapping the selection and the ranges to repaint\<close>

definition push_range :: "('d, 's, 'b) xi \<Rightarrow> interval list \<Rightarrow> interval \<Rightarrow> interval list" where
  "push_range X out r =
     (if out = [] then [r]
      else if interval_contains X (last out) (istart r)
           then butlast out @ [interval_union X (last out) r]
           else out @ [r])"

definition disjoint_ranges :: "('d, 's, 'b) xi \<Rightarrow> interval list \<Rightarrow> interval list" where
  "disjoint_ranges X rs = foldl (push_range X) [] (sort_key istart rs)"

definition region_interval :: "('d, 's, 'b) xi \<Rightarrow> sel_region \<Rightarrow> interval" where
  "region_interval X r = interval_inclusive X (region_min r) (region_max r)"

definition buffer_map_selections ::
    "('d, 's, 'b) xi \<Rightarrow> ('st \<Rightarrow> sel_region \<Rightarrow> (sel_region list \<times> 'st) outcome) \<Rightarrow> 'st \<Rightarrow>
     'd buffer \<Rightarrow> (dirty_bytes \<times> 'd buffer) outcome" where
  "buffer_map_selections X f st buf =
     and_then
       (map_selections (\<lambda>(invalidated, st) region.
          and_then (f st region) (\<lambda>(new, st').
            Inr (new, (invalidated @ region_interval X region # map (region_interval X) new, st'))))
        ([], st) (buf_selection buf))
       (\<lambda>(sel', invalidated, _).
          Inr (ChangeInPlace (disjoint_ranges X invalidated), buf\<lparr>buf_selection := sel'\<rparr>))"

subsection \<open>Edits\<close>

definition apply_delta_to_current_buffer ::
    "('d, 's, 'b) xi \<Rightarrow> 'd \<Rightarrow> bool \<Rightarrow> 'd buffer \<Rightarrow> 'd buffer" where
  "apply_delta_to_current_buffer X d is_final buf =
     (let next_data = delta_apply X d (buf_data buf);
          h = (if is_final
               then perform_final X (buf_data buf) d (buf_selection buf) (buf_history buf)
               else perform_partial X (buf_data buf) d (buf_selection buf) (buf_history buf))
      in buf\<lparr>buf_data := next_data, buf_history := h, buf_dirty := True\<rparr>)"

definition buffer_apply_delta ::
    "('d, 's, 'b) xi \<Rightarrow> 'd \<Rightarrow> 'd buffer \<Rightarrow> (dirty_bytes \<times> 'd buffer) outcome" where
  "buffer_apply_delta X d buf =
     (let max_len = length (buf_data buf);
          buf1 = apply_delta_to_current_buffer X d True buf
      in and_then (selection_apply_delta X d max_len (buf_selection buf1))
           (\<lambda>sel'. Inr (ChangeLength, buf1\<lparr>buf_selection := sel'\<rparr>)))"

definition buffer_apply_delta_offset_carets ::
    "('d, 's, 'b) xi \<Rightarrow> 'd \<Rightarrow> int \<Rightarrow> int \<Rightarrow> 'd buffer \<Rightarrow> (dirty_bytes \<times> 'd buffer) outcome" where
  "buffer_apply_delta_offset_carets X d caret_offset tail_offset buf =
     (let max_len = length (buf_data buf);
          buf1 = apply_delta_to_current_buffer X d True buf
      in and_then (selection_apply_delta_offset_carets X d caret_offset tail_offset max_len (buf_selection buf1))
           (\<lambda>sel'. Inr (ChangeLength, buf1\<lparr>buf_selection := sel'\<rparr>)))"

definition apply_incomplete_delta ::
    "('d, 's, 'b) xi \<Rightarrow> 'd \<Rightarrow> 'd buffer \<Rightarrow> (dirty_bytes \<times> 'd buffer) outcome" where
  "apply_incomplete_delta X d buf =
     (let max_len = length (buf_data buf);
          buf1 = apply_delta_to_current_buffer X d False buf
      in and_then (selection_apply_delta X d max_len (buf_selection buf1))
           (\<lambda>sel'. Inr (ChangeLength, buf1\<lparr>buf_selection := sel'\<rparr>)))"

definition apply_incomplete_delta_offset_carets ::
    "('d, 's, 'b) xi \<Rightarrow> 'd \<Rightarrow> int \<Rightarrow> int \<Rightarrow> 'd buffer \<Rightarrow> (dirty_bytes \<times> 'd buffer) outcome" where
  "apply_incomplete_delta_offset_carets X d caret_offset tail_offset buf =
     (let max_len = length (buf_data buf);
          buf1 = apply_delta_to_current_buffer X d False buf
      in and_then (selection_apply_delta_offset_carets X d caret_offset tail_offset max_len (buf_selection buf1))
           (\<lambda>sel'. Inr (ChangeLength, buf1\<lparr>buf_selection := sel'\<rparr>)))"

definition commit_delta :: "'d buffer \<Rightarrow> 'd buffer" where
  "commit_delta buf = buf\<lparr>buf_history := commit_partial (buf_history buf)\<rparr>"

definition perform_undo :: "('d, 's, 'b) xi \<Rightarrow> 'd buffer \<Rightarrow> dirty_bytes option \<times> 'd buffer" where
  "perform_undo X buf =
     (case undo X (buf_data buf) (buf_selection buf) (buf_history buf) of
        (Some (undo_delta, old_selection), h) \<Rightarrow>
          (Some ChangeLength,
           buf\<lparr>buf_history := h, buf_selection := old_selection,
               buf_data := delta_apply X undo_delta (buf_data buf), buf_dirty := True\<rparr>)
      | (None, h) \<Rightarrow> (None, buf\<lparr>buf_history := h\<rparr>))"

definition perform_redo :: "('d, 's, 'b) xi \<Rightarrow> 'd buffer \<Rightarrow> dirty_bytes option \<times> 'd buffer" where
  "perform_redo X buf =
     (case redo X (buf_data buf) (buf_selection buf) (buf_history buf) of
        (Some (redo_delta, old_selection), h) \<Rightarrow>
          (Some ChangeLength,
           buf\<lparr>buf_history := h, buf_selection := old_selection,
               buf_data := delta_apply X redo_delta (buf_data buf), buf_dirty := True\<rparr>)
      | (None, h) \<Rightarrow> (None, buf\<lparr>buf_history := h\<rparr>))"

subsection \<open>Choosing among the regions\<close>

definition switch_main_sel ::
    "('d, 's, 'b) xi \<Rightarrow> (selection \<Rightarrow> selection outcome) \<Rightarrow> 'd buffer \<Rightarrow> (dirty_bytes \<times> 'd buffer) outcome" where
  "switch_main_sel X f buf =
     and_then (main_region (buf_selection buf)) (\<lambda>old_main.
     and_then (f (buf_selection buf)) (\<lambda>sel'.
     and_then (main_region sel') (\<lambda>new_main.
       Inr (ChangeInPlace [region_interval X old_main, region_interval X new_main],
            buf\<lparr>buf_selection := sel'\<rparr>))))"

definition modify_sels_in_place ::
    "('d, 's, 'b) xi \<Rightarrow> (selection \<Rightarrow> selection outcome) \<Rightarrow> 'd buffer \<Rightarrow> (dirty_bytes \<times> 'd buffer) outcome" where
  "modify_sels_in_place X f buf =
     (let changed = ChangeInPlace (map (region_interval X) (regions (buf_selection buf)))
      in and_then (f (buf_selection buf)) (\<lambda>sel'. Inr (changed, buf\<lparr>buf_selection := sel'\<rparr>)))"

definition index_mod :: "nat \<Rightarrow> selection \<Rightarrow> nat outcome" where
  "index_mod index s =
     (if length (regions s) = 0 then Inl DivisionByZero else Inr (index mod length (regions s)))"

definition remove_selection ::
    "('d, 's, 'b) xi \<Rightarrow> nat \<Rightarrow> 'd buffer \<Rightarrow> (dirty_bytes \<times> 'd buffer) outcome" where
  "remove_selection X index buf =
     modify_sels_in_place X (\<lambda>s. and_then (index_mod index s) (\<lambda>i. remove i s)) buf"

definition retain_selection ::
    "('d, 's, 'b) xi \<Rightarrow> nat \<Rightarrow> 'd buffer \<Rightarrow> (dirty_bytes \<times> 'd buffer) outcome" where
  "retain_selection X index buf =
     modify_sels_in_place X (\<lambda>s. and_then (index_mod index s) (\<lambda>i. retain i s)) buf"

definition buffer_select_next ::
    "('d, 's, 'b) xi \<Rightarrow> nat \<Rightarrow> 'd buffer \<Rightarrow> (dirty_bytes \<times> 'd buffer) outcome" where
  "buffer_select_next X count buf = switch_main_sel X (select_next count) buf"

definition buffer_select_prev ::
    "('d, 's, 'b) xi \<Rightarrow> nat \<Rightarrow> 'd buffer \<Rightarrow> (dirty_bytes \<times> 'd buffer) outcome" where
  "buffer_select_prev X count buf = switch_main_sel X (select_prev count) buf"

fun slice_all :: "bytes \<Rightarrow> sel_region list \<Rightarrow> bytes list outcome" where
  "slice_all base [] = Inr []"
| "slice_all base (r # rs) =
     and_then (slice_to_cow base (region_min r) (region_max r + 1))
       (\<lambda>s. and_then (slice_all base rs) (\<lambda>ss. Inr (s # ss)))"

definition yank_selections :: "rchar \<Rightarrow> 'd buffer \<Rightarrow> 'd buffer outcome" where
  "yank_selections reg buf =
     (if buf_data buf = [] then
        Inr (buf\<lparr>buf_registers := (buf_registers buf)
                   (reg \<mapsto> replicate (length (regions (buf_selection buf))) [])\<rparr>)
      else and_then (slice_all (buf_data buf) (regions (buf_selection buf)))
             (\<lambda>selections. Inr (buf\<lparr>buf_registers := (buf_registers buf)(reg \<mapsto> selections)\<rparr>)))"

definition overflow_sel_style :: "'d buffer \<Rightarrow> overflow_selection_style option outcome" where
  "overflow_sel_style buf =
     (if regions (buf_selection buf) = [] then Inl UnwrapNone
      else let last_sel = last (regions (buf_selection buf)); len = length (buf_data buf)
           in Inr (if caret last_sel = len \<and> tail last_sel = len then Some CursorTail
                   else if caret last_sel = len then Some Cursor
                   else if tail last_sel = len then Some Tail
                   else None))"

definition update_path_if_missing :: "path \<Rightarrow> 'd buffer \<Rightarrow> 'd buffer" where
  "update_path_if_missing p buf =
     (case buf_path buf of None \<Rightarrow> buf\<lparr>buf_path := Some p\<rparr> | Some _ \<Rightarrow> buf)"

section \<open>The collection of buffers\<close>

record 'd buffr_collection =
  buf_list :: "'d buffer list"
  cur_buf_index :: nat

definition with_current_buffer :: "'d buffer \<Rightarrow> 'd buffr_collection" where
  "with_current_buffer buf = \<lparr>buf_list = [buf], cur_buf_index = 0\<rparr>"

definition collection_new :: "'d buffr_collection" where
  "collection_new = with_current_buffer buffer_default"

definition current :: "'d buffr_collection \<Rightarrow> 'd buffer outcome" where
  "current bc = (if cur_buf_index bc < length (buf_list bc)
     then Inr (buf_list bc ! cur_buf_index bc) else Inl IndexOutOfBounds)"

definition set_current :: "'d buffer \<Rightarrow> 'd buffr_collection \<Rightarrow> 'd buffr_collection" where
  "set_current buf bc = bc\<lparr>buf_list := (buf_list bc)[cur_buf_index bc := buf]\<rparr>"

fun find_buffer :: "'w io \<Rightarrow> 'w \<Rightarrow> path \<Rightarrow> nat \<Rightarrow> 'd buffer list \<Rightarrow> io_error + nat option" where
  "find_buffer io w canon i [] = Inr None"
| "find_buffer io w canon i (buf # bufs) =
     (case buf_path buf of
        None \<Rightarrow> find_buffer io w canon (Suc i) bufs
      | Some p \<Rightarrow>
          (case io_canonicalize io w p of
             Inl e \<Rightarrow> Inl e
           | Inr c \<Rightarrow> if c = canon then Inr (Some i) else find_buffer io w canon (Suc i) bufs))"

definition switch_current_buffer ::
    "'w io \<Rightarrow> 'w \<Rightarrow> path \<Rightarrow> 'd buffr_collection \<Rightarrow> (io_error + unit) \<times> 'd buffr_collection" where
  "switch_current_buffer io w filename bc =
     (case io_canonicalize io w filename of
        Inl e \<Rightarrow> (Inl e, bc)
      | Inr canon \<Rightarrow>
          (case find_buffer io w canon 0 (buf_list bc) of
             Inl e \<Rightarrow> (Inl e, bc)
           | Inr (Some i) \<Rightarrow> (Inr (), bc\<lparr>cur_buf_index := i\<rparr>)
           | Inr None \<Rightarrow>
               (case io_read_all io w filename of
                  Inl e \<Rightarrow> (Inl e, bc)
                | Inr bs \<Rightarrow>
                    (let bufs = buf_list bc @ [from_data_and_path bs (Some filename)]
                     in (Inr (), \<lparr>buf_list = bufs, cur_buf_index = length bufs - 1\<rparr>)))))"

definition delete_current :: "'d buffr_collection \<Rightarrow> 'd buffr_collection outcome" where
  "delete_current bc =
     (if cur_buf_index bc < length (buf_list bc) then
        (let bufs = take (cur_buf_index bc) (buf_list bc) @ drop (Suc (cur_buf_index bc)) (buf_list bc);
             i = cur_buf_index bc - 1
         in Inr \<lparr>buf_list = (if bufs = [] then [buffer_default] else bufs), cur_buf_index = i\<rparr>)
      else Inl IndexOutOfBounds)"

end
