(* ===== verification/Buffer_Inv.thy ===== *)
theory Buffer_Inv
  imports Current_Buffer
begin

text \<open>
  The invariant of a buffer and its preservation. \<open>buffer_ok\<close> asks that the selection is sorted,
  disjoint and inside the data, that the history fits the data, and that every selection kept in the
  history fits the document it belongs to: this is what makes undo and redo safe.
\<close>

definition sel_ok :: "nat \<Rightarrow> selection \<Rightarrow> bool" where
  "sel_ok n s \<longleftrightarrow> wf_selection s \<and> in_bounds n s"

definition version_ok :: "version \<Rightarrow> bool" where
  "version_ok v \<longleftrightarrow> sel_ok (length (fst v)) (snd v)"

definition timeline_ok :: "timeline \<Rightarrow> bool" where
  "timeline_ok t \<longleftrightarrow> list_all version_ok (past t) \<and> list_all version_ok (future t) \<and>
     (case pending t of None \<Rightarrow> True | Some v \<Rightarrow> version_ok v)"

definition buffer_ok :: "('d, 's, 'b) xi \<Rightarrow> 'd buffer \<Rightarrow> bool" where
  "buffer_ok X buf \<longleftrightarrow> sel_ok (length (buf_data buf)) (buf_selection buf) \<and>
     history_ok X (buf_history buf) (buf_data buf) \<and>
     timeline_ok (timeline_of X (buf_history buf) (buf_data buf)) \<and>
     (\<forall>c. buf_registers buf c \<noteq> Some [])"

definition buffer_timeline :: "('d, 's, 'b) xi \<Rightarrow> 'd buffer \<Rightarrow> timeline" where
  "buffer_timeline X buf = timeline_of X (buf_history buf) (buf_data buf)"

definition editing :: "'d buffer \<Rightarrow> bool" where
  "editing buf \<longleftrightarrow> partial (buf_history buf) \<noteq> None"

lemma not_editing: "\<not> editing buf \<longleftrightarrow> partial (buf_history buf) = None"
  unfolding editing_def by blast

lemma keeps_sel_ok: "keeps n s s' \<Longrightarrow> sel_ok n s'"
  by (simp add: keeps_def sel_ok_def)

lemma sel_ok_new [simp]: "sel_ok n selection_new"
  by (simp add: sel_ok_def selection_new_def wf_selection_def in_bounds_def)

lemma buffer_ok_new: "buffer_ok X (from_data_and_path bs p)" "\<not> editing (from_data_and_path bs p)"
  by (simp_all add: buffer_ok_def from_data_and_path_def history_new_def history_ok_def timeline_of_def
      timeline_ok_def settled_def editing_def)

lemma slice_all_ok:
  assumes "\<forall>r\<in>set rs. region_min r \<le> length base"
  shows "slice_all base rs =
    Inr (map (\<lambda>r. take (region_len r) (drop (region_min r) base)) rs)"
  using assms
proof (induction rs)
  case (Cons r rs)
  have "Suc (region_max r) - region_min r = region_len r"
    using region_min_le_max [of r] by (simp add: region_len_def Suc_diff_le)
  moreover have "\<not> Suc (region_max r) \<le> region_min r"
    using region_min_le_max [of r] by linarith
  ultimately show ?case using Cons by (simp add: slice_to_cow_def)
qed simp

text \<open>Yanking never panics; the register gets the bytes under every region.\<close>

lemma yank_ok:
  assumes "sel_ok (length (buf_data buf)) (buf_selection buf)"
  shows "yank_selections reg buf = Inr (buf\<lparr>buf_registers := (buf_registers buf)(reg \<mapsto>
    map (\<lambda>r. take (region_len r) (drop (region_min r) (buf_data buf))) (regions (buf_selection buf)))\<rparr>)"
proof -
  have "\<forall>r\<in>set (regions (buf_selection buf)). region_min r \<le> length (buf_data buf)"
    using assms by (auto simp: sel_ok_def in_bounds_def region_defs)
  then show ?thesis
    by (auto simp: yank_selections_def slice_all_ok map_replicate_const)
qed

lemma yank_keeps:
  assumes "buffer_ok X buf"
  obtains regs where "yank_selections reg buf = Inr (buf\<lparr>buf_registers := regs\<rparr>)"
    "buffer_ok X (buf\<lparr>buf_registers := regs\<rparr>)"
proof -
  have sel: "sel_ok (length (buf_data buf)) (buf_selection buf)" using assms by (simp add: buffer_ok_def)
  then have "regions (buf_selection buf) \<noteq> []" by (simp add: sel_ok_def wf_selection_nonempty)
  with that yank_ok [OF sel, of reg] assms show thesis by (auto simp: buffer_ok_def)
qed

context xi_rope
begin

lemma timeline_edit_ok:
  "timeline_ok t \<Longrightarrow> sel_ok (length (present t)) s \<Longrightarrow> timeline_ok (t_edit doc s t)"
  "timeline_ok t \<Longrightarrow> sel_ok (length (present t)) s \<Longrightarrow> timeline_ok (t_partial doc s t)"
  "timeline_ok t \<Longrightarrow> timeline_ok (t_commit t)"
  "timeline_ok t \<Longrightarrow> sel_ok (length (present t)) s \<Longrightarrow> timeline_ok (t_undo s t)"
  "timeline_ok t \<Longrightarrow> sel_ok (length (present t)) s \<Longrightarrow> timeline_ok (t_redo s t)"
  by (auto simp: timeline_ok_def t_edit_def t_partial_def t_commit_def t_undo_def t_redo_def version_ok_def
      split: option.splits list.splits)

lemma present_timeline [simp]: "present (timeline_of X h r) = r"
  by (simp add: timeline_of_def)

lemma pending_editing: "pending (buffer_timeline X buf) = None \<longleftrightarrow> \<not> editing buf"
  by (simp add: buffer_timeline_def pending_timeline not_editing)

lemma length_delta_apply:
  "base_len X d = length r \<Longrightarrow> length (delta_apply X d r) = delta_new_document_len X d"
  by (simp add: length_apply)

text \<open>A final edit: one more entry on the timeline, whatever the selection function gives.\<close>

lemma final_edit:
  assumes ok: "buffer_ok X buf" and e: "\<not> editing buf" and d: "base_len X d = length (buf_data buf)"
    and sel: "sel_ok (delta_new_document_len X d) s'"
  defines "buf' \<equiv> (apply_delta_to_current_buffer X d True buf)\<lparr>buf_selection := s'\<rparr>"
  shows "buffer_ok X buf'" "\<not> editing buf'"
    "buffer_timeline X buf' = t_edit (delta_apply X d (buf_data buf)) (buf_selection buf) (buffer_timeline X buf)"
proof -
  from ok have h: "history_ok X (buf_history buf) (buf_data buf)"
    and t: "timeline_ok (timeline_of X (buf_history buf) (buf_data buf))"
    and s: "sel_ok (length (buf_data buf)) (buf_selection buf)"
    and regs: "\<forall>c. buf_registers buf c \<noteq> Some []" by (simp_all add: buffer_ok_def)
  have f: "fits_doc X d (buf_data buf)" using d by (simp add: fits_doc_def)
  have p: "pending (timeline_of X (buf_history buf) (buf_data buf)) = None"
    using e by (simp add: pending_timeline not_editing)
  note v = hist.edit_view [OF h f p, of "buf_selection buf"]
  show tl: "buffer_timeline X buf' =
      t_edit (delta_apply X d (buf_data buf)) (buf_selection buf) (buffer_timeline X buf)"
    using v by (simp add: buf'_def apply_delta_to_current_buffer_def buffer_timeline_def)
  show "buffer_ok X buf'"
    using hist.edit_inv [OF h f p, of "buf_selection buf"] sel d v timeline_edit_ok(1) [OF t] s regs
    by (simp add: buffer_ok_def buf'_def apply_delta_to_current_buffer_def length_delta_apply)
  show "\<not> editing buf'"
    using e by (simp add: not_editing buf'_def apply_delta_to_current_buffer_def perform_final_def)
qed

lemma partial_edit:
  assumes ok: "buffer_ok X buf" and d: "base_len X d = length (buf_data buf)"
    and sel: "sel_ok (delta_new_document_len X d) s'"
  defines "buf' \<equiv> (apply_delta_to_current_buffer X d False buf)\<lparr>buf_selection := s'\<rparr>"
  shows "buffer_ok X buf'" "editing buf'"
    "buffer_timeline X buf' = t_partial (delta_apply X d (buf_data buf)) (buf_selection buf) (buffer_timeline X buf)"
proof -
  from ok have h: "history_ok X (buf_history buf) (buf_data buf)"
    and t: "timeline_ok (timeline_of X (buf_history buf) (buf_data buf))"
    and s: "sel_ok (length (buf_data buf)) (buf_selection buf)"
    and regs: "\<forall>c. buf_registers buf c \<noteq> Some []" by (simp_all add: buffer_ok_def)
  have f: "fits_doc X d (buf_data buf)" using d by (simp add: fits_doc_def)
  note v = hist.partly_view [OF h f, of "buf_selection buf"]
  show tl: "buffer_timeline X buf' =
      t_partial (delta_apply X d (buf_data buf)) (buf_selection buf) (buffer_timeline X buf)"
    using v by (simp add: buf'_def apply_delta_to_current_buffer_def buffer_timeline_def)
  show "buffer_ok X buf'"
    using hist.partly_inv [OF h f, of "buf_selection buf"] sel d v timeline_edit_ok(2) [OF t] s regs
    by (simp add: buffer_ok_def buf'_def apply_delta_to_current_buffer_def length_delta_apply)
  show "editing buf'"
    by (simp add: editing_def buf'_def apply_delta_to_current_buffer_def perform_partial_def Let_def)
qed

lemma commit_ok:
  assumes "buffer_ok X buf"
  shows "buffer_ok X (commit_delta buf)" "\<not> editing (commit_delta buf)"
    "buffer_timeline X (commit_delta buf) = t_commit (buffer_timeline X buf)"
  using assms hist.commit_inv [of "buf_history buf" "buf_data buf"]
    hist.commit_view [of "buf_history buf" "buf_data buf"] timeline_edit_ok(3)
  by (auto simp: buffer_ok_def commit_delta_def buffer_timeline_def editing_def commit_partial_def
      split: option.splits)

lemma undo_ok:
  assumes ok: "buffer_ok X buf" and e: "\<not> editing buf"
    and p: "past (buffer_timeline X buf) = (doc, old) # vs"
  obtains buf' where "perform_undo X buf = (Some ChangeLength, buf')" "buffer_ok X buf'" "\<not> editing buf'"
    "buf_data buf' = doc" "buf_selection buf' = old"
    "buffer_timeline X buf' = t_undo (buf_selection buf) (buffer_timeline X buf)"
proof -
  from ok have h: "history_ok X (buf_history buf) (buf_data buf)"
    and t: "timeline_ok (timeline_of X (buf_history buf) (buf_data buf))"
    and s: "sel_ok (length (buf_data buf)) (buf_selection buf)"
    and regs: "\<forall>c. buf_registers buf c \<noteq> Some []" by (simp_all add: buffer_ok_def)
  have n: "pending (timeline_of X (buf_history buf) (buf_data buf)) = None"
    using e by (simp add: pending_timeline not_editing)
  obtain d h' where u: "undo X (buf_data buf) (buf_selection buf) (buf_history buf) = (Some (d, old), h')"
    "delta_apply X d (buf_data buf) = doc" "history_ok X h' doc"
    "timeline_of X h' doc = t_undo (buf_selection buf) (timeline_of X (buf_history buf) (buf_data buf))"
    using hist.back_some [OF h n] p unfolding buffer_timeline_def by blast
  have "sel_ok (length doc) old"
    using t p by (simp add: timeline_ok_def version_ok_def buffer_timeline_def)
  moreover have "partial h' = None"
    using u(4) n p by (simp add: pending_timeline [symmetric, of h' X doc] t_undo_def buffer_timeline_def)
  ultimately show thesis
    using that [of "buf\<lparr>buf_history := h', buf_selection := old, buf_data := doc, buf_dirty := True\<rparr>"]
      u timeline_edit_ok(4) [OF t] s regs
    by (simp add: perform_undo_def buffer_ok_def not_editing buffer_timeline_def)
qed

lemma redo_ok:
  assumes ok: "buffer_ok X buf" and e: "\<not> editing buf"
    and p: "future (buffer_timeline X buf) = (doc, old) # vs"
  obtains buf' where "perform_redo X buf = (Some ChangeLength, buf')" "buffer_ok X buf'" "\<not> editing buf'"
    "buf_data buf' = doc" "buf_selection buf' = old"
    "buffer_timeline X buf' = t_redo (buf_selection buf) (buffer_timeline X buf)"
proof -
  from ok have h: "history_ok X (buf_history buf) (buf_data buf)"
    and t: "timeline_ok (timeline_of X (buf_history buf) (buf_data buf))"
    and s: "sel_ok (length (buf_data buf)) (buf_selection buf)"
    and regs: "\<forall>c. buf_registers buf c \<noteq> Some []" by (simp_all add: buffer_ok_def)
  have n: "pending (timeline_of X (buf_history buf) (buf_data buf)) = None"
    using e by (simp add: pending_timeline not_editing)
  obtain d h' where u: "redo X (buf_data buf) (buf_selection buf) (buf_history buf) = (Some (d, old), h')"
    "delta_apply X d (buf_data buf) = doc" "history_ok X h' doc"
    "timeline_of X h' doc = t_redo (buf_selection buf) (timeline_of X (buf_history buf) (buf_data buf))"
    using hist.forth_some [OF h n] p unfolding buffer_timeline_def by blast
  have "sel_ok (length doc) old"
    using t p by (simp add: timeline_ok_def version_ok_def buffer_timeline_def)
  moreover have "partial h' = None"
    using u(4) n p by (simp add: pending_timeline [symmetric, of h' X doc] t_redo_def buffer_timeline_def)
  ultimately show thesis
    using that [of "buf\<lparr>buf_history := h', buf_selection := old, buf_data := doc, buf_dirty := True\<rparr>"]
      u timeline_edit_ok(5) [OF t] s regs
    by (simp add: perform_redo_def buffer_ok_def not_editing buffer_timeline_def)
qed

lemma undo_none: "past (buffer_timeline X buf) = [] \<Longrightarrow> perform_undo X buf = (None, buf)"
  and redo_none: "future (buffer_timeline X buf) = [] \<Longrightarrow> perform_redo X buf = (None, buf)"
  using hist.back_none [of "buf_history buf" "buf_data buf"] hist.forth_none [of "buf_history buf" "buf_data buf"]
  by (simp_all add: perform_undo_def perform_redo_def buffer_timeline_def)

end

end
