(* ===== verification/Buffer_Edits.thy ===== *)
theory Buffer_Edits
  imports Buffer_Inv
begin

text \<open>
  The edits the modes perform on a buffer: an operation of src/operations.rs builds a delta, the
  buffer applies it and carries its selection along. \<open>edit_result\<close> is what such an edit has to
  achieve; each lemma shows it for one operation, with the conditions under which carrying the
  selection cannot panic.
\<close>

definition edit_result ::
    "('d, 's, 'b) xi \<Rightarrow> bool \<Rightarrow> (sel_region \<Rightarrow> bool) \<Rightarrow> 'd buffer \<Rightarrow>
     (dirty_bytes \<times> 'd buffer) outcome \<Rightarrow> bytes \<Rightarrow> bool" where
  "edit_result X is_final D buf out doc \<longleftrightarrow>
     (\<exists>buf'. out = Inr (ChangeLength, buf') \<and> buffer_ok X buf' \<and> buf_data buf' = doc \<and>
        (editing buf' \<longleftrightarrow> \<not> is_final) \<and> buf_path buf' = buf_path buf \<and>
        buf_registers buf' = buf_registers buf \<and> buf_dirty buf' \<and>
        (\<forall>r\<in>set (regions (buf_selection buf')). D r) \<and>
        buffer_timeline X buf' =
          (if is_final then t_edit doc (buf_selection buf) (buffer_timeline X buf)
           else t_partial doc (buf_selection buf) (buffer_timeline X buf)))"

definition any_direction :: "sel_region \<Rightarrow> bool" where
  "any_direction r = True"

definition cursor :: "sel_region \<Rightarrow> bool" where
  "cursor r \<longleftrightarrow> caret r = tail r"

lemma buffer_sel_ok:
  assumes "buffer_ok X buf"
  shows "wf_selection (buf_selection buf)" "in_bounds (length (buf_data buf)) (buf_selection buf)"
  using assms by (simp_all add: buffer_ok_def sel_ok_def)

lemma apply_delta_to_simps [simp]:
  "buf_selection (apply_delta_to_current_buffer X d b buf) = buf_selection buf"
  "buf_data (apply_delta_to_current_buffer X d b buf) = delta_apply X d (buf_data buf)"
  "buf_path (apply_delta_to_current_buffer X d b buf) = buf_path buf"
  "buf_registers (apply_delta_to_current_buffer X d b buf) = buf_registers buf"
  "buf_dirty (apply_delta_to_current_buffer X d b buf)"
  by (simp_all add: apply_delta_to_current_buffer_def Let_def)

lemma survivors_same:
  assumes "lo \<le> hi" "\<And>i. lo \<le> i \<Longrightarrow> i < hi \<Longrightarrow> i < length m \<Longrightarrow> m ! i"
  shows "survivors (take hi m) = survivors (take lo m)"
proof -
  have "take hi m = take lo m @ take (hi - lo) (drop lo m)"
    using assms(1) by (metis le_add_diff_inverse take_add)
  moreover have "take (hi - lo) (drop lo m) = replicate (length (take (hi - lo) (drop lo m))) True"
    using assms(2) by (intro nth_equalityI) auto
  then have "survivors (take (hi - lo) (drop lo m)) = 0" by (metis survivors_replicate(2))
  ultimately show ?thesis by simp
qed

text \<open>A position lies behind every text inserted at or in front of it.\<close>

lemma gather_take:
  assumes "length gs = Suc (length m)" "c \<le> length m"
  shows "length (concat (take (Suc c) gs)) \<le> length (concat (take (Suc (survivors (take c m))) (gather gs m)))"
  using assms
proof (induction m arbitrary: gs c)
  case (Cons b m)
  then obtain g gs' where gs: "gs = g # gs'" and len: "length gs' = Suc (length m)" by (cases gs) auto
  then have "gather gs' m \<noteq> []" by (intro gather_nonempty) auto
  then obtain h hs where h: "gather gs' m = h # hs" by (cases "gather gs' m") auto
  show ?case
  proof (cases c)
    case 0
    then show ?thesis by (cases b) (simp_all add: gs h)
  next
    case (Suc k)
    have "length (concat (take (Suc k) gs')) \<le> length (concat (take (Suc (survivors (take k m))) (gather gs' m)))"
      by (rule Cons.IH [OF len]) (use Cons.prems Suc in simp)
    then show ?thesis by (cases b) (simp_all add: gs Suc h)
  qed
qed simp

context xi_rope
begin

lemma final_result:
  assumes "buffer_ok X buf" "\<not> editing buf" "base_len X d = length (buf_data buf)"
    and "\<exists>s'. selection_apply_delta X d (base_len X d) (buf_selection buf) = Inr s' \<and>
      keeps (delta_new_document_len X d) (buf_selection buf) s' \<and> (\<forall>r\<in>set (regions s'). D r)"
  shows "edit_result X True D buf (buffer_apply_delta X d buf) (delta_apply X d (buf_data buf))"
proof -
  obtain s' where s': "selection_apply_delta X d (length (buf_data buf)) (buf_selection buf) = Inr s'"
    "keeps (delta_new_document_len X d) (buf_selection buf) s'" "\<forall>r\<in>set (regions s'). D r"
    using assms(3,4) by auto
  from final_edit [OF assms(1-3) keeps_sel_ok [OF s'(2)]] s' show ?thesis
    by (simp add: edit_result_def buffer_apply_delta_def Let_def)
qed

lemma partial_result:
  assumes "buffer_ok X buf" "base_len X d = length (buf_data buf)"
    and "\<exists>s'. selection_apply_delta X d (base_len X d) (buf_selection buf) = Inr s' \<and>
      keeps (delta_new_document_len X d) (buf_selection buf) s' \<and> (\<forall>r\<in>set (regions s'). D r)"
  shows "edit_result X False D buf (apply_incomplete_delta X d buf) (delta_apply X d (buf_data buf))"
proof -
  obtain s' where s': "selection_apply_delta X d (length (buf_data buf)) (buf_selection buf) = Inr s'"
    "keeps (delta_new_document_len X d) (buf_selection buf) s'" "\<forall>r\<in>set (regions s'). D r"
    using assms(2,3) by auto
  from partial_edit [OF assms(1,2) keeps_sel_ok [OF s'(2)]] s' show ?thesis
    by (simp add: edit_result_def apply_incomplete_delta_def Let_def)
qed

lemma partial_back_result:
  assumes "buffer_ok X buf" "base_len X d = length (buf_data buf)"
    and "\<exists>s'. selection_apply_delta_offset_carets X d (- 1) 0 (base_len X d) (buf_selection buf) = Inr s' \<and>
      keeps (delta_new_document_len X d) (buf_selection buf) s' \<and> (\<forall>r\<in>set (regions s'). D r)"
  shows "edit_result X False D buf (apply_incomplete_delta_offset_carets X d (- 1) 0 buf)
    (delta_apply X d (buf_data buf))"
proof -
  obtain s' where s': "selection_apply_delta_offset_carets X d (- 1) 0 (length (buf_data buf)) (buf_selection buf) = Inr s'"
    "keeps (delta_new_document_len X d) (buf_selection buf) s'" "\<forall>r\<in>set (regions s'). D r"
    using assms(2,3) by auto
  from partial_edit [OF assms(1,2) keeps_sel_ok [OF s'(2)]] s' show ?thesis
    by (simp add: edit_result_def apply_incomplete_delta_offset_carets_def Let_def)
qed

text \<open>Where an edit deletes everything under the regions, each region shrinks to a cursor.\<close>

lemma spans_deleted_cursor:
  assumes "delta_del X d = map (\<lambda>i. i \<in> spans (regions sel)) [0..<n]" "in_bounds n sel" "r \<in> set (regions sel)"
  shows "transformer_transform X d (caret r) True = transformer_transform X d (tail r) True"
proof -
  have "survivors (take (region_max r) (delta_del X d)) = survivors (take (region_min r) (delta_del X d))"
    using assms(1,3) by (intro survivors_same) (auto simp: spans_def span_def)
  then have "survivors (take (caret r) (delta_del X d)) = survivors (take (tail r) (delta_del X d))"
    by (cases "caret r \<le> tail r") (simp_all add: region_defs)
  then show ?thesis using assms by (simp add: transform_view in_bounds_def)
qed

lemma cursors_keep:
  assumes "wf_selection s" "in_bounds (base_len X d) s"
    "\<forall>r\<in>set (regions s). transformer_transform X d (caret r) True = transformer_transform X d (tail r) True"
  shows "\<exists>s'. selection_apply_delta X d (base_len X d) s = Inr s' \<and>
    keeps (delta_new_document_len X d) s s' \<and> (\<forall>r\<in>set (regions s'). cursor r)"
proof (cases "delta_new_document_len X d = 0")
  case True
  then show ?thesis by (simp add: selection_apply_delta_def) (simp add: clear_def cursor_def)
next
  case False
  let ?T = "\<lambda>p. transformer_transform X d p True"
  have D: "merge_closed cursor"
    by (auto simp: merge_closed_def cursor_def merge_region_def Let_def and_then_eq_Inr region_defs
        split: if_splits)
  from carrying.points_keep [OF transform_carrying assms] obtain s' where
    s': "map_selections (single (carried ?T)) () s = Inr (s', ())" "keeps (delta_new_document_len X d) s s'"
    by blast
  have "\<forall>r\<in>set (regions s'). cursor r"
    by (rule map_selections_direction [OF s'(1) _ D]) (use assms(3) in \<open>simp add: carried_def cursor_def\<close>)
  with s' apply_delta_eq [OF assms(2) False] show ?thesis by auto
qed

text \<open>\<open>d\<close>, \<open>c\<close> and \<open>r\<close> in normal mode: deleting and replacing the selected bytes.\<close>

lemma deletion_result:
  assumes ok: "buffer_ok X buf" and e: "\<not> editing buf"
  shows "\<exists>d. deletion X (buf_data buf) (buf_selection buf) = Inr d \<and>
    edit_result X True cursor buf (buffer_apply_delta X d buf)
      (edited (buf_data buf) (\<lambda>_. []) (\<lambda>i. i \<in> spans (regions (buf_selection buf))))"
proof -
  note sel = buffer_sel_ok [OF ok]
  obtain d where d: "deletion X (buf_data buf) (buf_selection buf) = Inr d" "base_len X d = length (buf_data buf)"
    "delta_apply X d (buf_data buf) =
      edited (buf_data buf) (\<lambda>_. []) (\<lambda>i. i \<in> spans (regions (buf_selection buf)))"
    "delta_del X d = map (\<lambda>i. i \<in> spans (regions (buf_selection buf))) [0..<length (buf_data buf)]"
    using does_edit_result [OF deletion_does [OF sel]] by metis
  have "\<forall>r\<in>set (regions (buf_selection buf)).
      transformer_transform X d (caret r) True = transformer_transform X d (tail r) True"
    using spans_deleted_cursor [OF d(4) sel(2)] by blast
  from final_result [OF ok e d(2) cursors_keep [OF sel(1) _ this]] sel(2) d show ?thesis by simp
qed

lemma replace_result:
  assumes ok: "buffer_ok X buf" and e: "\<not> editing buf"
  shows "\<exists>d. replace X (buf_data buf) (buf_selection buf) ch = Inr d \<and>
    edit_result X True cursor buf (buffer_apply_delta X d buf)
      (overwritten (buf_data buf) (regions (buf_selection buf)) ch)"
proof -
  note sel = buffer_sel_ok [OF ok] and rep = replace_does [OF buffer_sel_ok [OF ok], of ch]
  obtain d where d: "replace X (buf_data buf) (buf_selection buf) ch = Inr d"
    "base_len X d = length (buf_data buf)"
    "delta_apply X d (buf_data buf) = overwritten (buf_data buf) (regions (buf_selection buf)) ch"
    "delta_del X d = map (\<lambda>i. i \<in> spans (regions (buf_selection buf))) [0..<length (buf_data buf)]"
    using does_edit_result [OF rep(1)] rep(2) by metis
  have "\<forall>r\<in>set (regions (buf_selection buf)).
      transformer_transform X d (caret r) True = transformer_transform X d (tail r) True"
    using spans_deleted_cursor [OF d(4) sel(2)] by blast
  from final_result [OF ok e d(2) cursors_keep [OF sel(1) _ this]] sel(2) d show ?thesis by simp
qed

lemma insert_only_del: "delta_del X d = map (\<lambda>_. False) [0..<n] \<Longrightarrow> insert_only X d"
  by (simp add: insert_only_def map_replicate_const)

lemma insert_only_result:
  assumes "wf_selection s" "in_bounds (base_len X d) s" "insert_only X d"
  shows "\<exists>s'. selection_apply_delta X d (base_len X d) s = Inr s' \<and>
    keeps (delta_new_document_len X d) s s' \<and> (\<forall>r\<in>set (regions s'). any_direction r)"
  using apply_delta_insert_only [OF assms] by (simp add: any_direction_def)

lemma paste_result:
  assumes ok: "buffer_ok X buf" and e: "\<not> editing buf" and ne: "contents \<noteq> []"
  shows "\<exists>d. paste X (buf_data buf) (buf_selection buf) contents after count = Inr d \<and>
    edit_result X True any_direction buf (buffer_apply_delta X d buf)
      (edited (buf_data buf) (ins_at (paste_edits (length (buf_data buf)) (regions (buf_selection buf))
        contents after count)) (\<lambda>_. False))"
proof -
  note sel = buffer_sel_ok [OF ok]
  obtain d where d: "paste X (buf_data buf) (buf_selection buf) contents after count = Inr d"
    "base_len X d = length (buf_data buf)"
    "delta_apply X d (buf_data buf) = edited (buf_data buf) (ins_at (paste_edits (length (buf_data buf))
      (regions (buf_selection buf)) contents after count)) (\<lambda>_. False)"
    "delta_del X d = map (\<lambda>_. False) [0..<length (buf_data buf)]"
    using does_edit_result [OF paste_does [OF sel ne]] by metis
  from final_result [OF ok e d(2) insert_only_result [OF sel(1) _ insert_only_del [OF d(4)]]] sel(2) d
  show ?thesis by simp
qed

text \<open>Keys of insert mode, on a selection whose regions all point backward.\<close>

lemma backward_result:
  assumes ok: "buffer_ok X buf" and b: "all_backward (buf_selection buf)"
    and res: "does_edit X (buf_data buf) res ins del"
  shows "\<exists>d. res = Inr d \<and>
    edit_result X False backward buf (apply_incomplete_delta X d buf) (edited (buf_data buf) ins del)"
proof -
  note sel = buffer_sel_ok [OF ok]
  obtain d where d: "res = Inr d" "base_len X d = length (buf_data buf)"
    "delta_apply X d (buf_data buf) = edited (buf_data buf) ins del"
    using does_edit_result [OF res] by metis
  from partial_result [OF ok d(2) apply_delta_backward [OF sel(1) _ b, unfolded all_backward_def]] sel(2) d
  show ?thesis by simp
qed

lemma transform_past_text:
  assumes res: "does_edit X base (Inr d) ins del" and c: "c \<le> length base"
  shows "length (ins c) \<le> transformer_transform X d c True"
proof -
  let ?gs = "map ins [0..<Suc (length base)]" and ?m = "map del [0..<length base]"
  have d: "delta_del X d = ?m" "delta_ins X d = gather ?gs ?m"
    using res by (auto simp: does_edit_def)
  have "length (ins c) \<le> length (concat (take (Suc c) ?gs))"
    using c by (simp add: take_Suc_conv_app_nth del: upt_Suc)
  also have "\<dots> \<le> length (concat (take (Suc (survivors (take c ?m))) (gather ?gs ?m)))"
    using c by (intro gather_take) auto
  also have "\<dots> \<le> transformer_transform X d c True"
    using c by (simp add: transform_view d Let_def)
  finally show ?thesis .
qed

lemma backward_back_result:
  assumes ok: "buffer_ok X buf" and b: "all_backward (buf_selection buf)"
    and res: "does_edit X (buf_data buf) res ins del"
    and at_carets: "\<forall>i\<in>carets (buf_selection buf). ins i \<noteq> []"
    and small: "length (edited (buf_data buf) ins del) \<le> isize_max"
  shows "\<exists>d. res = Inr d \<and>
    edit_result X False backward buf (apply_incomplete_delta_offset_carets X d (- 1) 0 buf)
      (edited (buf_data buf) ins del)"
proof -
  note sel = buffer_sel_ok [OF ok]
  obtain d where d: "res = Inr d" "base_len X d = length (buf_data buf)"
    "delta_apply X d (buf_data buf) = edited (buf_data buf) ins del"
    using does_edit_result [OF res] by metis
  have pos: "\<forall>r\<in>set (regions (buf_selection buf)). 0 < transformer_transform X d (caret r) True"
  proof
    fix r assume r: "r \<in> set (regions (buf_selection buf))"
    then have "caret r \<le> length (buf_data buf)" using sel(2) by (simp add: in_bounds_def)
    then have "length (ins (caret r)) \<le> transformer_transform X d (caret r) True"
      using transform_past_text [of "buf_data buf" d] res d(1) by simp
    moreover have "ins (caret r) \<noteq> []" using at_carets r by (simp add: carets_def)
    ultimately show "0 < transformer_transform X d (caret r) True" by (cases "ins (caret r)") auto
  qed
  have "delta_new_document_len X d \<le> isize_max" using small d length_delta_apply [OF d(2)] by simp
  from partial_back_result [OF ok d(2) apply_delta_back_backward [OF sel(1) _ b this pos,
      unfolded all_backward_def]] sel(2) d
  show ?thesis by simp
qed

end

end
