(* ===== verification/Buffer_Maps.thy ===== *)
theory Buffer_Maps
  imports Buffer_Edits
begin

text \<open>
  \<open>CurrentBuffer::map_selections\<close>: the closure is mapped over the selection, and every range a
  region had or gets is collected for repainting. The first part separates the two; the second
  shows that the ranges handed to the view are sorted, disjoint and cover exactly what changed.
\<close>

section \<open>The selection and the ranges apart\<close>

fun touched ::
    "('d, 's, 'b) xi \<Rightarrow> ('st \<Rightarrow> sel_region \<Rightarrow> (sel_region list \<times> 'st) outcome) \<Rightarrow> 'st \<Rightarrow>
     sel_region list \<Rightarrow> interval list" where
  "touched X f st [] = []"
| "touched X f st (r # rs) =
     (case f st r of
        Inl p \<Rightarrow> []
      | Inr (new, st') \<Rightarrow> region_interval X r # map (region_interval X) new @ touched X f st' rs)"

lemma map_loop_touched:
  "map_loop (\<lambda>(invalidated, st) region.
       and_then (f st region) (\<lambda>(new, st').
         Inr (new, (invalidated @ region_interval X region # map (region_interval X) new, st'))))
     ms i rs (acc, st) out nm =
   and_then (map_loop f ms i rs st out nm)
     (\<lambda>((out', nm'), st'). Inr ((out', nm'), (acc @ touched X f st rs, st')))"
proof (induction rs arbitrary: i acc st out nm)
  case (Cons r rs)
  show ?case
  proof (cases "f st r")
    case (Inr p)
    obtain new st' where p: "p = (new, st')" by (cases p)
    show ?thesis
    proof (cases "push_regions out new")
      case Inr': (Inr out')
      show ?thesis by (simp add: Inr p Inr' Cons.IH)
    qed (simp add: Inr p)
  qed simp
qed simp

lemma buffer_map_selections_eq:
  "buffer_map_selections X f st buf =
     and_then (map_selections f st (buf_selection buf)) (\<lambda>(sel', _).
       Inr (ChangeInPlace (disjoint_ranges X (touched X f st (regions (buf_selection buf)))),
            buf\<lparr>buf_selection := sel'\<rparr>))"
proof (cases "map_loop f (main_selection (buf_selection buf)) 0 (regions (buf_selection buf)) st [] 0")
  case (Inr p)
  then show ?thesis
    by (cases p) (auto simp: buffer_map_selections_def map_selections_def map_loop_touched split: prod.splits)
qed (simp add: buffer_map_selections_def map_selections_def map_loop_touched)

text \<open>The regions a closure returns, in order. When none begins in front of one returned earlier, merging those that
  overlap keeps exactly their bytes.\<close>

fun returned ::
    "('st \<Rightarrow> sel_region \<Rightarrow> (sel_region list \<times> 'st) outcome) \<Rightarrow> 'st \<Rightarrow> sel_region list \<Rightarrow> sel_region list" where
  "returned f st [] = []"
| "returned f st (r # rs) = (case f st r of Inl p \<Rightarrow> [] | Inr (new, st') \<Rightarrow> new @ returned f st' rs)"

lemma returned_single [simp]: "returned (single g) st rs = map g rs"
  by (induction rs arbitrary: st) (simp_all add: single_def)

lemma ends_in_spans: "r \<in> set rs \<Longrightarrow> region_min r \<in> spans rs" "r \<in> set rs \<Longrightarrow> region_max r \<in> spans rs"
  by (auto simp: spans_def intro!: bexI [of _ r])

lemma returned_inside:
  assumes "\<And>st r new st'. f st r = Inr (new, st') \<Longrightarrow> sorted_wrt before new \<and> spans new \<subseteq> span r" "sorted_wrt before rs"
  shows "sorted (map region_min (returned f st rs)) \<and> spans (returned f st rs) \<subseteq> spans rs"
  using assms(2)
proof (induction rs arbitrary: st)
  case (Cons r rs)
  show ?case
  proof (cases "f st r")
    case (Inr p)
    obtain new st' where p: "p = (new, st')" by (cases p)
    with assms(1) Inr have new: "sorted_wrt before new" "spans new \<subseteq> span r" by auto
    have "sorted (map region_min new)"
      using new(1) by (simp add: sorted_map) (rule sorted_wrt_mono_rel, auto simp: before_def intro: order_trans [OF region_min_le_max])
    moreover have "region_min a \<le> region_min b" if "a \<in> set new" "b \<in> set (returned f st' rs)" for a b
    proof -
      have a: "region_min a \<in> span r" using ends_in_spans(1) [OF that(1)] new(2) by blast
      have "region_min b \<in> spans rs" using ends_in_spans(1) [OF that(2)] Cons by auto
      then obtain q where "q \<in> set rs" "region_min b \<in> span q" by (auto simp: spans_def)
      with a Cons.prems show ?thesis by (fastforce simp: span_def before_def)
    qed
    ultimately show ?thesis using Cons new(2) Inr p by (auto simp: sorted_append)
  qed simp
qed simp

definition not_behind :: "sel_region list \<Rightarrow> sel_region list \<Rightarrow> bool" where
  "not_behind out rs \<longleftrightarrow> out \<noteq> [] \<longrightarrow> (\<forall>r\<in>set rs. region_min (last out) \<le> region_min r)"

lemma spans_last: "out \<noteq> [] \<Longrightarrow> spans (butlast out) \<union> span (last out) = spans out"
  using spans_simps(3) [of "butlast out" "[last out]"] by simp

lemma push_region_spans:
  assumes "push_region out r = Inr out'" "not_behind out [r]"
  shows "spans out' = spans out \<union> span r" "out' \<noteq> []" "region_min (last out') \<le> region_min r"
proof -
  consider (new) "out' = out @ [r]"
    | (merged) m where "out \<noteq> []" "out' = butlast out @ [m]" "merge_region (last out) r = Inr m" "overlaps (last out) r"
    using assms(1) by (auto simp: push_region_def and_then_eq_Inr split: if_splits)
  then have "spans out' = spans out \<union> span r \<and> out' \<noteq> [] \<and> region_min (last out') \<le> region_min r"
  proof cases
    case merged
    with assms(2) have le: "region_min (last out) \<le> region_min r" by (simp add: not_behind_def)
    from merge_region_Inr(1,4) [OF merged(3,4) le] spans_last [OF merged(1)] merged(2) le show ?thesis by auto
  qed auto
  then show "spans out' = spans out \<union> span r" "out' \<noteq> []" "region_min (last out') \<le> region_min r" by auto
qed

lemma push_regions_spans:
  assumes "push_regions out rs = Inr out'" "sorted (map region_min (rs @ qs))" "not_behind out (rs @ qs)"
  shows "spans out' = spans out \<union> spans rs \<and> not_behind out' qs"
  using assms
proof (induction rs arbitrary: out)
  case (Cons r rs)
  from Cons.prems(1) obtain out1 where o: "push_region out r = Inr out1" "push_regions out1 rs = Inr out'"
    by (auto simp: and_then_eq_Inr)
  from Cons.prems(3) have "not_behind out [r]" by (auto simp: not_behind_def)
  note p = push_region_spans [OF o(1) this]
  from p(2,3) Cons.prems(2) have "not_behind out1 (rs @ qs)"
    by (auto simp: not_behind_def dest: order_trans)
  with Cons.IH [OF o(2)] Cons.prems(2) p(1) show ?case by auto
qed simp

lemma map_loop_spans:
  assumes "map_loop f ms i rs st out nm = Inr ((out', nm'), st')"
    and "sorted (map region_min (returned f st rs))" "not_behind out (returned f st rs)"
  shows "spans out' = spans out \<union> spans (returned f st rs)"
  using assms
proof (induction rs arbitrary: i st out nm)
  case (Cons r rs)
  obtain new st1 out1 where o: "f st r = Inr (new, st1)" "push_regions out new = Inr out1"
    using Cons.prems(1) by (auto simp: and_then_eq_Inr)
  note p = push_regions_spans [OF o(2), of "returned f st1 rs"]
  from p o(1) Cons.prems(2,3) have s: "spans out1 = spans out \<union> spans new" "not_behind out1 (returned f st1 rs)" by auto
  let ?out = "if i = ms then butlast out1 @ [(last out1)\<lparr>main := True\<rparr>] else out1"
  obtain nm1 where l: "map_loop f ms (Suc i) rs st1 ?out nm1 = Inr ((out', nm'), st')" "i = ms \<Longrightarrow> out1 \<noteq> []"
    using Cons.prems(1) o by (auto split: if_splits)
  have "spans ?out = spans out1" using l(2) spans_last [of out1] by auto
  moreover have "not_behind ?out (returned f st1 rs)" using s(2) l(2) by (simp add: not_behind_def)
  ultimately show ?case using Cons.IH [OF l(1)] Cons.prems(2) o(1) s(1) by (auto simp: sorted_append)
qed simp

lemma map_selections_spans:
  assumes "map_selections f st s = Inr (s', st')" "sorted (map region_min (returned f st (regions s)))"
  shows "spans (regions s') = spans (returned f st (regions s))"
  using assms map_loop_spans [of f "main_selection s" 0 "regions s" st "[]" 0]
  by (auto simp: map_selections_def and_then_eq_Inr not_behind_def)

definition map_result ::
    "('d, 's, 'b) xi \<Rightarrow> (sel_region \<Rightarrow> bool) \<Rightarrow> 'd buffer \<Rightarrow> (dirty_bytes \<times> 'd buffer) outcome \<Rightarrow> bool" where
  "map_result X D buf out \<longleftrightarrow>
     (\<exists>changed sel'. out = Inr (ChangeInPlace changed, buf\<lparr>buf_selection := sel'\<rparr>) \<and>
        buffer_ok X (buf\<lparr>buf_selection := sel'\<rparr>) \<and> (\<forall>r\<in>set (regions sel'). D r))"

lemma buffer_ok_selection:
  "buffer_ok X buf \<Longrightarrow> sel_ok (length (buf_data buf)) s \<Longrightarrow> buffer_ok X (buf\<lparr>buf_selection := s\<rparr>)"
  by (simp add: buffer_ok_def)

text \<open>Any closure with the contract of Region_Map keeps the buffer sound.\<close>

lemma map_result_region_map:
  assumes map: "region_map g P" and ok: "buffer_ok X buf"
    and P: "\<forall>r\<in>set (regions (buf_selection buf)). P r"
    and bound: "\<And>r. P r \<Longrightarrow> within (length (buf_data buf)) (g r)"
    and D: "merge_closed D" "\<And>r. P r \<Longrightarrow> D (g r)"
  shows "map_result X D buf (buffer_map_selections X (single g) () buf)"
proof -
  obtain s' where s': "map_selections (single g) () (buf_selection buf) = Inr (s', ())"
    "wf_selection s'" "spans (regions s') = spans (map g (regions (buf_selection buf)))"
    using region_map.map_selections_keeps [OF map single_maps_to buffer_sel_ok(1) [OF ok] P, of "()"] by auto
  have "\<forall>r\<in>set (map g (regions (buf_selection buf))). within (length (buf_data buf)) r"
    using P bound by auto
  then have "in_bounds (length (buf_data buf)) s'"
    by (simp only: in_bounds_spans spans_within s'(3))
  moreover have "\<forall>r\<in>set (regions s'). D r"
    by (rule map_selections_direction [OF s'(1) _ D(1)]) (use P D(2) in auto)
  ultimately show ?thesis
    using s' buffer_ok_selection [OF ok, of s']
    by (auto simp: map_result_def buffer_map_selections_eq sel_ok_def)
qed

section \<open>The ranges to repaint\<close>

definition covered :: "interval list \<Rightarrow> nat set" where
  "covered rs = (\<Union>r\<in>set rs. {istart r..<iend r})"

definition apart :: "interval \<Rightarrow> interval \<Rightarrow> bool" where
  "apart a b \<longleftrightarrow> iend a \<le> istart b"

lemma covered_simps [simp]:
  "covered [] = {}" "covered (r # rs) = {istart r..<iend r} \<union> covered rs"
  "covered (xs @ ys) = covered xs \<union> covered ys"
  by (auto simp: covered_def)

context xi_rope
begin

lemma push_range_step:
  assumes out: "sorted_wrt apart out" "\<forall>a\<in>set out. istart a < iend a \<and> istart a \<le> istart r"
    and r: "istart r < iend r"
  shows "sorted_wrt apart (push_range X out r)"
    "\<forall>a\<in>set (push_range X out r). istart a < iend a \<and> istart a \<le> istart r"
    "covered (push_range X out r) = covered out \<union> {istart r..<iend r}"
proof -
  have "sorted_wrt apart (push_range X out r) \<and>
    (\<forall>a\<in>set (push_range X out r). istart a < iend a \<and> istart a \<le> istart r) \<and>
    covered (push_range X out r) = covered out \<union> {istart r..<iend r}"
  proof (cases out rule: rev_cases)
    case Nil
    with r show ?thesis by (simp add: push_range_def)
  next
    case (snoc ys y)
    with out have y: "istart y < iend y" "istart y \<le> istart r" and ys: "\<forall>a\<in>set ys. apart a y"
      "sorted_wrt apart ys" "\<forall>a\<in>set ys. istart a < iend a \<and> istart a \<le> istart r"
      by (auto simp: sorted_wrt_snoc)
    show ?thesis
    proof (cases "interval_contains X y (istart r)")
      case True
      then have c: "istart r < iend y" by (simp add: interval_contains)
      have u: "interval_union X y r = \<lparr>istart = istart y, iend = max (iend y) (iend r)\<rparr>"
        using interval_union [OF y(1) r] y(2) by (simp add: min_def)
      show ?thesis using True snoc y ys r c
        by (auto simp: push_range_def u sorted_wrt_snoc apart_def)
    next
      case False
      then have c: "iend y \<le> istart r" using y by (simp add: interval_contains)
      have "\<forall>a\<in>set ys. apart a r" using ys(1) y c by (fastforce simp: apart_def)
      with False snoc y ys r c show ?thesis
        by (auto simp: push_range_def sorted_wrt_append apart_def)
    qed
  qed
  then show "sorted_wrt apart (push_range X out r)"
    "\<forall>a\<in>set (push_range X out r). istart a < iend a \<and> istart a \<le> istart r"
    "covered (push_range X out r) = covered out \<union> {istart r..<iend r}" by blast+
qed

lemma foldl_ranges:
  assumes "sorted_wrt apart out" "\<forall>a\<in>set out. istart a < iend a \<and> (\<forall>r\<in>set rs. istart a \<le> istart r)"
    and "sorted (map istart rs)" "\<forall>r\<in>set rs. istart r < iend r"
  shows "sorted_wrt apart (foldl (push_range X) out rs) \<and>
    covered (foldl (push_range X) out rs) = covered out \<union> covered rs"
  using assms
proof (induction rs arbitrary: out)
  case (Cons r rs)
  have out: "\<forall>a\<in>set out. istart a < iend a \<and> istart a \<le> istart r" and r: "istart r < iend r"
    using Cons.prems by auto
  note step = push_range_step [OF Cons.prems(1) out r]
  have "sorted_wrt apart (foldl (push_range X) (push_range X out r) rs) \<and>
      covered (foldl (push_range X) (push_range X out r) rs) = covered (push_range X out r) \<union> covered rs"
    by (rule Cons.IH [OF step(1)]) (use step(2) Cons.prems in \<open>fastforce+\<close>)
  with step(3) show ?case by auto
qed simp

lemma touched_covers:
  assumes "map_loop f ms i rs st out nm = Inr p" "\<forall>r\<in>set (rs @ returned f st rs). region_max r < usize_modulus - 1"
  shows "covered (touched X f st rs) = spans rs \<union> spans (returned f st rs) \<and> (\<forall>t\<in>set (touched X f st rs). istart t < iend t)"
  using assms
proof (induction rs arbitrary: i st out nm)
  case (Cons r rs)
  have iv: "region_interval X q = \<lparr>istart = region_min q, iend = region_max q + 1\<rparr>" if "region_max q < usize_modulus - 1" for q
    using that interval_inclusive by (simp add: region_interval_def)
  obtain new st1 out1 nm1 where o: "f st r = Inr (new, st1)" "map_loop f ms (Suc i) rs st1 out1 nm1 = Inr p"
    using Cons.prems(1) by (auto simp: and_then_eq_Inr split: if_splits)
  have new: "\<forall>q\<in>set (r # new). region_max q < usize_modulus - 1" using Cons.prems(2) o(1) by auto
  then have "covered (map (region_interval X) (r # new)) = spans (r # new)"
    using iv by (fastforce simp: covered_def spans_def span_def)
  moreover have "\<forall>q\<in>set (r # new). istart (region_interval X q) < iend (region_interval X q)"
    using new iv by (auto simp: less_Suc_eq_le)
  ultimately show ?case using Cons.IH [OF o(2)] Cons.prems(2) o(1) by auto
qed simp

lemma disjoint_ranges_exact:
  assumes "\<forall>r\<in>set rs. istart r < iend r"
  shows "sorted_wrt apart (disjoint_ranges X rs)" "covered (disjoint_ranges X rs) = covered rs"
  using foldl_ranges [of "[]" "sort_key istart rs"] assms
  by (auto simp: disjoint_ranges_def covered_def)

end

end
