(* ===== verification/Files.thy ===== *)
theory Files
  imports Current_Buffer
begin

text \<open>
  What the editor relies on of the file system, as predicates on the calls of \<open>io\<close>, and a file
  system that has these properties: a map from paths to contents. Reading at an offset may return
  fewer bytes than asked for (\<open>Read::read\<close>), but at least one when there is one.
\<close>

definition reads_file :: "'w io \<Rightarrow> 'w \<Rightarrow> path \<Rightarrow> bytes \<Rightarrow> bool" where
  "reads_file io w p contents \<longleftrightarrow>
     (\<forall>pos n. \<exists>k\<le>n. io_read_at io w p pos n = Inr (take k (drop pos contents)) \<and>
        (0 < n \<longrightarrow> pos < length contents \<longrightarrow> 0 < k))"

definition write_stores :: "'w io \<Rightarrow> bool" where
  "write_stores io \<longleftrightarrow>
     (\<forall>w p bs w'. io_write io w p bs = (Inr (), w') \<longrightarrow> io_read_all io w' p = Inr bs)"

definition not_found :: io_error where
  "not_found = IoError [110, 111, 116, 32, 102, 111, 117, 110, 100]"

definition map_io :: "(path \<rightharpoonup> bytes) io" where
  "map_io = \<lparr>
     io_canonicalize = (\<lambda>w p. case w p of Some _ \<Rightarrow> Inr p | None \<Rightarrow> Inl not_found),
     io_read_all = (\<lambda>w p. case w p of Some bs \<Rightarrow> Inr bs | None \<Rightarrow> Inl not_found),
     io_read_at = (\<lambda>w p pos n. case w p of Some bs \<Rightarrow> Inr (take n (drop pos bs)) | None \<Rightarrow> Inl not_found),
     io_write = (\<lambda>w p bs. (Inr (), w(p \<mapsto> bs)))\<rparr>"

lemma map_io_reads: "w p = Some contents \<Longrightarrow> reads_file map_io w p contents"
  by (auto simp: reads_file_def map_io_def)

lemma map_io_write_stores: "write_stores map_io"
  by (simp add: write_stores_def map_io_def)

end
