(* ===== verification/Buffer_Props.thy ===== *)
theory Buffer_Props
  imports Buffer_Maps Files Edit_Props
begin

text \<open>Properties of buffers: undo and redo, loading more of a file.\<close>

section \<open>Undo and redo\<close>

text \<open>C3: Undo takes a whole edit back and redo puts it back: after \<open>CurrentBuffer::apply_delta\<close> on a sound
  buffer, \<open>perform_undo\<close> restores document and selection, and \<open>perform_redo\<close> then restores the edited
  document and its selection; the buffer stays sound throughout.\<close>

theorem undo_redo_roundtrip:
  assumes "xi_rope X" "buffer_ok X buf" "\<not> editing buf" "base_len X d = length (buf_data buf)"
    and "buffer_apply_delta X d buf = Inr (c, buf1)" "sel_ok (length (buf_data buf1)) (buf_selection buf1)"
  shows "\<exists>buf2 buf3. perform_undo X buf1 = (Some ChangeLength, buf2) \<and> buffer_ok X buf2 \<and>
    buf_data buf2 = buf_data buf \<and> buf_selection buf2 = buf_selection buf \<and>
    perform_redo X buf2 = (Some ChangeLength, buf3) \<and> buffer_ok X buf3 \<and>
    buf_data buf3 = buf_data buf1 \<and> buf_selection buf3 = buf_selection buf1"
proof -
  obtain s' where b1: "buf1 = (apply_delta_to_current_buffer X d True buf)\<lparr>buf_selection := s'\<rparr>"
    using assms(5) by (auto simp: buffer_apply_delta_def Let_def and_then_eq_Inr)
  have "sel_ok (delta_new_document_len X d) s'"
    using assms(1,4,6) b1 xi_rope.length_delta_apply [of X d "buf_data buf"] by simp
  note edit = xi_rope.final_edit [OF assms(1-4) this, folded b1]
  have now: "present (buffer_timeline X b) = buf_data b" for b
    by (simp add: buffer_timeline_def timeline_of_def)
  have "past (buffer_timeline X buf1) = (buf_data buf, buf_selection buf) # past (buffer_timeline X buf)"
    unfolding edit(3) by (simp add: t_edit_def now)
  from xi_rope.undo_ok [OF assms(1) edit(1,2) this] obtain buf2 where
    u: "perform_undo X buf1 = (Some ChangeLength, buf2)" "buffer_ok X buf2" "\<not> editing buf2"
    "buf_data buf2 = buf_data buf" "buf_selection buf2 = buf_selection buf"
    "buffer_timeline X buf2 = t_undo (buf_selection buf1) (buffer_timeline X buf1)" by metis
  have "future (buffer_timeline X buf2) = [(buf_data buf1, buf_selection buf1)]"
    unfolding u(6) using now [of buf1] by (simp add: edit(3) t_undo_def t_edit_def)
  from xi_rope.redo_ok [OF assms(1) u(2,3) this] u show ?thesis by metis
qed

definition abc_buffer :: "ref_delta buffer" where
  "abc_buffer = (from_data_and_path abcdef None)\<lparr>buf_selection := two_carets\<rparr>"

lemma abc_buffer_ok: "buffer_ok ref_xi abc_buffer" "\<not> editing abc_buffer"
  using two_carets_ok
  by (simp_all add: abc_buffer_def buffer_ok_def sel_ok_def not_editing from_data_and_path_def history_new_def
      history_ok_def timeline_of_def timeline_ok_def settled_def)

theorem undo_redo_roundtrip_witness:
  "\<exists>d c buf1 buf2 buf3. deletion ref_xi abcdef two_carets = Inr d \<and>
    buffer_apply_delta ref_xi d abc_buffer = Inr (c, buf1) \<and>
    perform_undo ref_xi buf1 = (Some ChangeLength, buf2) \<and> buffer_ok ref_xi buf2 \<and>
    buf_data buf2 = abcdef \<and> buf_selection buf2 = two_carets \<and>
    perform_redo ref_xi buf2 = (Some ChangeLength, buf3) \<and> buffer_ok ref_xi buf3 \<and>
    buf_data buf3 = buf_data buf1 \<and> buf_selection buf3 = buf_selection buf1"
proof -
  have [simp]: "buf_data abc_buffer = abcdef" "buf_selection abc_buffer = two_carets"
    by (simp_all add: abc_buffer_def from_data_and_path_def)
  obtain d where d: "deletion ref_xi abcdef two_carets = Inr d" "base_len ref_xi d = length abcdef"
    using does_edit_result [OF xi_rope.deletion_does [OF ref.xi_rope_axioms two_carets_ok]] by metis
  obtain buf1 where b: "buffer_apply_delta ref_xi d abc_buffer = Inr (ChangeLength, buf1)" "buffer_ok ref_xi buf1"
    using xi_rope.deletion_result [OF ref.xi_rope_axioms abc_buffer_ok] d(1) by (auto simp: edit_result_def)
  then have "sel_ok (length (buf_data buf1)) (buf_selection buf1)" by (simp add: buffer_ok_def)
  from undo_redo_roundtrip [OF ref.xi_rope_axioms abc_buffer_ok _ b(1) this] d b(1) show ?thesis by auto
qed

section \<open>Loading more of a file\<close>

lemma load_next_chunk_appends:
  assumes "xi_rope X" "buf_path buf = Some p" "io_read_at io w p (length (buf_data buf)) n = Inr bs" "bs \<noteq> []"
  shows "load_next_chunk X io w n buf = (Inr True, buf\<lparr>buf_data := buf_data buf @ bs\<rparr>)"
proof -
  let ?len = "length (buf_data buf)"
  have "delta_apply X (delta_simple_edit X (interval_new ?len ?len) bs ?len) (buf_data buf) =
      apply_edits 0 [(?len, ?len, bs)] (buf_data buf)"
    using xi_rope.simple_edit_apply [OF assms(1), of ?len "interval_new ?len ?len" bs "buf_data buf"]
    by (simp add: interval_new_def)
  then show ?thesis using assms by (simp add: load_next_chunk_def Let_def)
qed

text \<open>C23: While the buffer holds an unedited beginning of the file, loading the next chunk extends it: the
  data is again a beginning of the file, never shorter, longer exactly when the call reports \<open>true\<close>,
  and a call with a positive chunk size reports \<open>false\<close> only when the whole file is loaded.\<close>

theorem load_next_chunk_prefix:
  assumes "xi_rope X" "buf_path buf = Some p" "reads_file io w p contents"
    and "buf_data buf = take (length (buf_data buf)) contents" "0 < n"
  shows "\<exists>b buf'. load_next_chunk X io w n buf = (Inr b, buf') \<and>
    buf_data buf' = take (length (buf_data buf')) contents \<and>
    (b \<longleftrightarrow> length (buf_data buf) < length (buf_data buf')) \<and> length (buf_data buf) \<le> length (buf_data buf') \<and>
    (\<not> b \<longrightarrow> buf_data buf' = contents)"
proof -
  let ?len = "length (buf_data buf)"
  obtain k where k: "io_read_at io w p ?len n = Inr (take k (drop ?len contents))"
    "?len < length contents \<longrightarrow> 0 < k"
    using assms(3,5) unfolding reads_file_def by blast
  have le: "?len \<le> length contents" using assms(4) by (metis length_take min.bounded_iff order_refl)
  show ?thesis
  proof (cases "take k (drop ?len contents) = []")
    case True
    with k le have "?len = length contents" by (cases "k = 0") auto
    with True k(1) assms(2,4) have "load_next_chunk X io w n buf = (Inr False, buf)" "buf_data buf = contents"
      by (simp_all add: load_next_chunk_def)
    then show ?thesis by (intro exI [of _ False] exI [of _ buf]) simp
  next
    case False
    have "buf_data buf @ take k (drop ?len contents) = take (?len + k) contents"
      using assms(4) by (metis take_add)
    moreover have "take (?len + k) contents = take (length (take (?len + k) contents)) contents"
      by (metis append_eq_conv_conj append_take_drop_id)
    moreover have "0 < length (take k (drop ?len contents))" using False by simp
    ultimately show ?thesis
      using load_next_chunk_appends [OF assms(1,2) k(1) False] by auto
  qed
qed

theorem load_next_chunk_prefix_witness:
  "\<exists>b buf'. load_next_chunk ref_xi map_io [[102] \<mapsto> abcdef] 3 (from_data_and_path [97, 98] (Some [102])) = (Inr b, buf') \<and>
    buf_data buf' = take (length (buf_data buf')) abcdef \<and>
    (b \<longleftrightarrow> length [97, 98 :: u8] < length (buf_data buf')) \<and> length [97, 98 :: u8] \<le> length (buf_data buf') \<and>
    (\<not> b \<longrightarrow> buf_data buf' = abcdef)"
  using load_next_chunk_prefix [OF ref.xi_rope_axioms, of "from_data_and_path [97, 98] (Some [102])" "[102]"
      map_io "[[102] \<mapsto> abcdef]" abcdef 3] map_io_reads [of "[[102] \<mapsto> abcdef]" "[102]" abcdef]
  by (simp add: from_data_and_path_def abcdef_def)

text \<open>C35: Loading a chunk does not go through the history, so it invalidates it: when there is something
  to undo, a load that reports \<open>true\<close> leaves an undo delta made for a shorter document.\<close>

theorem load_breaks_history:
  assumes "xi_rope X" "history_ok X (buf_history buf) (buf_data buf)" "\<not> editing buf"
    "undo_stack (buf_history buf) \<noteq> []" "load_next_chunk X io w n buf = (Inr True, buf')"
  shows "buf_history buf' = buf_history buf \<and> \<not> history_ok X (buf_history buf') (buf_data buf')"
proof -
  obtain p bs where p: "buf_path buf = Some p" "io_read_at io w p (length (buf_data buf)) n = Inr bs" "bs \<noteq> []"
    using assms(5) by (auto simp: load_next_chunk_def Let_def split: option.splits sum.splits if_splits)
  from load_next_chunk_appends [OF assms(1) this] assms(5)
  have b': "buf' = buf\<lparr>buf_data := buf_data buf @ bs\<rparr>" by simp
  obtain us a s where u: "undo_stack (buf_history buf) = us @ [(a, s)]"
    using assms(4) by (metis rev_exhaust surj_pair)
  have "partial (buf_history buf) = None" using assms(3) by (simp add: not_editing)
  with assms(2) u have "base_len X (delta a) = length (buf_data buf)"
    by (simp add: history_ok_def settled_def)
  with u p(3) \<open>partial (buf_history buf) = None\<close> show ?thesis
    by (simp add: b' history_ok_def settled_def)
qed

theorem load_breaks_history_witness:
  "\<exists>d c buf buf'. deletion ref_xi abcdef two_carets = Inr d \<and>
    buffer_apply_delta ref_xi d (abc_buffer\<lparr>buf_path := Some [102]\<rparr>) = Inr (c, buf) \<and>
    history_ok ref_xi (buf_history buf) (buf_data buf) \<and>
    load_next_chunk ref_xi map_io [[102] \<mapsto> abcdef] 16 buf = (Inr True, buf') \<and>
    \<not> history_ok ref_xi (buf_history buf') (buf_data buf')"
proof -
  let ?b = "abc_buffer\<lparr>buf_path := Some [102]\<rparr>"
  have ok: "buffer_ok ref_xi ?b" "\<not> editing ?b"
    using abc_buffer_ok by (simp_all add: buffer_ok_def editing_def)
  have [simp]: "buf_data ?b = abcdef" "buf_selection ?b = two_carets"
    by (simp_all add: abc_buffer_def from_data_and_path_def)
  obtain d buf where d: "deletion ref_xi abcdef two_carets = Inr d"
    "buffer_apply_delta ref_xi d ?b = Inr (ChangeLength, buf)" "buffer_ok ref_xi buf" "\<not> editing buf"
    "buf_path buf = Some [102]"
    "buf_data buf = edited abcdef (\<lambda>_. []) (\<lambda>i. i \<in> spans (regions two_carets))"
    using xi_rope.deletion_result [OF ref.xi_rope_axioms ok] by (auto simp: edit_result_def)
  have len: "buf_data buf = [97, 100, 102]"
    unfolding d(6) two_carets_spans(1) by (simp add: edited_def abcdef_def upt_rec)
  have hist: "undo_stack (buf_history buf) \<noteq> []"
    using d(2) by (auto simp: buffer_apply_delta_def Let_def and_then_eq_Inr apply_delta_to_current_buffer_def
        perform_final_def)
  have load: "load_next_chunk ref_xi map_io [[102] \<mapsto> abcdef] 16 buf =
      (Inr True, buf\<lparr>buf_data := buf_data buf @ [100, 101, 102]\<rparr>)"
    by (rule load_next_chunk_appends [OF ref.xi_rope_axioms d(5)]) (simp_all add: map_io_def len abcdef_def)
  have h: "history_ok ref_xi (buf_history buf) (buf_data buf)" using d(3) by (simp add: buffer_ok_def)
  from load_breaks_history [OF ref.xi_rope_axioms h d(4) hist load] d h load show ?thesis by blast
qed

end
