(* ===== verification/Keymap.thy ===== *)
theory Keymap
  imports Prelude
begin

text \<open>
  Terminal events and the key maps (src/keymap.rs), and the count a user types in front of a
  command (src/cmd_count.rs). The event types are those of crossterm 0.22 (Cargo.toml): a key code
  and a set of modifiers, of which SHIFT, CONTROL and ALT exist. A \<open>HashMap\<close> filled by the \<open>keys!\<close>
  macro is the list of its insertions, the last insertion for a key counting.
\<close>

unbundle bit_operations_syntax

section \<open>Events\<close>

datatype key_code =
    KBackspace | KEnter | KLeft | KRight | KUp | KDown | KHome | KEnd | KPageUp | KPageDown
  | KTab | KBackTab | KDelete | KInsert | KF nat | KChar rchar | KNull | KEsc

record key_modifiers =
  shift :: bool
  control :: bool
  alt :: bool

record key_event =
  code :: key_code
  modifiers :: key_modifiers

datatype event = Key key_event | Mouse | Resize nat nat

definition no_modifiers :: key_modifiers where
  "no_modifiers = \<lparr>shift = False, control = False, alt = False\<rparr>"

definition without_shift :: "key_modifiers \<Rightarrow> key_modifiers" where
  "without_shift m = m\<lparr>shift := False\<rparr>"

definition no_modifier_set :: "key_modifiers \<Rightarrow> bool" where
  "no_modifier_set m \<longleftrightarrow> m = no_modifiers"

section \<open>Key maps\<close>

record 'a key_map =
  maps :: "(key_event \<times> 'a) list"

definition event_to_action :: "'a key_map \<Rightarrow> event \<Rightarrow> 'a option" where
  "event_to_action m evt =
     (case evt of
        Key e \<Rightarrow> map_of (rev (maps m)) (e\<lparr>modifiers := without_shift (modifiers e)\<rparr>)
      | _ \<Rightarrow> None)"

definition ch :: "char \<Rightarrow> rchar" where
  "ch c = of_char c"

definition str :: "string \<Rightarrow> rstring" where
  "str s = map ch s"

definition normalized_char :: "char \<Rightarrow> key_event" where
  "normalized_char c = \<lparr>code = KChar (ch c), modifiers = no_modifiers\<rparr>"

definition k_char :: "char \<Rightarrow> 'a \<Rightarrow> key_event \<times> 'a" where
  "k_char c act = (normalized_char c, act)"

definition k_alt :: "char \<Rightarrow> 'a \<Rightarrow> key_event \<times> 'a" where
  "k_alt c act = (let norm = normalized_char c
     in (norm\<lparr>modifiers := (modifiers norm)\<lparr>alt := True\<rparr>\<rparr>, act))"

definition k_ctrl :: "char \<Rightarrow> 'a \<Rightarrow> key_event \<times> 'a" where
  "k_ctrl c act = (let norm = normalized_char c
     in (norm\<lparr>modifiers := (modifiers norm)\<lparr>control := True\<rparr>\<rparr>, act))"

definition k_key :: "key_code \<Rightarrow> 'a \<Rightarrow> key_event \<times> 'a" where
  "k_key kc act = (\<lparr>code = kc, modifiers = no_modifiers\<rparr>, act)"

definition keys :: "(key_event \<times> 'a) list \<Rightarrow> 'a key_map" where
  "keys ms = \<lparr>maps = ms\<rparr>"

definition press :: "char \<Rightarrow> event" where
  "press c = Key (normalized_char c)"

section \<open>Counts\<close>

datatype count_state = NoCount | Count bool nat

datatype count_action = AppendDigit nat | CancelEntry | SwitchHexEntry | RemoveLastDigit

definition count_default_maps :: "count_action key_map" where
  "count_default_maps = keys [
     k_key KEsc CancelEntry,
     k_key KBackspace RemoveLastDigit,
     k_char (CHR ''x'') SwitchHexEntry,
     k_char (CHR ''0'') (AppendDigit 0),
     k_char (CHR ''1'') (AppendDigit 1),
     k_char (CHR ''2'') (AppendDigit 2),
     k_char (CHR ''3'') (AppendDigit 3),
     k_char (CHR ''4'') (AppendDigit 4),
     k_char (CHR ''5'') (AppendDigit 5),
     k_char (CHR ''6'') (AppendDigit 6),
     k_char (CHR ''7'') (AppendDigit 7),
     k_char (CHR ''8'') (AppendDigit 8),
     k_char (CHR ''9'') (AppendDigit 9),
     k_char (CHR ''a'') (AppendDigit 10),
     k_char (CHR ''b'') (AppendDigit 11),
     k_char (CHR ''c'') (AppendDigit 12),
     k_char (CHR ''d'') (AppendDigit 13),
     k_char (CHR ''e'') (AppendDigit 14),
     k_char (CHR ''f'') (AppendDigit 15)]"

datatype count_transition = NotHandled | Update count_state

fun count_action_transition :: "count_state \<Rightarrow> count_action \<Rightarrow> count_transition" where
  "count_action_transition NoCount (AppendDigit d) =
     (if d > 9 then NotHandled else Update (Count False d))"
| "count_action_transition NoCount CancelEntry = NotHandled"
| "count_action_transition NoCount SwitchHexEntry = Update (Count True 0)"
| "count_action_transition NoCount RemoveLastDigit = NotHandled"
| "count_action_transition (Count False n) (AppendDigit d) =
     (if d > 9 then NotHandled else Update (Count False (usize_add (usize_mul n 10) d)))"
| "count_action_transition (Count True n) (AppendDigit d) =
     Update (Count True (usize_mul n 16 OR d))"
| "count_action_transition (Count True n) RemoveLastDigit =
     (if n \<ge> 16 then Update (Count True (n div 16)) else Update NoCount)"
| "count_action_transition (Count False n) RemoveLastDigit =
     (if n \<ge> 10 then Update (Count False (n div 10)) else Update NoCount)"
| "count_action_transition (Count hex n) CancelEntry = Update NoCount"
| "count_action_transition (Count hex n) SwitchHexEntry = Update (Count (\<not> hex) n)"

definition count_state_transition :: "count_state \<Rightarrow> event \<Rightarrow> count_transition" where
  "count_state_transition st evt =
     (case event_to_action count_default_maps evt of
        Some act \<Rightarrow> count_action_transition st act
      | None \<Rightarrow> NotHandled)"

definition to_count :: "count_state \<Rightarrow> nat" where
  "to_count st = (case st of Count hex n \<Rightarrow> n | NoCount \<Rightarrow> 1)"

subsection \<open>Printing counts\<close>

definition digit_char :: "nat \<Rightarrow> rchar" where
  "digit_char d = (if d < 10 then 48 + d else 87 + d)"

fun print_in :: "nat \<Rightarrow> nat \<Rightarrow> rstring" where
  "print_in b n = (if n < b \<or> b < 2 then [digit_char n] else print_in b (n div b) @ [digit_char (n mod b)])"

declare print_in.simps [simp del]

definition show_count :: "count_state \<Rightarrow> rstring" where
  "show_count st =
     (case st of
        NoCount \<Rightarrow> []
      | Count True n \<Rightarrow> (if n = 0 then str '' (0x)'' else str '' (0x'' @ print_in 16 n @ str '')'')
      | Count False n \<Rightarrow> str '' ('' @ print_in 10 n @ str '')'')"

end
