(* ===== verification/Mode.thy ===== *)
theory Mode
  imports Keymap Current_Buffer
begin

text \<open>
  The modes of the editor (src/modes/mode.rs and the structs of src/modes). A \<open>Box<dyn Mode>\<close> is a
  value of the datatype \<open>mode\<close>, one constructor per implementation of the trait with the fields of
  its struct; a \<open>SearchAcceptor\<close> is one of the two modes that implement it.
\<close>

datatype insertion_mode = InsertAt | AppendTo | OverwriteAt

datatype pattern_piece = Literal u8 | Wildcard

record pattern =
  pieces :: "pattern_piece list"

datatype search_acceptor = AcceptCollapse | AcceptSplit count_state

datatype mode =
    Normal (normal_count: count_state)
  | Insert (insert_mode: insertion_mode) (insert_hex: bool) (insert_half: "u8 option")
  | Replace (replace_hex: bool) (replace_half: "u8 option")
  | JumpTo (jump_extend: bool)
  | Split (split_count: count_state)
  | Search (search_pattern: pattern) (search_cursor: nat) (search_hex: bool)
      (search_half: "u8 option") (search_next: search_acceptor)
  | Collapse
  | Command (command_line: rstring) (command_cursor: nat)
  | Quitting

datatype mode_transition =
    TNone
  | NewMode mode
  | DirtyBytes dirty_bytes
  | ModeAndDirtyBytes mode dirty_bytes
  | ModeAndInfo mode rstring

definition normal_new :: mode where
  "normal_new = Normal NoCount"

definition takes_input :: "mode \<Rightarrow> bool" where
  "takes_input m = (case m of Quitting \<Rightarrow> False | _ \<Rightarrow> True)"

definition has_half_cursor :: "mode \<Rightarrow> bool" where
  "has_half_cursor m = (case m of Insert k h half \<Rightarrow> half \<noteq> None | _ \<Rightarrow> False)"

text \<open>A handler gets the current buffer mutably: read it, work on it, store it back.\<close>

definition on_current ::
    "'d buffr_collection \<Rightarrow> ('d buffer \<Rightarrow> ('a \<times> 'd buffer) outcome) \<Rightarrow> ('a \<times> 'd buffr_collection) outcome" where
  "on_current bc f =
     and_then (current bc) (\<lambda>buf. and_then (f buf) (\<lambda>(t, buf'). Inr (t, set_current buf' bc)))"

section \<open>Characters\<close>

definition len_utf8 :: "rchar \<Rightarrow> nat" where
  "len_utf8 c = (if c < 0x80 then 1 else if c < 0x800 then 2 else if c < 0x10000 then 3 else 4)"

definition encode_utf8 :: "rchar \<Rightarrow> bytes" where
  "encode_utf8 c =
     (if c < 0x80 then [of_nat c]
      else if c < 0x800 then [of_nat (0xC0 + c div 64), of_nat (0x80 + c mod 64)]
      else if c < 0x10000 then
        [of_nat (0xE0 + c div 4096), of_nat (0x80 + c div 64 mod 64), of_nat (0x80 + c mod 64)]
      else
        [of_nat (0xF0 + c div 262144), of_nat (0x80 + c div 4096 mod 64),
         of_nat (0x80 + c div 64 mod 64), of_nat (0x80 + c mod 64)])"

definition is_ascii_hexdigit :: "rchar \<Rightarrow> bool" where
  "is_ascii_hexdigit c \<longleftrightarrow> 48 \<le> c \<and> c \<le> 57 \<or> 65 \<le> c \<and> c \<le> 70 \<or> 97 \<le> c \<and> c \<le> 102"

definition to_digit :: "rchar \<Rightarrow> u8 outcome" where
  "to_digit c =
     (if 48 \<le> c \<and> c \<le> 57 then Inr (of_nat (c - 48))
      else if 65 \<le> c \<and> c \<le> 70 then Inr (of_nat (c - 55))
      else if 97 \<le> c \<and> c \<le> 102 then Inr (of_nat (c - 87))
      else Inl UnwrapNone)"

definition char_as_u8 :: "rchar \<Rightarrow> u8" where
  "char_as_u8 c = of_nat c"

lemma to_digit_ok: "is_ascii_hexdigit c \<Longrightarrow> ok (to_digit c)"
  by (auto simp: is_ascii_hexdigit_def to_digit_def)

lemma length_encode_utf8: "length (encode_utf8 c) = len_utf8 c"
  by (simp add: encode_utf8_def len_utf8_def)

lemma encode_utf8_nonempty [simp]: "encode_utf8 c \<noteq> []"
  by (simp add: encode_utf8_def)

end
