(* ===== verification/Mode_Edit.thy ===== *)
theory Mode_Edit
  imports Mode
begin

text \<open>
  The modes that change bytes while keys are typed: src/modes/insert.rs and src/modes/replace.rs,
  and the small src/modes/jumpto.rs. Every branch of the handlers is a branch here; \<open>None\<close> as the
  transition means the mode did not handle the event.
\<close>

unbundle bit_operations_syntax

section \<open>Insert\<close>

datatype insert_action = InsertNull | SwitchInputMode | RemoveLast | RemoveThis | Exit | Move direction

definition insert_default_maps :: "insert_action key_map" where
  "insert_default_maps = keys [
     k_ctrl (CHR ''n'') InsertNull,
     k_ctrl (CHR ''o'') SwitchInputMode,
     k_key KBackspace RemoveLast,
     k_key KDelete RemoveThis,
     k_key KEsc Exit,
     k_key KRight (Move Right),
     k_key KLeft (Move Left),
     k_key KUp (Move Up),
     k_key KDown (Move Down)]"

definition transition_ascii_insertion ::
    "('d, 's, 'b) xi \<Rightarrow> rchar \<Rightarrow> insertion_mode \<Rightarrow> 'd buffer \<Rightarrow> (mode_transition \<times> 'd buffer) outcome" where
  "transition_ascii_insertion X key imode buf =
     (let inserted_bytes = encode_utf8 key
      in and_then
           (case imode of
              OverwriteAt \<Rightarrow> change X (buf_data buf) (buf_selection buf) inserted_bytes
            | _ \<Rightarrow> insert_text X (buf_data buf) (buf_selection buf) inserted_bytes)
           (\<lambda>d. and_then (apply_incomplete_delta X d buf) (\<lambda>(changed, buf'). Inr (DirtyBytes changed, buf'))))"

definition transition_hex_insertion ::
    "('d, 's, 'b) xi \<Rightarrow> rchar \<Rightarrow> insertion_mode \<Rightarrow> u8 option \<Rightarrow> 'd buffer \<Rightarrow>
     (mode_transition option \<times> 'd buffer) outcome" where
  "transition_hex_insertion X key imode half buf =
     (if \<not> is_ascii_hexdigit key then Inr (None, buf)
      else and_then (to_digit key) (\<lambda>digit.
        let to_insert = (case half of Some x \<Rightarrow> x OR digit | None \<Rightarrow> push_bit 4 digit)
        in case half of
             None \<Rightarrow>
               and_then
                 (case imode of
                    OverwriteAt \<Rightarrow> overwrite_half X (buf_data buf) (buf_selection buf) to_insert
                  | _ \<Rightarrow> insert_text X (buf_data buf) (buf_selection buf) [to_insert])
                 (\<lambda>d. and_then (apply_incomplete_delta_offset_carets X d (- 1) 0 buf)
                        (\<lambda>(changed, buf').
                           Inr (Some (ModeAndDirtyBytes (Insert imode True (Some to_insert)) changed), buf')))
           | Some _ \<Rightarrow>
               and_then (change X (buf_data buf) (buf_selection buf) [to_insert])
                 (\<lambda>d. and_then (apply_incomplete_delta X d buf)
                        (\<lambda>(changed, buf').
                           Inr (Some (ModeAndDirtyBytes (Insert imode True None) changed), buf')))))"

definition insert_move_closure :: "direction \<Rightarrow> nat \<Rightarrow> nat \<Rightarrow> bool \<Rightarrow> sel_region \<Rightarrow> sel_region" where
  "insert_move_closure direction bytes_per_line max_bytes is_hex_half region =
     (let region' = simple_move region direction bytes_per_line max_bytes 1
      in if is_hex_half then simple_move region' Left bytes_per_line max_bytes 1 else region')"

definition insert_action_transition ::
    "('d, 's, 'b) xi \<Rightarrow> insertion_mode \<Rightarrow> bool \<Rightarrow> u8 option \<Rightarrow> insert_action \<Rightarrow> nat \<Rightarrow> 'd buffer \<Rightarrow>
     (mode_transition \<times> 'd buffer) outcome" where
  "insert_action_transition X imode hex half act bytes_per_line buf =
     (let new_state = Insert imode hex None
      in case act of
           Exit \<Rightarrow> Inr (NewMode normal_new, commit_delta buf)
         | InsertNull \<Rightarrow>
             and_then (insert_text X (buf_data buf) (buf_selection buf) [0]) (\<lambda>d.
             and_then (apply_incomplete_delta X d buf) (\<lambda>(changed, buf').
               Inr (ModeAndDirtyBytes new_state changed, buf')))
         | SwitchInputMode \<Rightarrow> Inr (NewMode (Insert imode (\<not> hex) None), buf)
         | RemoveLast \<Rightarrow>
             (if buf_data buf = [] then Inr (TNone, buf)
              else if half \<noteq> None then
                and_then (delete_cursor X (buf_data buf) (buf_selection buf)) (\<lambda>d.
                and_then (apply_incomplete_delta X d buf) (\<lambda>(changed, buf').
                  Inr (ModeAndDirtyBytes new_state changed, buf')))
              else
                and_then (backspace X (buf_data buf) (buf_selection buf)) (\<lambda>d.
                and_then (apply_incomplete_delta X d buf) (\<lambda>(changed, buf').
                  Inr (DirtyBytes changed, buf'))))
         | RemoveThis \<Rightarrow>
             (if buf_data buf = [] then Inr (TNone, buf)
              else
                and_then (delete_cursor X (buf_data buf) (buf_selection buf)) (\<lambda>d.
                and_then (apply_incomplete_delta X d buf) (\<lambda>(changed, buf').
                  Inr (if half \<noteq> None then ModeAndDirtyBytes new_state changed
                       else DirtyBytes changed, buf'))))
         | Move direction \<Rightarrow>
             and_then
               (if half \<noteq> None
                then and_then (transition_hex_insertion X (ch (CHR ''0'')) imode half buf) (\<lambda>(_, b). Inr b)
                else Inr buf)
               (\<lambda>buf1.
                  let max_bytes = length (buf_data buf1)
                  in and_then
                       (buffer_map_selections X
                          (single (insert_move_closure direction bytes_per_line max_bytes (half \<noteq> None))) () buf1)
                       (\<lambda>(changed, buf'). Inr (ModeAndDirtyBytes new_state changed, buf'))))"

definition insert_transition ::
    "('d, 's, 'b) xi \<Rightarrow> insertion_mode \<Rightarrow> bool \<Rightarrow> u8 option \<Rightarrow> event \<Rightarrow> nat \<Rightarrow> 'd buffer \<Rightarrow>
     (mode_transition option \<times> 'd buffer) outcome" where
  "insert_transition X imode hex half evt bytes_per_line buf =
     (case event_to_action insert_default_maps evt of
        Some act \<Rightarrow>
          and_then (insert_action_transition X imode hex half act bytes_per_line buf)
            (\<lambda>(t, buf'). Inr (Some t, buf'))
      | None \<Rightarrow>
          (case evt of
             Key e \<Rightarrow>
               (case code e of
                  KChar key \<Rightarrow>
                    (if \<not> no_modifier_set (without_shift (modifiers e)) then Inr (None, buf)
                     else if hex then transition_hex_insertion X key imode half buf
                     else and_then (transition_ascii_insertion X key imode buf)
                            (\<lambda>(t, buf'). Inr (Some t, buf')))
                | _ \<Rightarrow> Inr (None, buf))
           | _ \<Rightarrow> Inr (None, buf)))"

definition insert_name :: "insertion_mode \<Rightarrow> bool \<Rightarrow> rstring" where
  "insert_name imode hex =
     str (case (imode, hex) of
            (InsertAt, True) \<Rightarrow> ''INSERT (hex)''
          | (InsertAt, False) \<Rightarrow> ''INSERT (ascii)''
          | (AppendTo, True) \<Rightarrow> ''APPEND (hex)''
          | (AppendTo, False) \<Rightarrow> ''APPEND (ascii)''
          | (OverwriteAt, True) \<Rightarrow> ''OVERWRITE (hex)''
          | (OverwriteAt, False) \<Rightarrow> ''OVERWRITE (ascii)'')"

section \<open>Replace\<close>

datatype replace_action = ReplaceNull

definition replace_default_maps :: "replace_action key_map" where
  "replace_default_maps = keys [k_ctrl (CHR ''n'') ReplaceNull]"

definition replace_with ::
    "('d, 's, 'b) xi \<Rightarrow> u8 \<Rightarrow> 'd buffer \<Rightarrow> (mode_transition option \<times> 'd buffer) outcome" where
  "replace_with X c buf =
     and_then (replace X (buf_data buf) (buf_selection buf) c) (\<lambda>d.
     and_then (buffer_apply_delta X d buf) (\<lambda>(changed, buf').
       Inr (Some (ModeAndDirtyBytes normal_new changed), buf')))"

definition replace_transition ::
    "('d, 's, 'b) xi \<Rightarrow> bool \<Rightarrow> u8 option \<Rightarrow> event \<Rightarrow> 'd buffer \<Rightarrow>
     (mode_transition option \<times> 'd buffer) outcome" where
  "replace_transition X hex half evt buf =
     (case evt of
        Key e \<Rightarrow>
          (case code e of
             KChar c \<Rightarrow>
               (case event_to_action replace_default_maps evt of
                  Some ReplaceNull \<Rightarrow> replace_with X 0 buf
                | None \<Rightarrow>
                    (if \<not> no_modifier_set (without_shift (modifiers e)) then Inr (Some (NewMode normal_new), buf)
                     else if \<not> hex then replace_with X (char_as_u8 c) buf
                     else case half of
                       None \<Rightarrow>
                         (if \<not> is_ascii_hexdigit c then Inr (Some (NewMode normal_new), buf)
                          else and_then (to_digit c) (\<lambda>digit.
                            Inr (Some (NewMode (Replace hex (Some (push_bit 4 digit)))), buf)))
                     | Some h \<Rightarrow>
                         (if \<not> is_ascii_hexdigit c then Inr (Some (NewMode normal_new), buf)
                          else and_then (to_digit c) (\<lambda>digit. replace_with X (digit OR h) buf))))
           | _ \<Rightarrow> Inr (Some (NewMode normal_new), buf))
      | _ \<Rightarrow> Inr (None, buf))"

definition replace_name :: "bool \<Rightarrow> u8 option \<Rightarrow> rstring" where
  "replace_name hex half =
     (if \<not> hex then str ''REPLACE (ascii)''
      else case half of
        None \<Rightarrow> str ''REPLACE (hex)''
      | Some c \<Rightarrow> str ''REPLACE (hex: '' @ print_in 16 (unat (drop_bit 4 c)) @ str ''...)'')"

section \<open>Jump to a boundary\<close>

definition jumpto_default_maps :: "direction key_map" where
  "jumpto_default_maps = keys [
     k_key KLeft Left,
     k_char (CHR ''h'') Left,
     k_key KDown Down,
     k_char (CHR ''j'') Down,
     k_key KUp Up,
     k_char (CHR ''k'') Up,
     k_key KRight Right,
     k_char (CHR ''l'') Right]"

definition one_region :: "(sel_region \<Rightarrow> sel_region outcome) \<Rightarrow> unit \<Rightarrow> sel_region \<Rightarrow> (sel_region list \<times> unit) outcome" where
  "one_region g st r = and_then (g r) (\<lambda>r'. Inr ([r'], ()))"

definition jumpto_transition ::
    "('d, 's, 'b) xi \<Rightarrow> bool \<Rightarrow> event \<Rightarrow> nat \<Rightarrow> 'd buffer \<Rightarrow>
     (mode_transition option \<times> 'd buffer) outcome" where
  "jumpto_transition X extending evt bytes_per_line buf =
     (case event_to_action jumpto_default_maps evt of
        Some direction \<Rightarrow>
          (let max_bytes = length (buf_data buf)
           in and_then
                (buffer_map_selections X
                   (one_region (\<lambda>region.
                      if extending then extend_to_boundary region direction bytes_per_line max_bytes
                      else jump_to_boundary region direction bytes_per_line max_bytes)) () buf)
                (\<lambda>(changed, buf'). Inr (Some (ModeAndDirtyBytes normal_new changed), buf')))
      | None \<Rightarrow>
          (case evt of Key _ \<Rightarrow> Inr (Some (NewMode normal_new), buf) | _ \<Rightarrow> Inr (None, buf)))"

definition jumpto_name :: "bool \<Rightarrow> rstring" where
  "jumpto_name extending = (if extending then str ''EXTEND'' else str ''JUMP'')"

end
