(* ===== verification/Mode_Search.thy ===== *)
theory Mode_Search
  imports Mode
begin

text \<open>
  Patterns and search (src/modes/search.rs), and the two modes that use a search:
  src/modes/collapse.rs (keep only the matches) and src/modes/split.rs (cut the matches out, or cut
  into pieces of one width). The substring search of jetscii and the regular expressions of the
  regex crate are parameters of the model (\<open>matcher\<close>).
\<close>

type_synonym range = "nat \<times> nat"

record matcher =
  substring_find :: "bytes \<Rightarrow> bytes \<Rightarrow> nat option"
  regex_find_iter :: "rstring \<Rightarrow> bytes \<Rightarrow> range list option"

section \<open>Patterns\<close>

definition pieces_insert :: "nat \<Rightarrow> pattern_piece \<Rightarrow> pattern \<Rightarrow> pattern outcome" where
  "pieces_insert position piece p =
     (if position \<le> length (pieces p)
      then Inr (p\<lparr>pieces := take position (pieces p) @ piece # drop position (pieces p)\<rparr>)
      else Inl IndexOutOfBounds)"

definition insert_literal :: "nat \<Rightarrow> u8 \<Rightarrow> pattern \<Rightarrow> (nat \<times> pattern) outcome" where
  "insert_literal position literal p =
     and_then (pieces_insert position (Literal literal) p) (\<lambda>p'. Inr (position + 1, p'))"

definition insert_half_literal :: "nat \<Rightarrow> u8 \<Rightarrow> pattern \<Rightarrow> (nat \<times> pattern) outcome" where
  "insert_half_literal position literal p =
     (if position < length (pieces p)
      then Inr (position + 1, p\<lparr>pieces := (pieces p)[position := Literal literal]\<rparr>)
      else Inl IndexOutOfBounds)"

definition insert_wildcard :: "nat \<Rightarrow> pattern \<Rightarrow> (nat \<times> pattern) outcome" where
  "insert_wildcard position p =
     and_then (pieces_insert position Wildcard p) (\<lambda>p'. Inr (position + 1, p'))"

definition pattern_remove :: "nat \<Rightarrow> pattern \<Rightarrow> bool \<times> pattern" where
  "pattern_remove position p =
     (if position < length (pieces p)
      then (True, p\<lparr>pieces := take position (pieces p) @ drop (Suc position) (pieces p)\<rparr>)
      else (False, p))"

fun pieces_basic :: "pattern_piece list \<Rightarrow> bytes option" where
  "pieces_basic [] = Some []"
| "pieces_basic (Literal c # ps) = map_option (Cons c) (pieces_basic ps)"
| "pieces_basic (Wildcard # ps) = None"

definition as_basic_slice :: "pattern \<Rightarrow> bytes option" where
  "as_basic_slice p = pieces_basic (pieces p)"

text \<open>
  The \<open>while let\<close> loop over the matches of one region. Each round moves \<open>slice_base\<close> past a match,
  so one round more than there are bytes is enough fuel for a non-empty pattern.
\<close>

fun find_matches :: "matcher \<Rightarrow> bytes \<Rightarrow> bytes \<Rightarrow> nat \<Rightarrow> nat \<Rightarrow> nat \<Rightarrow> range list outcome" where
  "find_matches mt basic_subslice bs base slice_base 0 = Inl NoReturn"
| "find_matches mt basic_subslice bs base slice_base (Suc fuel) =
     (if slice_base > length bs then Inl IndexOutOfBounds
      else case substring_find mt basic_subslice (drop slice_base bs) of
        None \<Rightarrow> Inr []
      | Some start \<Rightarrow>
          (let match_abs_start = base + start
           in and_then
                (find_matches mt basic_subslice bs (match_abs_start + length basic_subslice)
                   (slice_base + start + length basic_subslice) fuel)
                (\<lambda>ms. Inr ((match_abs_start, match_abs_start + length basic_subslice) # ms))))"

fun traverse :: "('a \<Rightarrow> 'b outcome) \<Rightarrow> 'a list \<Rightarrow> 'b list outcome" where
  "traverse f [] = Inr []"
| "traverse f (x # xs) = and_then (f x) (\<lambda>y. and_then (traverse f xs) (\<lambda>ys. Inr (y # ys)))"

definition hex2 :: "u8 \<Rightarrow> rstring" where
  "hex2 c = [digit_char (unat c div 16), digit_char (unat c mod 16)]"

definition piece_expr :: "pattern_piece \<Rightarrow> rstring" where
  "piece_expr x = (case x of Wildcard \<Rightarrow> str ''.'' | Literal c \<Rightarrow> [92, ch (CHR ''x'')] @ hex2 c)"

definition map_selections_to_matches ::
    "matcher \<Rightarrow> pattern \<Rightarrow> 'd buffer \<Rightarrow> range list list outcome" where
  "map_selections_to_matches mt p buf =
     (case as_basic_slice p of
        Some basic_subslice \<Rightarrow>
          traverse (\<lambda>x.
            and_then (slice_to_cow (buf_data buf) (region_min x) (region_max x + 1)) (\<lambda>bs.
              find_matches mt basic_subslice bs (region_min x) 0 (Suc (length bs))))
            (regions (buf_selection buf))
      | None \<Rightarrow>
          (let expr = concat (map piece_expr (pieces p))
           in traverse (\<lambda>x.
                and_then (slice_to_cow (buf_data buf) (region_min x) (region_max x + 1)) (\<lambda>bs.
                  case regex_find_iter mt expr bs of
                    None \<Rightarrow> Inl UnwrapNone
                  | Some rs \<Rightarrow> Inr (map (\<lambda>(s, e). (region_min x + s, region_min x + e)) rs)))
                (regions (buf_selection buf))))"

definition ranges_len :: "range list list \<Rightarrow> nat" where
  "ranges_len rss = sum_list (map (\<lambda>(s, e). e - s) (concat rss))"

section \<open>Collapse\<close>

definition collapse_closure ::
    "range list list \<Rightarrow> sel_region \<Rightarrow> (sel_region list \<times> range list list) outcome" where
  "collapse_closure remaining base_region =
     (case remaining of
        [] \<Rightarrow> Inl UnwrapNone
      | this # rest \<Rightarrow>
          Inr (map (\<lambda>(s, e). inherit_direction (region_new s (e - 1)) base_region) this, rest))"

definition collapse_apply_search ::
    "('d, 's, 'b) xi \<Rightarrow> matcher \<Rightarrow> pattern \<Rightarrow> 'd buffer \<Rightarrow> (mode_transition \<times> 'd buffer) outcome" where
  "collapse_apply_search X mt p buf =
     (if pieces p = [] then Inr (NewMode normal_new, buf)
      else and_then (map_selections_to_matches mt p buf) (\<lambda>matched_ranges.
        if ranges_len matched_ranges = 0 then Inr (NewMode normal_new, buf)
        else and_then (buffer_map_selections X collapse_closure matched_ranges buf)
               (\<lambda>(changed, buf'). Inr (ModeAndDirtyBytes normal_new changed, buf'))))"

section \<open>Split\<close>

fun split_ranges :: "sel_region \<Rightarrow> range list \<Rightarrow> sel_region list" where
  "split_ranges base_region [] = [base_region]"
| "split_ranges base_region ((start, stop) # ranges) =
     (let (left, right) = split_at_region base_region start (stop - 1);
          out = (case left of Some l \<Rightarrow> [l] | None \<Rightarrow> [])
      in case right of
           Some r \<Rightarrow> out @ split_ranges r ranges
         | None \<Rightarrow> out)"

definition split_closure ::
    "range list list \<Rightarrow> sel_region \<Rightarrow> (sel_region list \<times> range list list) outcome" where
  "split_closure remaining base_region =
     (case remaining of
        [] \<Rightarrow> Inl IndexOutOfBounds
      | this # rest \<Rightarrow> Inr (split_ranges base_region this, rest))"

definition split_apply_search ::
    "('d, 's, 'b) xi \<Rightarrow> matcher \<Rightarrow> pattern \<Rightarrow> 'd buffer \<Rightarrow> (mode_transition \<times> 'd buffer) outcome" where
  "split_apply_search X mt p buf =
     (if pieces p = [] then Inr (NewMode normal_new, buf)
      else and_then (map_selections_to_matches mt p buf) (\<lambda>matched_ranges.
        if ranges_len matched_ranges = len_bytes (buf_selection buf) then Inr (NewMode normal_new, buf)
        else and_then (buffer_map_selections X split_closure matched_ranges buf)
               (\<lambda>(changed, buf'). Inr (ModeAndDirtyBytes normal_new changed, buf'))))"

datatype split_action = Width nat | SplitNull | SplitSearch bool

definition split_default_maps :: "split_action key_map" where
  "split_default_maps = keys [
     k_char (CHR ''b'') (Width 1),
     k_char (CHR ''w'') (Width 2),
     k_char (CHR ''d'') (Width 4),
     k_char (CHR ''q'') (Width 8),
     k_char (CHR ''o'') (Width 16),
     k_char (CHR ''n'') SplitNull,
     k_char (CHR ''/'') (SplitSearch False),
     k_char (CHR ''?'') (SplitSearch True)]"

text \<open>
  The closure of \<open>Action::Width\<close>: \<open>(min..=max).step_by(width * count)\<close> panics on a zero step; the
  positions are those of the inclusive range, one step apart.
\<close>

function positions_from :: "nat \<Rightarrow> nat \<Rightarrow> nat \<Rightarrow> nat list" where
  "positions_from pos mx step =
     (if step = 0 \<or> pos > mx then [] else pos # positions_from (pos + step) mx step)"
  by pat_completeness auto
termination
  by (relation "measure (\<lambda>(pos, mx, step). Suc mx - pos)") auto

declare positions_from.simps [simp del]

definition width_closure :: "nat \<Rightarrow> unit \<Rightarrow> sel_region \<Rightarrow> (sel_region list \<times> unit) outcome" where
  "width_closure step st region =
     (if step = 0 then Inl StepByZero
      else Inr (map (\<lambda>pos. with_direction (region_new pos (min (region_max region) (usize_sub (usize_add pos step) 1)))
                             (backward region))
                  (positions_from (region_min region) (region_max region) step), ()))"

definition search_new :: "search_acceptor \<Rightarrow> bool \<Rightarrow> mode" where
  "search_new next hex = Search \<lparr>pieces = []\<rparr> 0 hex None next"

definition split_transition ::
    "('d, 's, 'b) xi \<Rightarrow> matcher \<Rightarrow> count_state \<Rightarrow> event \<Rightarrow> 'd buffer \<Rightarrow>
     (mode_transition option \<times> 'd buffer) outcome" where
  "split_transition X mt count_st evt buf =
     (case count_state_transition count_st evt of
        Update new_state \<Rightarrow> Inr (Some (NewMode (Split new_state)), buf)
      | NotHandled \<Rightarrow>
          (case event_to_action split_default_maps evt of
             Some (Width width) \<Rightarrow>
               and_then (buffer_map_selections X (width_closure (usize_mul width (to_count count_st))) () buf)
                 (\<lambda>(changed, buf'). Inr (Some (ModeAndDirtyBytes normal_new changed), buf'))
           | Some SplitNull \<Rightarrow>
               and_then (split_apply_search X mt \<lparr>pieces = replicate (to_count count_st) (Literal 0)\<rparr> buf)
                 (\<lambda>(t, buf'). Inr (Some t, buf'))
           | Some (SplitSearch hex) \<Rightarrow> Inr (Some (NewMode (search_new (AcceptSplit count_st) hex)), buf)
           | None \<Rightarrow>
               (case evt of Key _ \<Rightarrow> Inr (Some (NewMode normal_new), buf) | _ \<Rightarrow> Inr (None, buf))))"

section \<open>Search\<close>

datatype search_action =
    InsertNullPiece | InsertWildcard | RemoveLastPiece | RemoveThisPiece | SearchLeft | SearchRight
  | SearchSwitchInput | SearchFinish | SearchCancel

definition search_default_maps :: "search_action key_map" where
  "search_default_maps = keys [
     k_key KBackspace RemoveLastPiece,
     k_key KDelete RemoveThisPiece,
     k_key KEnter SearchFinish,
     k_key KEsc SearchCancel,
     k_key KLeft SearchLeft,
     k_key KRight SearchRight,
     k_ctrl (CHR ''o'') SearchSwitchInput,
     k_ctrl (CHR ''n'') InsertNullPiece,
     k_ctrl (CHR ''w'') InsertWildcard]"

definition apply_search ::
    "('d, 's, 'b) xi \<Rightarrow> matcher \<Rightarrow> search_acceptor \<Rightarrow> pattern \<Rightarrow> 'd buffr_collection \<Rightarrow>
     (mode_transition \<times> 'd buffr_collection) outcome" where
  "apply_search X mt next p bc =
     on_current bc (\<lambda>buf.
       case next of AcceptCollapse \<Rightarrow> collapse_apply_search X mt p buf
         | AcceptSplit _ \<Rightarrow> split_apply_search X mt p buf)"

definition search_action_transition ::
    "('d, 's, 'b) xi \<Rightarrow> matcher \<Rightarrow> pattern \<Rightarrow> nat \<Rightarrow> bool \<Rightarrow> u8 option \<Rightarrow> search_acceptor \<Rightarrow>
     search_action \<Rightarrow> 'd buffr_collection \<Rightarrow> (mode_transition option \<times> 'd buffr_collection) outcome" where
  "search_action_transition X mt p cursor0 hex half next act bc =
     (let cursor = (if half \<noteq> None then cursor0 + 1 else cursor0);
          continue = (\<lambda>p' cursor' hex'. Inr (Some (NewMode (Search p' cursor' hex' None next)), bc))
      in case act of
           InsertNullPiece \<Rightarrow> and_then (insert_literal cursor 0 p) (\<lambda>(c, p'). continue p' c hex)
         | InsertWildcard \<Rightarrow> and_then (insert_wildcard cursor p) (\<lambda>(c, p'). continue p' c hex)
         | RemoveLastPiece \<Rightarrow>
             (if cursor \<noteq> 0 then continue (snd (pattern_remove (cursor - 1) p)) (cursor - 1) hex
              else Inr (Some TNone, bc))
         | RemoveThisPiece \<Rightarrow> continue (snd (pattern_remove cursor p)) cursor hex
         | SearchLeft \<Rightarrow> continue p (if cursor \<noteq> 0 then cursor - 1 else cursor) hex
         | SearchRight \<Rightarrow> continue p (if cursor < length (pieces p) then cursor + 1 else cursor) hex
         | SearchSwitchInput \<Rightarrow> continue p cursor (\<not> hex)
         | SearchCancel \<Rightarrow> Inr (Some (NewMode normal_new), bc)
         | SearchFinish \<Rightarrow>
             and_then (apply_search X mt next p bc) (\<lambda>(t, bc'). Inr (Some t, bc')))"

definition search_transition ::
    "('d, 's, 'b) xi \<Rightarrow> matcher \<Rightarrow> pattern \<Rightarrow> nat \<Rightarrow> bool \<Rightarrow> u8 option \<Rightarrow> search_acceptor \<Rightarrow>
     event \<Rightarrow> 'd buffr_collection \<Rightarrow> (mode_transition option \<times> 'd buffr_collection) outcome" where
  "search_transition X mt p cursor hex half next evt bc =
     (case event_to_action search_default_maps evt of
        Some act \<Rightarrow> search_action_transition X mt p cursor hex half next act bc
      | None \<Rightarrow>
          (case evt of
             Key e \<Rightarrow> (case code e of KChar c \<Rightarrow>
               (if \<not> no_modifier_set (modifiers e) then Inr (None, bc)
                else if \<not> hex then
                  and_then (insert_literal cursor (char_as_u8 c) p)
                    (\<lambda>(cursor', p'). Inr (Some (NewMode (Search p' cursor' hex half next)), bc))
                else if \<not> is_ascii_hexdigit c then Inr (None, bc)
                else and_then (to_digit c) (\<lambda>hex_digit.
                  case half of
                    Some h \<Rightarrow>
                      and_then (insert_half_literal cursor (h OR hex_digit) p)
                        (\<lambda>(cursor', p'). Inr (Some (NewMode (Search p' cursor' hex None next)), bc))
                  | None \<Rightarrow>
                      and_then (insert_literal cursor (push_bit 4 hex_digit) p)
                        (\<lambda>(_, p'). Inr (Some (NewMode (Search p' cursor hex (Some (push_bit 4 hex_digit)) next)), bc))))
               | _ \<Rightarrow> Inr (None, bc))
           | _ \<Rightarrow> Inr (None, bc)))"

end
