(* ===== verification/Mode_Normal.thy ===== *)
theory Mode_Normal
  imports Mode_Search
begin

text \<open>Normal mode (src/modes/normal.rs): the key map and every action of the handler.\<close>

datatype normal_action =
    NMove direction
  | NExtend direction
  | SplitMode
  | JumpToMode
  | ExtendToMode
  | CollapseMode bool
  | CommandMode
  | SwapCaret
  | CollapseSelection
  | Delete rchar
  | Yank rchar
  | Paste bool rchar
  | Change bool rchar
  | NInsert bool
  | Append bool
  | Overwrite bool
  | RemoveMain
  | RetainMain
  | SelectPrev
  | SelectNext
  | SelectAll
  | ReplaceMode bool
  | Measure
  | Undo
  | Redo

definition quote_register :: rchar where
  "quote_register = ch (CHR 0x22)"

definition normal_default_maps :: "normal_action key_map" where
  "normal_default_maps = keys [
     k_char (CHR ''h'') (NMove Left),
     k_key KLeft (NMove Left),
     k_char (CHR ''j'') (NMove Down),
     k_key KDown (NMove Down),
     k_char (CHR ''k'') (NMove Up),
     k_key KUp (NMove Up),
     k_char (CHR ''l'') (NMove Right),
     k_key KRight (NMove Right),
     k_char (CHR ''H'') (NExtend Left),
     k_char (CHR ''J'') (NExtend Down),
     k_char (CHR ''K'') (NExtend Up),
     k_char (CHR ''L'') (NExtend Right),
     k_char (CHR ''g'') JumpToMode,
     k_char (CHR ''G'') ExtendToMode,
     k_alt (CHR ''s'') SplitMode,
     k_char (CHR '':'') CommandMode,
     k_char (CHR '';'') CollapseSelection,
     k_alt (CHR '';'') SwapCaret,
     k_char (CHR ''%'') SelectAll,
     k_char (CHR '' '') RetainMain,
     k_alt (CHR '' '') RemoveMain,
     k_char (CHR ''('') SelectPrev,
     k_char (CHR '')'') SelectNext,
     k_char (CHR ''M'') Measure,
     k_char (CHR ''u'') Undo,
     k_char (CHR ''U'') Redo,
     k_char (CHR ''p'') (Paste True quote_register),
     k_char (CHR ''P'') (Paste False quote_register),
     k_char (CHR ''d'') (Delete quote_register),
     k_char (CHR ''y'') (Yank quote_register),
     k_char (CHR ''c'') (Change False quote_register),
     k_char (CHR ''C'') (Change True quote_register),
     k_char (CHR ''i'') (NInsert False),
     k_char (CHR ''I'') (NInsert True),
     k_char (CHR ''a'') (Append False),
     k_char (CHR ''A'') (Append True),
     k_char (CHR ''r'') (ReplaceMode False),
     k_char (CHR ''R'') (ReplaceMode True),
     k_char (CHR ''o'') (Overwrite False),
     k_char (CHR ''O'') (Overwrite True),
     k_char (CHR ''s'') (CollapseMode False),
     k_char (CHR ''S'') (CollapseMode True)]"

definition and_new_mode ::
    "mode \<Rightarrow> (dirty_bytes \<times> 'd buffer) outcome \<Rightarrow> (mode_transition \<times> 'd buffer) outcome" where
  "and_new_mode m r = and_then r (\<lambda>(changed, buf'). Inr (ModeAndDirtyBytes m changed, buf'))"

definition and_dirty ::
    "(dirty_bytes \<times> 'd buffer) outcome \<Rightarrow> (mode_transition \<times> 'd buffer) outcome" where
  "and_dirty r = and_then r (\<lambda>(changed, buf'). Inr (DirtyBytes changed, buf'))"

definition measure_info :: "sel_region \<Rightarrow> rstring" where
  "measure_info r = print_in 10 (region_len r) @ str '' = 0x'' @ print_in 16 (region_len r) @ str '' bytes''"

text \<open>The actions on the main region: in the user interface regions are counted from one, so a count of zero is no count.\<close>

definition normal_remove_main :: "('d, 's, 'b) xi \<Rightarrow> count_state \<Rightarrow> 'd buffer \<Rightarrow> (mode_transition \<times> 'd buffer) outcome" where
  "normal_remove_main X count_st buf =
     (case count_st of
        Count _ n \<Rightarrow>
          (if n > 0 then and_new_mode normal_new (remove_selection X (n - 1) buf)
           else and_dirty (remove_selection X (main_selection (buf_selection buf)) buf))
      | NoCount \<Rightarrow> and_dirty (remove_selection X (main_selection (buf_selection buf)) buf))"

definition normal_retain_main :: "('d, 's, 'b) xi \<Rightarrow> count_state \<Rightarrow> 'd buffer \<Rightarrow> (mode_transition \<times> 'd buffer) outcome" where
  "normal_retain_main X count_st buf =
     (case count_st of
        Count _ n \<Rightarrow>
          (if n > 0 then and_new_mode normal_new (retain_selection X (n - 1) buf)
           else and_dirty (retain_selection X (main_selection (buf_selection buf)) buf))
      | NoCount \<Rightarrow> and_dirty (retain_selection X (main_selection (buf_selection buf)) buf))"

definition normal_select_all :: "'d buffer \<Rightarrow> (mode_transition \<times> 'd buffer) outcome" where
  "normal_select_all buf =
     Inr (DirtyBytes (ChangeInPlace [interval_new 0 (length (buf_data buf))]),
          buf\<lparr>buf_selection := select_all (length (buf_data buf)) (buf_selection buf)\<rparr>)"

definition normal_measure :: "'d buffer \<Rightarrow> (mode_transition \<times> 'd buffer) outcome" where
  "normal_measure buf =
     and_then (main_region (buf_selection buf)) (\<lambda>r. Inr (ModeAndInfo normal_new (measure_info r), buf))"

definition normal_undo :: "('d, 's, 'b) xi \<Rightarrow> 'd buffer \<Rightarrow> (mode_transition \<times> 'd buffer) outcome" where
  "normal_undo X buf =
     (case perform_undo X buf of
        (None, buf') \<Rightarrow> Inr (ModeAndInfo normal_new (str ''nothing left to undo''), buf')
      | (Some changed, buf') \<Rightarrow> Inr (ModeAndDirtyBytes normal_new changed, buf'))"

definition normal_redo :: "('d, 's, 'b) xi \<Rightarrow> 'd buffer \<Rightarrow> (mode_transition \<times> 'd buffer) outcome" where
  "normal_redo X buf =
     (case perform_redo X buf of
        (None, buf') \<Rightarrow> Inr (ModeAndInfo normal_new (str ''nothing left to redo''), buf')
      | (Some changed, buf') \<Rightarrow> Inr (ModeAndDirtyBytes normal_new changed, buf'))"

definition normal_action_transition ::
    "('d, 's, 'b) xi \<Rightarrow> count_state \<Rightarrow> normal_action \<Rightarrow> nat \<Rightarrow> 'd buffer \<Rightarrow>
     (mode_transition \<times> 'd buffer) outcome" where
  "normal_action_transition X count_st act bytes_per_line buf =
     (case act of
        JumpToMode \<Rightarrow>
          (case count_st of
             NoCount \<Rightarrow> Inr (NewMode (JumpTo False), buf)
           | Count _ offset \<Rightarrow>
               and_new_mode normal_new (buffer_map_selections X (single (\<lambda>r. jump_to r offset)) () buf))
      | ExtendToMode \<Rightarrow>
          (case count_st of
             NoCount \<Rightarrow> Inr (NewMode (JumpTo True), buf)
           | Count _ offset \<Rightarrow>
               and_new_mode normal_new (buffer_map_selections X (single (\<lambda>r. extend_to r offset)) () buf))
      | SplitMode \<Rightarrow> Inr (NewMode (Split NoCount), buf)
      | NInsert hex \<Rightarrow>
          and_new_mode (Insert InsertAt hex None) (buffer_map_selections X (single to_backward) () buf)
      | Append hex \<Rightarrow>
          (let max_size = length (buf_data buf)
           in and_new_mode (Insert AppendTo hex None)
                (buffer_map_selections X (single (append_region bytes_per_line max_size)) () buf))
      | ReplaceMode hex \<Rightarrow> Inr (NewMode (Replace hex None), buf)
      | Overwrite hex \<Rightarrow> Inr (NewMode (Insert OverwriteAt hex None), buf)
      | NMove direction \<Rightarrow>
          (let max_bytes = length (buf_data buf)
           in and_new_mode normal_new
                (buffer_map_selections X
                   (single (\<lambda>r. simple_move r direction bytes_per_line max_bytes (to_count count_st))) () buf))
      | NExtend direction \<Rightarrow>
          (let max_bytes = length (buf_data buf)
           in and_new_mode normal_new
                (buffer_map_selections X
                   (single (\<lambda>r. simple_extend r direction bytes_per_line max_bytes (to_count count_st))) () buf))
      | SwapCaret \<Rightarrow> and_dirty (buffer_map_selections X (single swap_caret) () buf)
      | CollapseSelection \<Rightarrow> and_dirty (buffer_map_selections X (single collapse) () buf)
      | Delete register \<Rightarrow>
          and_then (yank_selections register buf) (\<lambda>buf1.
            if buf_data buf1 \<noteq> [] then
              and_then (deletion X (buf_data buf1) (buf_selection buf1)) (\<lambda>d.
                and_dirty (buffer_apply_delta X d buf1))
            else Inr (TNone, buf1))
      | Change hex register \<Rightarrow>
          and_then (yank_selections register buf) (\<lambda>buf1.
            if buf_data buf1 \<noteq> [] then
              and_then (deletion X (buf_data buf1) (buf_selection buf1)) (\<lambda>d.
                and_new_mode (Insert InsertAt hex None) (buffer_apply_delta X d buf1))
            else Inr (NewMode (Insert InsertAt hex None), buf1))
      | Yank register \<Rightarrow> and_then (yank_selections register buf) (\<lambda>buf1. Inr (TNone, buf1))
      | Paste after register \<Rightarrow>
          and_then
            (paste X (buf_data buf) (buf_selection buf)
               (case buf_registers buf register of Some cs \<Rightarrow> cs | None \<Rightarrow> [[]]) after (to_count count_st))
            (\<lambda>d. and_dirty (buffer_apply_delta X d buf))
      | RemoveMain \<Rightarrow> normal_remove_main X count_st buf
      | RetainMain \<Rightarrow> normal_retain_main X count_st buf
      | SelectNext \<Rightarrow> and_new_mode normal_new (buffer_select_next X (to_count count_st) buf)
      | SelectPrev \<Rightarrow> and_new_mode normal_new (buffer_select_prev X (to_count count_st) buf)
      | SelectAll \<Rightarrow> normal_select_all buf
      | CollapseMode hex \<Rightarrow> Inr (NewMode (search_new AcceptCollapse hex), buf)
      | Measure \<Rightarrow> normal_measure buf
      | CommandMode \<Rightarrow> Inr (NewMode (Command [] 0), buf)
      | Undo \<Rightarrow> normal_undo X buf
      | Redo \<Rightarrow> normal_redo X buf)"

lemmas normal_action_defs = normal_action_transition_def normal_remove_main_def normal_retain_main_def normal_select_all_def
  normal_measure_def normal_undo_def normal_redo_def

definition normal_transition ::
    "('d, 's, 'b) xi \<Rightarrow> count_state \<Rightarrow> event \<Rightarrow> nat \<Rightarrow> 'd buffer \<Rightarrow>
     (mode_transition option \<times> 'd buffer) outcome" where
  "normal_transition X count_st evt bytes_per_line buf =
     (case count_state_transition count_st evt of
        Update new_state \<Rightarrow> Inr (Some (NewMode (Normal new_state)), buf)
      | NotHandled \<Rightarrow>
          (case event_to_action normal_default_maps evt of
             Some act \<Rightarrow>
               and_then (normal_action_transition X count_st act bytes_per_line buf)
                 (\<lambda>(t, buf'). Inr (Some t, buf'))
           | None \<Rightarrow> Inr (None, buf)))"

end
