(* ===== verification/Mode_Command.thy ===== *)
theory Mode_Command
  imports Mode
begin

text \<open>
  The command line (src/modes/command.rs). The line is a \<open>String\<close>, so \<open>insert\<close> and \<open>remove\<close> take byte
  offsets and panic off a character boundary; \<open>char_at_byte\<close> translates. The commands that read or
  write files pass the file system along.
\<close>

section \<open>Editing the line\<close>

definition string_len :: "rstring \<Rightarrow> nat" where
  "string_len s = sum_list (map len_utf8 s)"

fun char_at_byte :: "rstring \<Rightarrow> nat \<Rightarrow> nat option" where
  "char_at_byte [] n = (if n = 0 then Some 0 else None)"
| "char_at_byte (c # cs) n =
     (if n = 0 then Some 0
      else if n < len_utf8 c then None
      else map_option Suc (char_at_byte cs (n - len_utf8 c)))"

definition string_remove :: "nat \<Rightarrow> rstring \<Rightarrow> rstring outcome" where
  "string_remove idx s =
     (case char_at_byte s idx of
        Some i \<Rightarrow> (if i < length s then Inr (take i s @ drop (Suc i) s) else Inl IndexOutOfBounds)
      | None \<Rightarrow> Inl IndexOutOfBounds)"

definition string_insert :: "nat \<Rightarrow> rchar \<Rightarrow> rstring \<Rightarrow> rstring outcome" where
  "string_insert idx c s =
     (case char_at_byte s idx of
        Some i \<Rightarrow> Inr (take i s @ c # drop i s)
      | None \<Rightarrow> Inl AssertionFailed)"

datatype command_action = CRemoveLast | CRemoveThis | CCursorLeft | CCursorRight | CFinish | CCancel

definition command_default_maps :: "command_action key_map" where
  "command_default_maps = keys [
     k_key KBackspace CRemoveLast,
     k_key KDelete CRemoveThis,
     k_key KEnter CFinish,
     k_key KEsc CCancel,
     k_key KLeft CCursorLeft,
     k_key KRight CCursorRight]"

section \<open>The commands\<close>

definition quit :: "'d buffr_collection \<Rightarrow> mode_transition \<times> 'd buffr_collection" where
  "quit bc =
     (if list_ex (\<lambda>x. buf_dirty x \<and> buf_path x \<noteq> None) (buf_list bc)
      then (ModeAndInfo normal_new (str ''unsaved changes! Run :wq or :q! instead.''), bc)
      else (NewMode Quitting, bc))"

definition force_quit :: "'d buffr_collection \<Rightarrow> mode_transition \<times> 'd buffr_collection" where
  "force_quit bc = (NewMode Quitting, bc)"

definition write_failed :: "io_error \<Rightarrow> mode_transition" where
  "write_failed e = (case e of IoError msg \<Rightarrow> ModeAndInfo normal_new (str ''write failed: '' @ msg))"

definition write_current ::
    "'w io \<Rightarrow> 'w \<Rightarrow> rstring \<Rightarrow> 'd buffr_collection \<Rightarrow> ((mode_transition \<times> 'd buffr_collection) \<times> 'w) outcome" where
  "write_current io w filename bc =
     and_then (current bc) (\<lambda>buf.
       case (if filename = [] then buf_path buf else Some filename) of
         Some p \<Rightarrow>
           and_then (slice_to_cow (buf_data buf) 0 (length (buf_data buf))) (\<lambda>contents.
             case io_write io w p contents of
               (Inl e, w') \<Rightarrow> Inr ((write_failed e, bc), w')
             | (Inr _, w') \<Rightarrow>
                 Inr ((NewMode normal_new,
                       set_current (update_path_if_missing p (buf\<lparr>buf_dirty := False\<rparr>)) bc), w'))
       | None \<Rightarrow> Inr ((ModeAndInfo normal_new (str ''current_buffer has no path''), bc), w))"

text \<open>The loop shared by \<open>write_all\<close> and \<open>write_quit\<close>: write every buffer that has a path, stop at
  the first error.\<close>

fun write_bufs ::
    "'w io \<Rightarrow> 'w \<Rightarrow> 'd buffer list \<Rightarrow> (io_error option \<times> 'd buffer list \<times> 'w) outcome" where
  "write_bufs io w [] = Inr (None, [], w)"
| "write_bufs io w (buf # bufs) =
     (case buf_path buf of
        None \<Rightarrow> and_then (write_bufs io w bufs) (\<lambda>(e, bufs', w'). Inr (e, buf # bufs', w'))
      | Some p \<Rightarrow>
          and_then (slice_to_cow (buf_data buf) 0 (length (buf_data buf))) (\<lambda>contents.
            case io_write io w p contents of
              (Inl e, w') \<Rightarrow> Inr (Some e, buf # bufs, w')
            | (Inr _, w') \<Rightarrow>
                and_then (write_bufs io w' bufs) (\<lambda>(e, bufs', w'').
                  Inr (e, buf\<lparr>buf_dirty := False\<rparr> # bufs', w''))))"

definition write_all ::
    "'w io \<Rightarrow> 'w \<Rightarrow> 'd buffr_collection \<Rightarrow> ((mode_transition \<times> 'd buffr_collection) \<times> 'w) outcome" where
  "write_all io w bc =
     and_then (write_bufs io w (buf_list bc)) (\<lambda>(e, bufs', w').
       Inr ((case e of Some err \<Rightarrow> write_failed err | None \<Rightarrow> NewMode normal_new,
             bc\<lparr>buf_list := bufs'\<rparr>), w'))"

definition write_quit ::
    "'w io \<Rightarrow> 'w \<Rightarrow> 'd buffr_collection \<Rightarrow> ((mode_transition \<times> 'd buffr_collection) \<times> 'w) outcome" where
  "write_quit io w bc =
     and_then (write_bufs io w (buf_list bc)) (\<lambda>(e, bufs', w').
       Inr ((case e of Some err \<Rightarrow> write_failed err | None \<Rightarrow> NewMode Quitting,
             bc\<lparr>buf_list := bufs'\<rparr>), w'))"

definition edit ::
    "'w io \<Rightarrow> 'w \<Rightarrow> rstring \<Rightarrow> 'd buffr_collection \<Rightarrow> mode_transition \<times> 'd buffr_collection" where
  "edit io w filename bc =
     (case switch_current_buffer io w filename bc of
        (Inl (IoError msg), bc') \<Rightarrow> (ModeAndInfo normal_new msg, bc')
      | (Inr _, bc') \<Rightarrow> (ModeAndDirtyBytes normal_new ChangeLength, bc'))"

definition force_delete_current_buffer ::
    "'d buffr_collection \<Rightarrow> (mode_transition \<times> 'd buffr_collection) outcome" where
  "force_delete_current_buffer bc =
     and_then (delete_current bc) (\<lambda>bc'. Inr (ModeAndDirtyBytes normal_new ChangeLength, bc'))"

definition delete_current_buffer ::
    "'d buffr_collection \<Rightarrow> (mode_transition \<times> 'd buffr_collection) outcome" where
  "delete_current_buffer bc =
     and_then (current bc) (\<lambda>buf.
       if buf_dirty buf \<and> buf_path buf \<noteq> None
       then Inr (ModeAndInfo normal_new (str ''current_buffer is dirty, use :db! if you're sure''), bc)
       else and_then (delete_current bc) (\<lambda>bc'. Inr (ModeAndDirtyBytes normal_new ChangeLength, bc')))"

datatype command_handler =
    HQuit | HForceQuit | HWrite | HWriteQuit | HWriteAll | HEdit | HDelete | HForceDelete

definition default_commands :: "(rstring \<times> command_handler) list" where
  "default_commands = [
     (str ''q'', HQuit),
     (str ''quit'', HQuit),
     (str ''q!'', HForceQuit),
     (str ''quit!'', HForceQuit),
     (str ''w'', HWrite),
     (str ''write'', HWrite),
     (str ''wq'', HWriteQuit),
     (str ''wa'', HWriteAll),
     (str ''write-all'', HWriteAll),
     (str ''e'', HEdit),
     (str ''edit'', HEdit),
     (str ''db'', HDelete),
     (str ''delete-current_buffer'', HDelete),
     (str ''db!'', HForceDelete),
     (str ''delete-current_buffer!'', HForceDelete)]"

definition handle_command ::
    "'w io \<Rightarrow> 'w \<Rightarrow> command_handler \<Rightarrow> rstring \<Rightarrow> 'd buffr_collection \<Rightarrow>
     ((mode_transition \<times> 'd buffr_collection) \<times> 'w) outcome" where
  "handle_command io w h arg bc =
     (case h of
        HQuit \<Rightarrow> Inr (quit bc, w)
      | HForceQuit \<Rightarrow> Inr (force_quit bc, w)
      | HWrite \<Rightarrow> write_current io w arg bc
      | HWriteQuit \<Rightarrow> write_quit io w bc
      | HWriteAll \<Rightarrow> write_all io w bc
      | HEdit \<Rightarrow> Inr (edit io w arg bc, w)
      | HDelete \<Rightarrow> and_then (delete_current_buffer bc) (\<lambda>r. Inr (r, w))
      | HForceDelete \<Rightarrow> and_then (force_delete_current_buffer bc) (\<lambda>r. Inr (r, w)))"

section \<open>The mode\<close>

definition finish ::
    "'w io \<Rightarrow> 'w \<Rightarrow> rstring \<Rightarrow> 'd buffr_collection \<Rightarrow> ((mode_transition \<times> 'd buffr_collection) \<times> 'w) outcome" where
  "finish io w line bc =
     (let name = takeWhile (\<lambda>c. c \<noteq> ch (CHR '' '')) line;
          rest = drop (length name) line
      in case map_of default_commands name of
           Some h \<Rightarrow> handle_command io w h (if rest = [] then rest else drop 1 rest) bc
         | None \<Rightarrow> Inr ((ModeAndInfo normal_new (str ''Unknown command '' @ name), bc), w))"

definition command_action_transition ::
    "'w io \<Rightarrow> 'w \<Rightarrow> rstring \<Rightarrow> nat \<Rightarrow> command_action \<Rightarrow> 'd buffr_collection \<Rightarrow>
     ((mode_transition \<times> 'd buffr_collection) \<times> 'w) outcome" where
  "command_action_transition io w line cursor act bc =
     (case act of
        CRemoveLast \<Rightarrow>
          (if cursor \<noteq> 0 then
             and_then (string_remove (cursor - 1) line) (\<lambda>line'.
               Inr ((NewMode (Command line' (cursor - 1)), bc), w))
           else Inr ((TNone, bc), w))
      | CRemoveThis \<Rightarrow>
          and_then (string_remove cursor line) (\<lambda>line'. Inr ((NewMode (Command line' cursor), bc), w))
      | CCursorLeft \<Rightarrow>
          Inr ((NewMode (Command line (if cursor \<noteq> 0 then cursor - 1 else cursor)), bc), w)
      | CCursorRight \<Rightarrow>
          Inr ((NewMode (Command line (if cursor < string_len line then cursor + 1 else cursor)), bc), w)
      | CCancel \<Rightarrow> Inr ((NewMode normal_new, bc), w)
      | CFinish \<Rightarrow> finish io w line bc)"

definition command_transition ::
    "'w io \<Rightarrow> 'w \<Rightarrow> rstring \<Rightarrow> nat \<Rightarrow> event \<Rightarrow> 'd buffr_collection \<Rightarrow>
     ((mode_transition option \<times> 'd buffr_collection) \<times> 'w) outcome" where
  "command_transition io w line cursor evt bc =
     (case event_to_action command_default_maps evt of
        Some act \<Rightarrow>
          and_then (command_action_transition io w line cursor act bc)
            (\<lambda>((t, bc'), w'). Inr ((Some t, bc'), w'))
      | None \<Rightarrow>
          (case evt of
             Key e \<Rightarrow>
               (case code e of
                  KChar c \<Rightarrow>
                    (if \<not> no_modifier_set (without_shift (modifiers e)) then Inr ((None, bc), w)
                     else and_then (string_insert cursor c line) (\<lambda>line'.
                       Inr ((Some (NewMode (Command line' (cursor + 1))), bc), w)))
                | _ \<Rightarrow> Inr ((None, bc), w))
           | _ \<Rightarrow> Inr ((None, bc), w)))"

end
