(* ===== verification/Editor.thy ===== *)
theory Editor
  imports Mode_Edit Mode_Normal Mode_Command
begin

text \<open>
  The modes together: their names, and the call of the current mode's handler (the dynamic dispatch of
  \<open>Box<dyn Mode>\<close> in the event loop of src/hex_view/view.rs).
\<close>

section \<open>Names\<close>

definition acceptor_name :: "search_acceptor \<Rightarrow> rstring" where
  "acceptor_name next = (case next of AcceptCollapse \<Rightarrow> str ''COLLAPSE'' | AcceptSplit st \<Rightarrow> str ''SPLIT'' @ show_count st)"

definition mode_name :: "mode \<Rightarrow> rstring" where
  "mode_name m =
     (case m of
        Normal st \<Rightarrow> str ''NORMAL'' @ show_count st
      | Insert im hex half \<Rightarrow> insert_name im hex
      | Replace hex half \<Rightarrow> replace_name hex half
      | JumpTo ext \<Rightarrow> jumpto_name ext
      | Split st \<Rightarrow> str ''SPLIT'' @ show_count st
      | Search p c h hf next \<Rightarrow> acceptor_name next
      | Collapse \<Rightarrow> str ''COLLAPSE''
      | Command l c \<Rightarrow> str ''COMMAND''
      | Quitting \<Rightarrow> str ''QUITTING'')"

section \<open>One event\<close>

text \<open>Collapse takes part in searches only and handles no event itself; a quitting editor asks for none.\<close>

definition collapse_transition :: "'d buffr_collection \<Rightarrow> (mode_transition option \<times> 'd buffr_collection) outcome" where
  "collapse_transition bc = Inr (None, bc)"

definition quitting_transition :: "'d buffr_collection \<Rightarrow> (mode_transition option \<times> 'd buffr_collection) outcome" where
  "quitting_transition bc = Inl Unreachable"

definition mode_handler ::
    "('d, 's, 'b) xi \<Rightarrow> matcher \<Rightarrow> 'w io \<Rightarrow> 'w \<Rightarrow> nat \<Rightarrow> mode \<Rightarrow> event \<Rightarrow> 'd buffr_collection \<Rightarrow>
     ((mode_transition option \<times> 'd buffr_collection) \<times> 'w) outcome" where
  "mode_handler X mt io w bpl m evt bc =
     (let keep_world = (\<lambda>r. and_then r (\<lambda>p. Inr (p, w)))
      in case m of
           Normal st \<Rightarrow> keep_world (on_current bc (normal_transition X st evt bpl))
         | Insert im hex half \<Rightarrow> keep_world (on_current bc (insert_transition X im hex half evt bpl))
         | Replace hex half \<Rightarrow> keep_world (on_current bc (replace_transition X hex half evt))
         | JumpTo ext \<Rightarrow> keep_world (on_current bc (jumpto_transition X ext evt bpl))
         | Split st \<Rightarrow> keep_world (on_current bc (split_transition X mt st evt))
         | Search p c h hf next \<Rightarrow> keep_world (search_transition X mt p c h hf next evt bc)
         | Collapse \<Rightarrow> keep_world (collapse_transition bc)
         | Command l c \<Rightarrow> command_transition io w l c evt bc
         | Quitting \<Rightarrow> keep_world (quitting_transition bc))"

end
