(* ===== verification/Key_Props.thy ===== *)
theory Key_Props
  imports Editor Files
begin

text \<open>Properties of typed counts and of the command line.\<close>

section \<open>Counts\<close>

definition plain_key :: "rchar \<Rightarrow> event" where
  "plain_key c = Key \<lparr>code = KChar c, modifiers = no_modifiers\<rparr>"

fun type_keys :: "count_state \<Rightarrow> event list \<Rightarrow> count_state option" where
  "type_keys st [] = Some st"
| "type_keys st (e # es) =
     (case count_state_transition st e of Update st' \<Rightarrow> type_keys st' es | NotHandled \<Rightarrow> None)"

lemma type_keys_append:
  "type_keys st (es @ es') = (case type_keys st es of Some st' \<Rightarrow> type_keys st' es' | None \<Rightarrow> None)"
  by (induction es arbitrary: st) (auto split: count_transition.splits)

lemma digit_key:
  assumes "d < 16"
  shows "event_to_action count_default_maps (plain_key (digit_char d)) = Some (AppendDigit d)"
proof -
  have "d \<in> set [0..<16]" using assms by simp
  moreover have "\<forall>d\<in>set [0..<16]. event_to_action count_default_maps (plain_key (digit_char d)) = Some (AppendDigit d)"
    by code_simp
  ultimately show ?thesis by blast
qed

lemma print_in_small: "n < b \<Longrightarrow> print_in b n = [digit_char n]"
  by (subst print_in.simps) simp

lemma print_in_step: "b \<le> n \<Longrightarrow> 2 \<le> b \<Longrightarrow> print_in b n = print_in b (n div b) @ [digit_char (n mod b)]"
  by (subst print_in.simps) simp

lemma or_low_bits: "(k * 16) OR d = k * 16 + d" if "d < 16" for k d :: nat
proof -
  have d: "take_bit 4 d = d" using that by (intro take_bit_nat_eq_self) simp
  have k: "k * 16 = push_bit 4 k" by (simp add: push_bit_eq_mult)
  have "push_bit 4 k AND take_bit 4 d = 0"
    by (rule bit_eqI) (auto simp: bit_simps)
  then show ?thesis by (simp add: d k disjunctive_add_eq_or)
qed

lemma type_printed_decimal:
  assumes "n < usize_modulus"
  shows "type_keys NoCount (map plain_key (print_in 10 n)) = Some (Count False n)"
  using assms
proof (induction n rule: less_induct)
  case (less n)
  show ?case
  proof (cases "n < 10")
    case True
    then show ?thesis
      by (simp add: print_in_small count_state_transition_def digit_key)
  next
    case False
    then have "type_keys NoCount (map plain_key (print_in 10 (n div 10))) = Some (Count False (n div 10))"
      using less by (intro less.IH) simp_all
    moreover have "usize_add (usize_mul (n div 10) 10) (n mod 10) = n"
      using less.prems by (simp add: usize_mul_def usize_add_def)
    ultimately show ?thesis
      using False
      by (simp add: print_in_step type_keys_append count_state_transition_def digit_key)
  qed
qed

lemma type_printed_hex:
  assumes "n < usize_modulus"
  shows "type_keys (Count True 0) (map plain_key (print_in 16 n)) = Some (Count True n)"
  using assms
proof (induction n rule: less_induct)
  case (less n)
  show ?case
  proof (cases "n < 16")
    case True
    then show ?thesis
      by (simp add: print_in_small count_state_transition_def digit_key usize_mul_def)
  next
    case False
    then have "type_keys (Count True 0) (map plain_key (print_in 16 (n div 16))) = Some (Count True (n div 16))"
      using less by (intro less.IH) simp_all
    moreover have "usize_mul (n div 16) 16 OR (n mod 16) = n"
    proof -
      have "usize_mul (n div 16) 16 = n div 16 * 16"
        using less.prems by (intro usize_mul_small) (metis div_times_less_eq_dividend le_less_trans)
      then show ?thesis by (simp add: or_low_bits)
    qed
    ultimately show ?thesis
      using False
      by (simp add: print_in_step type_keys_append count_state_transition_def digit_key)
  qed
qed

text \<open>C30: Typing and printing a count are inverse: typing the characters that \<open>Display\<close> prints for a
  64-bit count enters exactly that count, in decimal from the empty state and in hexadecimal after
  \<open>x\<close>; every key of such an entry is handled.\<close>

theorem count_roundtrip:
  assumes "n < usize_modulus"
  shows "type_keys NoCount (map plain_key (print_in 10 n)) = Some (Count False n) \<and>
    type_keys NoCount (press (CHR ''x'') # map plain_key (print_in 16 n)) = Some (Count True n)"
proof -
  have "count_state_transition NoCount (press (CHR ''x'')) = Update (Count True 0)" by code_simp
  with type_printed_decimal [OF assms] type_printed_hex [OF assms] show ?thesis by simp
qed

theorem count_roundtrip_witness:
  "type_keys NoCount (map plain_key (str ''408'')) = Some (Count False 408) \<and>
   type_keys NoCount (press (CHR ''x'') # map plain_key (str ''198'')) = Some (Count True 408)"
proof -
  have "print_in 10 408 = str ''408''" "print_in 16 408 = str ''198''" by code_simp+
  with count_roundtrip [of 408] show ?thesis by (simp add: usize_modulus_def)
qed

text \<open>Backspace takes back the last digit: after a digit is appended to a positive count that has
  room for it, removing the last digit gives the count before, in both bases.\<close>

theorem count_backspace:
  assumes "0 < n" "d < (if hex then 16 else 10)" "n * (if hex then 16 else 10) + d < usize_modulus"
  shows "\<exists>st. count_action_transition (Count hex n) (AppendDigit d) = Update st \<and>
    count_action_transition st RemoveLastDigit = Update (Count hex n)"
proof (cases hex)
  case True
  with assms have "usize_mul n 16 = n * 16" "d < 16" by (simp_all add: usize_mul_small)
  then have "usize_mul n 16 OR d = n * 16 + d" by (simp add: or_low_bits)
  with True assms show ?thesis by simp
next
  case False
  with assms have "usize_add (usize_mul n 10) d = n * 10 + d"
    by (simp add: usize_mul_small usize_add_small)
  with False assms show ?thesis by simp
qed

theorem count_backspace_witness:
  "\<exists>st. count_action_transition (Count True 25) (AppendDigit 11) = Update st \<and>
    count_action_transition st RemoveLastDigit = Update (Count True 25)"
  by (rule count_backspace) (simp_all add: usize_modulus_def)

section \<open>The command line\<close>

definition ascii :: "rstring \<Rightarrow> bool" where
  "ascii s \<longleftrightarrow> list_all (\<lambda>c. c < 128) s"

lemma char_at_byte_ascii: "ascii s \<Longrightarrow> char_at_byte s n = (if n \<le> length s then Some n else None)"
  by (induction s arbitrary: n) (auto simp: ascii_def len_utf8_def split: if_splits)

lemma string_len_ascii: "ascii s \<Longrightarrow> string_len s = length s"
  by (induction s) (auto simp: ascii_def string_len_def len_utf8_def)

text \<open>What an event does to a line of single-byte characters with the cursor at \<open>n\<close>.\<close>

definition typed_char :: "event \<Rightarrow> rchar option" where
  "typed_char evt =
     (case evt of
        Key e \<Rightarrow> (case code e of KChar c \<Rightarrow> if no_modifier_set (without_shift (modifiers e)) then Some c else None | _ \<Rightarrow> None)
      | _ \<Rightarrow> None)"

definition edited_line :: "event \<Rightarrow> rstring \<Rightarrow> nat \<Rightarrow> (rstring \<times> nat) option" where
  "edited_line evt line n =
     (case event_to_action command_default_maps evt of
        Some CRemoveLast \<Rightarrow> if n = 0 then None else Some (take (n - 1) line @ drop n line, n - 1)
      | Some CRemoveThis \<Rightarrow> if n = length line then None else Some (take n line @ drop (Suc n) line, n)
      | Some CCursorLeft \<Rightarrow> Some (line, n - 1)
      | Some CCursorRight \<Rightarrow> Some (line, min (Suc n) (length line))
      | Some _ \<Rightarrow> None
      | None \<Rightarrow> map_option (\<lambda>c. (take n line @ c # drop n line, Suc n)) (typed_char evt))"

lemma edited_line_ok:
  assumes "ascii line" "n \<le> length line" "edited_line evt line n = Some (line', n')"
  shows "n' \<le> length line'" "(\<And>c. typed_char evt = Some c \<Longrightarrow> c < 128) \<Longrightarrow> ascii line'"
proof -
  have parts: "ascii (take i line)" "ascii (drop i line)" for i
    using assms(1) by (auto simp: ascii_def list_all_iff dest: in_set_takeD in_set_dropD)
  have app: "ascii (xs @ ys) \<longleftrightarrow> ascii xs \<and> ascii ys" "ascii (c # xs) \<longleftrightarrow> c < 128 \<and> ascii xs" for xs ys c
    by (simp_all add: ascii_def)
  show "n' \<le> length line'" "(\<And>c. typed_char evt = Some c \<Longrightarrow> c < 128) \<Longrightarrow> ascii line'"
    using assms parts by (auto simp: edited_line_def app split: option.splits command_action.splits if_splits)
qed

text \<open>C34: On an ASCII command line with the cursor inside it, every event but Enter and Esc, typed characters
  included, does to line and cursor exactly what \<open>edited_line\<close> says and leaves buffers and files alone; the cursor stays
  inside the line, which stays ASCII when the typed character is. The only exception is Delete with the cursor at the
  end of the line, which always panics (\<open>String::remove\<close> past the last character).\<close>

theorem command_line_safe:
  assumes "ascii line" "n \<le> length line" "event_to_action command_default_maps evt \<notin> {Some CFinish, Some CCancel}"
  shows "command_transition io w line n evt bc =
    (if event_to_action command_default_maps evt = Some CRemoveThis \<and> n = length line then Inl IndexOutOfBounds
     else Inr ((case edited_line evt line n of
         Some (line', n') \<Rightarrow> Some (NewMode (Command line' n'))
       | None \<Rightarrow> if event_to_action command_default_maps evt = Some CRemoveLast then Some TNone else None, bc), w)) \<and>
    (\<forall>line' n'. edited_line evt line n = Some (line', n') \<longrightarrow>
       n' \<le> length line' \<and> ((\<forall>c. typed_char evt = Some c \<longrightarrow> c < 128) \<longrightarrow> ascii line'))"
proof
  have rem: "string_remove i line = (if i < length line then Inr (take i line @ drop (Suc i) line) else Inl IndexOutOfBounds)"
    if "i \<le> length line" for i
    using that assms(1) by (simp add: string_remove_def char_at_byte_ascii)
  have ins: "string_insert n c line = Inr (take n line @ c # drop n line)" for c
    using assms(1,2) by (simp add: string_insert_def char_at_byte_ascii)
  show "command_transition io w line n evt bc =
    (if event_to_action command_default_maps evt = Some CRemoveThis \<and> n = length line then Inl IndexOutOfBounds
     else Inr ((case edited_line evt line n of
         Some (line', n') \<Rightarrow> Some (NewMode (Command line' n'))
       | None \<Rightarrow> if event_to_action command_default_maps evt = Some CRemoveLast then Some TNone else None, bc), w))"
  proof (cases "event_to_action command_default_maps evt")
    case None
    then show ?thesis
      by (auto simp: command_transition_def edited_line_def typed_char_def ins split: event.split key_code.split)
  next
    case (Some act)
    with assms show ?thesis
      by (cases act) (auto simp: command_transition_def command_action_transition_def edited_line_def rem string_len_ascii)
  qed
  show "\<forall>line' n'. edited_line evt line n = Some (line', n') \<longrightarrow>
      n' \<le> length line' \<and> ((\<forall>c. typed_char evt = Some c \<longrightarrow> c < 128) \<longrightarrow> ascii line')"
    using edited_line_ok [OF assms(1,2)] by blast
qed

theorem command_line_safe_witness:
  "command_transition map_io Map.empty (str ''wq'') 1 (plain_key 33) (collection_new :: unit buffr_collection) =
     Inr ((Some (NewMode (Command (str ''w!q'') 2)), collection_new), Map.empty)"
proof -
  have "ascii (str ''wq'')" "1 \<le> length (str ''wq'')" "event_to_action command_default_maps (plain_key 33) = None"
    "edited_line (plain_key 33) (str ''wq'') 1 = Some (str ''w!q'', 2)" by code_simp+
  with command_line_safe [of "str ''wq''" 1 "plain_key 33" map_io Map.empty "collection_new :: unit buffr_collection"]
  show ?thesis by simp
qed

text \<open>The line is indexed by bytes and the cursor advances by one per character: after one
  character outside ASCII has been typed on an empty line, typing any further character panics.\<close>

theorem command_non_ascii_panics:
  assumes "128 \<le> c"
  shows "\<exists>line cursor. command_transition io w [] 0 (plain_key c) bc =
      Inr ((Some (NewMode (Command line cursor)), bc), w) \<and>
    command_transition io w line cursor (plain_key c') bc = Inl AssertionFailed"
proof -
  have none: "event_to_action command_default_maps (plain_key k) = None" for k
    by (simp add: event_to_action_def command_default_maps_def keys_def k_key_def plain_key_def)
  have "no_modifier_set (without_shift no_modifiers)"
    by (simp add: no_modifier_set_def without_shift_def no_modifiers_def)
  moreover have "\<not> len_utf8 c \<le> 1" using assms by (simp add: len_utf8_def)
  ultimately show ?thesis
    using none by (simp add: command_transition_def) (simp add: plain_key_def string_insert_def)
qed

theorem command_non_ascii_panics_witness:
  "\<exists>line cursor. command_transition map_io Map.empty [] 0 (plain_key 233) (collection_new :: unit buffr_collection) =
      Inr ((Some (NewMode (Command line cursor)), collection_new), Map.empty) \<and>
    command_transition map_io Map.empty line cursor (plain_key 97) (collection_new :: unit buffr_collection) = Inl AssertionFailed"
  by (rule command_non_ascii_panics) simp

end
