(* ===== verification/Mode_Safe.thy ===== *)
theory Mode_Safe
  imports Buffer_Maps Mode_Edit Mode_Normal
begin

text \<open>
  Handlers cannot panic on a sound buffer. \<open>mode_ok\<close> is what a mode relies on when it is entered:
  outside insert mode no edit is pending (so undo finds a settled history), and insert mode has been
  entered with regions pointing backward. \<open>step_ok\<close> says that a handler returns, keeps the buffer
  sound and leaves the next mode what it relies on.
\<close>

definition next_mode :: "mode \<Rightarrow> mode_transition \<Rightarrow> mode" where
  "next_mode m t =
     (case t of NewMode m' \<Rightarrow> m' | ModeAndDirtyBytes m' _ \<Rightarrow> m' | ModeAndInfo m' _ \<Rightarrow> m' | _ \<Rightarrow> m)"

definition mode_ok :: "mode \<Rightarrow> 'd buffer \<Rightarrow> bool" where
  "mode_ok m buf \<longleftrightarrow>
     (case m of
        Insert imode hex half \<Rightarrow> imode = InsertAt \<longrightarrow> all_backward (buf_selection buf)
      | _ \<Rightarrow> \<not> editing buf)"

definition step_ok :: "('d, 's, 'b) xi \<Rightarrow> mode \<Rightarrow> (mode_transition \<times> 'd buffer) outcome \<Rightarrow> bool" where
  "step_ok X m out \<longleftrightarrow>
     (\<exists>t buf'. out = Inr (t, buf') \<and> buffer_ok X buf' \<and> mode_ok (next_mode m t) buf')"

lemma mode_ok_simps [simp]:
  "mode_ok (Normal st) buf \<longleftrightarrow> \<not> editing buf" "mode_ok normal_new buf \<longleftrightarrow> \<not> editing buf"
  "mode_ok (JumpTo b) buf \<longleftrightarrow> \<not> editing buf" "mode_ok (Replace h hf) buf \<longleftrightarrow> \<not> editing buf"
  "mode_ok (Split st) buf \<longleftrightarrow> \<not> editing buf" "mode_ok (search_new n h) buf \<longleftrightarrow> \<not> editing buf"
  "mode_ok (Command l c) buf \<longleftrightarrow> \<not> editing buf"
  "mode_ok (Insert im h hf) buf \<longleftrightarrow> (im = InsertAt \<longrightarrow> all_backward (buf_selection buf))"
  by (simp_all add: mode_ok_def normal_new_def search_new_def)

lemma next_mode_simps [simp]:
  "next_mode m (NewMode m') = m'" "next_mode m (ModeAndDirtyBytes m' db) = m'"
  "next_mode m (ModeAndInfo m' i) = m'" "next_mode m TNone = m" "next_mode m (DirtyBytes db) = m"
  by (simp_all add: next_mode_def)

lemma step_okI: "out = Inr (t, buf') \<Longrightarrow> buffer_ok X buf' \<Longrightarrow> mode_ok (next_mode m t) buf' \<Longrightarrow> step_ok X m out"
  by (auto simp: step_ok_def)

lemma editing_selection [simp]: "editing (buf\<lparr>buf_selection := s\<rparr>) = editing buf"
  "editing (buf\<lparr>buf_registers := r\<rparr>) = editing buf"
  by (simp_all add: editing_def)

lemma step_ok_map:
  assumes "map_result X D buf out" "\<not> editing buf"
  shows "step_ok X (Normal st) (and_new_mode normal_new out)" "step_ok X (Normal st) (and_dirty out)"
  using assms by (auto simp: map_result_def and_new_mode_def and_dirty_def step_ok_def)

lemma step_ok_edit:
  assumes "edit_result X True D buf out doc"
  shows "step_ok X (Normal st) (and_new_mode normal_new out)" "step_ok X (Normal st) (and_dirty out)"
  using assms by (auto simp: edit_result_def and_new_mode_def and_dirty_def step_ok_def)

section \<open>Choosing among regions\<close>

lemma set_main_sel_ok:
  assumes "sel_ok n s" "set_main (regions s) i b = Inr rs" "j < length rs"
  shows "sel_ok n \<lparr>regions = rs, main_selection = j\<rparr>"
proof -
  from assms(2) have i: "i < length (regions s)" and rs: "rs = (regions s)[i := (regions s ! i)\<lparr>main := b\<rparr>]"
    by (auto simp: set_main_def split: if_splits)
  have "sorted_wrt before (regions s)" using assms(1) by (simp add: sel_ok_def wf_selection_def)
  then have "before (regions s ! k) (regions s ! l)" if "k < l" "l < length (regions s)" for k l
    using that by (simp add: sorted_wrt_iff_nth_less)
  moreover have "region_min (rs ! k) = region_min (regions s ! k)" "region_max (rs ! k) = region_max (regions s ! k)"
    if "k < length (regions s)" for k
    using that i by (auto simp: rs nth_list_update)
  ultimately have "sorted_wrt before rs"
    unfolding sorted_wrt_iff_nth_less by (simp add: before_def rs)
  moreover have "\<forall>r\<in>set rs. caret r \<le> n \<and> tail r \<le> n"
    using assms(1) i by (auto simp: rs sel_ok_def in_bounds_def dest!: set_update_subset_insert [THEN subsetD])
  ultimately show ?thesis using assms(3) by (simp add: sel_ok_def wf_selection_def in_bounds_def)
qed

lemma select_next_sel_ok:
  assumes "sel_ok n s"
  shows "\<exists>s'. select_next k s = Inr s' \<and> sel_ok n s'" "\<exists>s'. select_prev k s = Inr s' \<and> sel_ok n s'"
proof -
  have m: "main_selection s < length (regions s)" using assms by (simp add: sel_ok_def wf_selection_def)
  then obtain rs where rs: "set_main (regions s) (main_selection s) False = Inr rs" "length rs = length (regions s)"
    by (auto simp: set_main_def)
  have ok1: "sel_ok n \<lparr>regions = rs, main_selection = j\<rparr>" if "j < length rs" for j
    using set_main_sel_ok [OF assms rs(1) that] .
  have step: "\<exists>rs'. set_main rs j True = Inr rs' \<and> sel_ok n \<lparr>regions = rs', main_selection = j\<rparr>"
    if "j < length rs" for j
    using set_main_sel_ok [OF ok1 [OF that], of j True _ j] that by (auto simp: set_main_def)
  have pos: "0 < length rs" using m rs(2) by linarith
  show "\<exists>s'. select_next k s = Inr s' \<and> sel_ok n s'"
    using step [of "usize_add (main_selection s) k mod length rs"] pos rs
    by (auto simp: select_next_def)
  show "\<exists>s'. select_prev k s = Inr s' \<and> sel_ok n s'"
    using step [of "(main_selection s + length rs - k mod length rs) mod length rs"] pos rs
    by (auto simp: select_prev_def)
qed

lemma remove_sel_ok:
  assumes "sel_ok n s" "i < length (regions s)"
  shows "\<exists>s'. remove i s = Inr s' \<and> sel_ok n s'"
proof (cases "length (regions s) = 1")
  case True
  with assms show ?thesis by (simp add: remove_def)
next
  case False
  let ?rs = "take i (regions s) @ drop (Suc i) (regions s)"
  let ?m = "min (length ?rs - 1) (main_selection s)"
  have len: "0 < length ?rs" "length ?rs = length (regions s) - 1" using False assms by auto
  have sub: "set ?rs \<subseteq> set (regions s)"
    by (auto dest: in_set_takeD in_set_dropD)
  have "sorted_wrt before (take i (regions s) @ drop i (regions s))"
    using assms by (simp add: sel_ok_def wf_selection_def)
  then have "sorted_wrt before ?rs"
    using assms(2) by (simp add: sorted_wrt_append Cons_nth_drop_Suc [symmetric] del: append_take_drop_id)
  then have ok: "sel_ok n \<lparr>regions = ?rs, main_selection = ?m\<rparr>"
    using assms sub len by (auto simp: sel_ok_def wf_selection_def in_bounds_def)
  have "?m < length ?rs" using len by linarith
  then obtain rs' where rs': "set_main ?rs ?m True = Inr rs'" "length rs' = length ?rs"
    by (auto simp: set_main_def)
  moreover have "sel_ok n \<lparr>regions = rs', main_selection = ?m\<rparr>"
    by (rule set_main_sel_ok [OF ok]) (use rs' \<open>?m < length ?rs\<close> in simp_all)
  ultimately show ?thesis using False assms(2) by (simp add: remove_def Let_def)
qed

lemma retain_sel_ok:
  assumes "sel_ok n s" "i < length (regions s)"
  shows "\<exists>s'. retain i s = Inr s' \<and> sel_ok n s'"
  using assms by (simp add: retain_def sel_ok_def wf_selection_def in_bounds_def)

lemma modify_step_ok:
  assumes "buffer_ok X buf" "\<not> editing buf"
    "\<exists>s'. f (buf_selection buf) = Inr s' \<and> sel_ok (length (buf_data buf)) s'"
  shows "step_ok X (Normal st) (and_new_mode normal_new (modify_sels_in_place X f buf))"
    "step_ok X (Normal st) (and_dirty (modify_sels_in_place X f buf))"
    "step_ok X (Normal st) (and_new_mode normal_new (switch_main_sel X f buf))"
  using assms buffer_ok_selection [OF assms(1)]
  by (auto simp: modify_sels_in_place_def switch_main_sel_def and_new_mode_def and_dirty_def step_ok_def
      sel_ok_def buffer_sel_ok(1))

lemma index_mod_ok:
  assumes "buffer_ok X buf"
  shows "\<exists>i. index_mod k (buf_selection buf) = Inr i \<and> i < length (regions (buf_selection buf))"
  using buffer_sel_ok(1) [OF assms] by (auto simp: index_mod_def wf_selection_def)

lemma remove_retain_step_ok:
  assumes "buffer_ok X buf" "\<not> editing buf"
  shows "step_ok X (Normal st) (and_new_mode normal_new (remove_selection X k buf))"
    "step_ok X (Normal st) (and_dirty (remove_selection X k buf))"
    "step_ok X (Normal st) (and_new_mode normal_new (retain_selection X k buf))"
    "step_ok X (Normal st) (and_dirty (retain_selection X k buf))"
proof -
  obtain i where i: "index_mod k (buf_selection buf) = Inr i" "i < length (regions (buf_selection buf))"
    using index_mod_ok [OF assms(1)] by blast
  have s: "sel_ok (length (buf_data buf)) (buf_selection buf)" using assms(1) by (simp add: buffer_ok_def)
  show "step_ok X (Normal st) (and_new_mode normal_new (remove_selection X k buf))"
    "step_ok X (Normal st) (and_dirty (remove_selection X k buf))"
    unfolding remove_selection_def
    by (rule modify_step_ok [OF assms]; use remove_sel_ok [OF s i(2)] i(1) in simp)+
  show "step_ok X (Normal st) (and_new_mode normal_new (retain_selection X k buf))"
    "step_ok X (Normal st) (and_dirty (retain_selection X k buf))"
    unfolding retain_selection_def
    by (rule modify_step_ok [OF assms]; use retain_sel_ok [OF s i(2)] i(1) in simp)+
qed

lemma select_all_ok: "sel_ok n s \<Longrightarrow> sel_ok n (select_all n s)"
  by (auto simp: select_all_def sel_ok_def clear_def wf_selection_def in_bounds_def)

end
