(* ===== verification/Normal_Safe.thy ===== *)
theory Normal_Safe
  imports Mode_Safe
begin

text \<open>
  Every action of normal mode on a sound buffer returns and keeps it sound, with two exceptions the
  statement excludes: a count in front of \<open>g\<close> or \<open>G\<close> takes the caret to an offset that is not
  checked against the buffer, and counts beyond the range of \<open>isize\<close>.
\<close>

definition checked_action :: "count_state \<Rightarrow> normal_action \<Rightarrow> bool" where
  "checked_action st act \<longleftrightarrow> act \<in> {JumpToMode, ExtendToMode} \<longrightarrow> st = NoCount"

lemma merge_closed_cursor: "merge_closed cursor"
  by (auto simp: merge_closed_def cursor_def merge_region_def Let_def and_then_eq_Inr region_defs
      split: if_splits)

lemma merge_closed_any_direction: "merge_closed any_direction"
  by (simp add: merge_closed_def any_direction_def)

lemma cursor_backward: "cursor r \<Longrightarrow> backward r"
  by (simp add: cursor_def backward_def)

lemma simple_move_ends:
  assumes "move_ok n b k r"
  shows "within n (simple_move r d b n k)" "cursor (simple_move r d b n k)"
  using assms simple_move_eq [OF assms, of d] moved_le [of "caret r" n d b k]
  by (cases "n = 0"; auto simp: simple_move_def move_ok_def within_def cursor_def)+

lemma simple_extend_ends:
  assumes "move_ok n b k r"
  shows "within n (simple_extend r d b n k)"
  using assms simple_extend_eq [OF assms, of d] moved_le [of "caret r" n d b k]
  by (cases "n = 0"; auto simp: simple_extend_def move_ok_def within_def)

lemma selection_move_ok:
  assumes "buffer_ok X buf" "moves_in_range (length (buf_data buf)) bpl k"
  shows "\<forall>r\<in>set (regions (buf_selection buf)). move_ok (length (buf_data buf)) bpl k r"
  using buffer_sel_ok(2) [OF assms(1)] assms(2) by (simp add: in_bounds_def move_ok_def within_def)

lemma selection_within:
  "buffer_ok X buf \<Longrightarrow> \<forall>r\<in>set (regions (buf_selection buf)). within (length (buf_data buf)) r"
  using buffer_sel_ok(2) by (auto simp: in_bounds_def within_def)

lemma map_move:
  assumes "buffer_ok X buf" "moves_in_range (length (buf_data buf)) bpl k"
  shows "map_result X cursor buf (buffer_map_selections X
      (single (\<lambda>r. simple_move r d bpl (length (buf_data buf)) k)) () buf)"
  by (rule map_result_region_map [OF move_map.region_map_axioms assms(1) selection_move_ok [OF assms]
        _ merge_closed_cursor])
     (simp_all add: simple_move_ends)

lemma map_extend:
  assumes "buffer_ok X buf" "moves_in_range (length (buf_data buf)) bpl k"
  shows "map_result X any_direction buf (buffer_map_selections X
      (single (\<lambda>r. simple_extend r d bpl (length (buf_data buf)) k)) () buf)"
  by (rule map_result_region_map [OF extend_map.region_map_axioms assms(1) selection_move_ok [OF assms]
        _ merge_closed_any_direction])
     (simp_all add: simple_extend_ends any_direction_def)

text \<open>Closures that work for every region: they stay inside the buffer when the regions are.\<close>

lemma map_total:
  assumes map: "region_map g (\<lambda>_. True)" and ok: "buffer_ok X buf"
    and bound: "\<And>r. within (length (buf_data buf)) r \<Longrightarrow> within (length (buf_data buf)) (g r)"
    and D: "merge_closed D" "\<And>r. D (g r)"
  shows "map_result X D buf (buffer_map_selections X (single g) () buf)"
proof -
  have map': "region_map g (\<lambda>r. within (length (buf_data buf)) r)"
    using map by (simp add: region_map_def)
  show ?thesis
    by (rule map_result_region_map [OF map' ok selection_within [OF ok] _ D(1)]) (simp_all add: bound D(2))
qed

lemma map_append:
  assumes "buffer_ok X buf" "moves_in_range (length (buf_data buf)) bpl 1"
  shows "map_result X forward buf (buffer_map_selections X
      (single (append_region bpl (length (buf_data buf)))) () buf)"
proof -
  have "within (length (buf_data buf)) (append_region bpl (length (buf_data buf)) r)"
    "forward (append_region bpl (length (buf_data buf)) r)"
    if "move_ok (length (buf_data buf)) bpl 1 r" for r
    using that append_region_eq [OF that]
    by (auto simp: move_ok_def within_def forward_def region_max_def region_min_def min_le_iff_disj)
  then show ?thesis
    by (intro map_result_region_map [OF append_map.region_map_axioms assms(1) selection_move_ok [OF assms]
        _ merge_closed_forward]) simp_all
qed

lemma swap_collapse_within:
  "within n r \<Longrightarrow> within n (swap_caret r)" "within n r \<Longrightarrow> within n (collapse r)"
  "within n r \<Longrightarrow> within n (to_backward r)" "backward (to_backward r)"
  by (auto simp: within_def swap_caret_def collapse_def to_backward_def region_defs)

context xi_rope
begin

lemma undo_step_ok:
  assumes "buffer_ok X buf" "\<not> editing buf"
  shows "step_ok X (Normal st) (case perform_undo X buf of
      (None, buf') \<Rightarrow> Inr (ModeAndInfo normal_new i, buf')
    | (Some changed, buf') \<Rightarrow> Inr (ModeAndDirtyBytes normal_new changed, buf'))"
    and "step_ok X (Normal st) (case perform_redo X buf of
      (None, buf') \<Rightarrow> Inr (ModeAndInfo normal_new i, buf')
    | (Some changed, buf') \<Rightarrow> Inr (ModeAndDirtyBytes normal_new changed, buf'))"
proof -
  show "step_ok X (Normal st) (case perform_undo X buf of
      (None, buf') \<Rightarrow> Inr (ModeAndInfo normal_new i, buf')
    | (Some changed, buf') \<Rightarrow> Inr (ModeAndDirtyBytes normal_new changed, buf'))"
  proof (cases "past (buffer_timeline X buf)")
    case Nil
    with assms undo_none show ?thesis by (simp add: step_ok_def)
  next
    case (Cons v vs)
    then obtain doc old where "past (buffer_timeline X buf) = (doc, old) # vs" by (cases v) auto
    then obtain buf' where "perform_undo X buf = (Some ChangeLength, buf')" "buffer_ok X buf'" "\<not> editing buf'"
      using undo_ok [OF assms] by metis
    then show ?thesis by (simp add: step_ok_def)
  qed
  show "step_ok X (Normal st) (case perform_redo X buf of
      (None, buf') \<Rightarrow> Inr (ModeAndInfo normal_new i, buf')
    | (Some changed, buf') \<Rightarrow> Inr (ModeAndDirtyBytes normal_new changed, buf'))"
  proof (cases "future (buffer_timeline X buf)")
    case Nil
    with assms redo_none show ?thesis by (simp add: step_ok_def)
  next
    case (Cons v vs)
    then obtain doc old where "future (buffer_timeline X buf) = (doc, old) # vs" by (cases v) auto
    then obtain buf' where "perform_redo X buf = (Some ChangeLength, buf')" "buffer_ok X buf'" "\<not> editing buf'"
      using redo_ok [OF assms] by metis
    then show ?thesis by (simp add: step_ok_def)
  qed
qed

lemma delete_step_ok:
  assumes "buffer_ok X buf" "\<not> editing buf"
  shows "step_ok X (Normal st) (normal_action_transition X st (Delete reg) bpl buf)"
    and "step_ok X (Normal st) (normal_action_transition X st (Change hex reg) bpl buf)"
    and "step_ok X (Normal st) (normal_action_transition X st (Yank reg) bpl buf)"
proof -
  from yank_keeps [OF assms(1)] obtain regs where y: "yank_selections reg buf = Inr (buf\<lparr>buf_registers := regs\<rparr>)"
    "buffer_ok X (buf\<lparr>buf_registers := regs\<rparr>)" by blast
  let ?b = "buf\<lparr>buf_registers := regs\<rparr>"
  have e: "\<not> editing ?b" using assms(2) by simp
  obtain d where d: "deletion X (buf_data ?b) (buf_selection ?b) = Inr d"
    "edit_result X True cursor ?b (buffer_apply_delta X d ?b)
      (edited (buf_data ?b) (\<lambda>_. []) (\<lambda>i. i \<in> spans (regions (buf_selection ?b))))"
    using deletion_result [OF y(2) e] by blast
  show "step_ok X (Normal st) (normal_action_transition X st (Delete reg) bpl buf)"
    using y d(1) step_ok_edit(2) [OF d(2)] assms(2)
    by (auto simp: normal_action_defs step_ok_def)
  have "all_backward (buf_selection buf)" if "buf_data buf = []"
    using selection_within [OF assms(1)] that
    by (auto simp: all_backward_def within_def backward_def)
  with y d show "step_ok X (Normal st) (normal_action_transition X st (Change hex reg) bpl buf)"
    by (auto simp: normal_action_defs step_ok_def edit_result_def and_new_mode_def
        all_backward_def cursor_def backward_def)
  show "step_ok X (Normal st) (normal_action_transition X st (Yank reg) bpl buf)"
    using y assms(2) by (auto simp: normal_action_defs step_ok_def)
qed

lemma paste_step_ok:
  assumes "buffer_ok X buf" "\<not> editing buf"
  shows "step_ok X (Normal st) (normal_action_transition X st (Paste after reg) bpl buf)"
proof -
  let ?cs = "case buf_registers buf reg of Some cs \<Rightarrow> cs | None \<Rightarrow> [[]]"
  have "?cs \<noteq> []" using assms(1) by (auto simp: buffer_ok_def split: option.splits)
  then obtain d doc where d: "paste X (buf_data buf) (buf_selection buf) ?cs after (to_count st) = Inr d"
    "edit_result X True any_direction buf (buffer_apply_delta X d buf) doc"
    using paste_result [OF assms] by blast
  then show ?thesis
    using step_ok_edit(2) [OF d(2)] by (simp add: normal_action_defs)
qed

lemma normal_regions_ok:
  assumes ok: "buffer_ok X buf" and e: "\<not> editing buf"
    and range: "moves_in_range (length (buf_data buf)) bpl (to_count st)"
      "moves_in_range (length (buf_data buf)) bpl 1"
    and act: "act \<in> {NMove d, NExtend d, SwapCaret, CollapseSelection, NInsert hex, Append hex}"
  shows "step_ok X (Normal st) (normal_action_transition X st act bpl buf)"
proof -
  have "map_result X any_direction buf (buffer_map_selections X (single swap_caret) () buf)"
    by (rule map_total [OF swap_map.region_map_axioms ok swap_collapse_within(1) merge_closed_any_direction])
       (simp_all add: any_direction_def)
  note swap = step_ok_map(2) [OF this e]
  have "map_result X any_direction buf (buffer_map_selections X (single collapse) () buf)"
    by (rule map_total [OF collapse_map.region_map_axioms ok swap_collapse_within(2) merge_closed_any_direction])
       (simp_all add: any_direction_def)
  note collapse = step_ok_map(2) [OF this e]
  have "map_result X backward buf (buffer_map_selections X (single to_backward) () buf)"
    by (rule map_total [OF backward_map.region_map_axioms ok swap_collapse_within(3) merge_closed_backward
          swap_collapse_within(4)])
  then have "step_ok X (Normal st) (normal_action_transition X st (NInsert hex) bpl buf)"
    by (auto simp: normal_action_defs and_new_mode_def map_result_def step_ok_def all_backward_def)
  moreover have "step_ok X (Normal st) (normal_action_transition X st (Append hex) bpl buf)"
    using map_append [OF ok range(2)]
    by (auto simp: normal_action_defs and_new_mode_def map_result_def step_ok_def)
  ultimately show ?thesis
    using act swap collapse step_ok_map(1) [OF map_move [OF ok range(1)] e]
      step_ok_map(1) [OF map_extend [OF ok range(1)] e]
    by (auto simp: normal_action_defs)
qed

lemma normal_choice_ok:
  assumes ok: "buffer_ok X buf" and e: "\<not> editing buf"
    and act: "act \<in> {RemoveMain, RetainMain, SelectPrev, SelectNext, SelectAll}"
  shows "step_ok X (Normal st) (normal_action_transition X st act bpl buf)"
proof -
  have sel: "sel_ok (length (buf_data buf)) (buf_selection buf)" using ok by (simp add: buffer_ok_def)
  have "step_ok X (Normal st) (normal_action_transition X st SelectAll bpl buf)"
    using sel ok e by (auto simp: normal_action_defs step_ok_def intro!: buffer_ok_selection select_all_ok)
  then show ?thesis
    using act remove_retain_step_ok [OF ok e]
      modify_step_ok(3) [where f = "select_prev (to_count st)", OF ok e select_next_sel_ok(2) [OF sel]]
      modify_step_ok(3) [where f = "select_next (to_count st)", OF ok e select_next_sel_ok(1) [OF sel]]
    by (auto simp: normal_action_defs buffer_select_prev_def buffer_select_next_def split: count_state.splits)
qed

theorem normal_action_ok:
  assumes ok: "buffer_ok X buf" and e: "\<not> editing buf"
    and range: "moves_in_range (length (buf_data buf)) bpl (to_count st)"
      "moves_in_range (length (buf_data buf)) bpl 1"
    and chk: "checked_action st act"
  shows "step_ok X (Normal st) (normal_action_transition X st act bpl buf)"
proof -
  consider (regions) d hex where "act \<in> {NMove d, NExtend d, SwapCaret, CollapseSelection, NInsert hex, Append hex}"
    | (choice) "act \<in> {RemoveMain, RetainMain, SelectPrev, SelectNext, SelectAll}"
    | (other) "\<nexists>d hex. act \<in> {NMove d, NExtend d, SwapCaret, CollapseSelection, NInsert hex, Append hex}"
      "act \<notin> {RemoveMain, RetainMain, SelectPrev, SelectNext, SelectAll}"
    by blast
  then show ?thesis
  proof cases
    case other
    then show ?thesis
      using ok e chk undo_step_ok [OF ok e] delete_step_ok [OF ok e] paste_step_ok [OF ok e] buffer_sel_ok(1) [OF ok]
      by (cases act) (simp_all add: normal_action_defs checked_action_def step_ok_def)
  qed (fact normal_regions_ok [OF ok e range], fact normal_choice_ok [OF ok e])
qed

end

end
