(* ===== verification/Insert_Safe.thy ===== *)
theory Insert_Safe
  imports Normal_Safe
begin

text \<open>
  Every key of insert mode, on a sound buffer whose regions point backward, returns and keeps both.
  Leaving the mode commits the pending edit. Overwriting with regions of mixed directions is the
  case left out: see the findings of the root theory.
\<close>

definition continues :: "timeline \<Rightarrow> timeline \<Rightarrow> bool" where
  "continues t0 t1 \<longleftrightarrow> t1 = t0 \<or> (\<exists>doc s. t1 = t_partial doc s t0)"

lemma continues_simps [simp]: "continues t0 t0" "continues t0 (t_partial doc s t0)"
  by (auto simp: continues_def)

definition insert_ok ::
    "('d, 's, 'b) xi \<Rightarrow> mode \<Rightarrow> 'd buffer \<Rightarrow> (mode_transition \<times> 'd buffer) outcome \<Rightarrow> bool" where
  "insert_ok X m buf out \<longleftrightarrow>
     (\<exists>t buf'. out = Inr (t, buf') \<and> buffer_ok X buf' \<and>
        (is_Insert (next_mode m t) \<longrightarrow> all_backward (buf_selection buf') \<and>
          continues (buffer_timeline X buf) (buffer_timeline X buf')) \<and>
        (\<not> is_Insert (next_mode m t) \<longrightarrow> t = NewMode normal_new \<and> \<not> editing buf' \<and>
          buffer_timeline X buf' = t_commit (buffer_timeline X buf)))"

lemma timeline_selection [simp]: "buffer_timeline X (buf\<lparr>buf_selection := s\<rparr>) = buffer_timeline X buf"
  by (simp add: buffer_timeline_def)

definition room :: "nat \<Rightarrow> 'd buffer \<Rightarrow> bool" where
  "room bpl buf \<longleftrightarrow>
     moves_in_range (length (buf_data buf) + length (regions (buf_selection buf))) bpl 1"

lemma moves_in_range_le: "moves_in_range n bpl k \<Longrightarrow> m \<le> n \<Longrightarrow> moves_in_range m bpl k"
  by (simp add: moves_in_range_def)

lemma length_edited:
  "length (edited base ins del) \<le> length base + (\<Sum>i\<le>length base. length (ins i))"
proof -
  have "length (concat (map (\<lambda>i. ins i @ (if del i then [] else [base ! i])) [0..<length base])) =
      (\<Sum>i<length base. length (ins i @ (if del i then [] else [base ! i])))"
    by (simp add: length_concat comp_def interv_sum_list_conv_sum_set_nat atLeast0LessThan)
  also have "\<dots> \<le> (\<Sum>i<length base. length (ins i) + 1)" by (rule sum_mono) simp
  also have "\<dots> = length base + (\<Sum>i<length base. length (ins i))" by (simp only: sum.distrib) simp
  finally show ?thesis
    using sum.lessThan_Suc [of "\<lambda>i. length (ins i)" "length base"]
    by (simp add: edited_def lessThan_Suc_atMost)
qed

lemma length_edited_ge:
  assumes "\<forall>i<length base. del i \<longrightarrow> ins i \<noteq> []"
  shows "length base \<le> length (edited base ins del)"
proof -
  have "length base = (\<Sum>i<length base. 1)" by simp
  also have "\<dots> \<le> (\<Sum>i<length base. length (ins i @ (if del i then [] else [base ! i])))"
    using assms by (intro sum_mono) (auto simp: Suc_le_eq)
  finally show ?thesis
    by (simp add: edited_def length_concat comp_def interv_sum_list_conv_sum_set_nat atLeast0LessThan)
qed

lemma length_edited_carets:
  "length (edited base (\<lambda>i. if i \<in> carets sel then [f i] else []) del) \<le> length base + length (regions sel)"
proof -
  have "(\<Sum>i\<le>length base. length (if i \<in> carets sel then [f i] else [])) = card ({..length base} \<inter> carets sel)"
    by (simp add: if_distrib [of length] sum.If_cases)
  also have "\<dots> \<le> card (carets sel)" by (rule card_mono) (auto simp: carets_def)
  also have "\<dots> \<le> length (regions sel)"
    unfolding carets_def by (metis card_image_le card_length finite_set le_trans)
  finally show ?thesis
    using length_edited [of base "\<lambda>i. if i \<in> carets sel then [f i] else []" del] by linarith
qed

lemma insert_move_ends:
  assumes "move_ok n b 1 r"
  shows "within n (insert_move_closure d b n hf r)" "cursor (insert_move_closure d b n hf r)"
proof -
  have "move_ok n b 1 (simple_move r d b n 1)"
    using assms simple_move_ends(1) [OF assms] by (simp add: move_ok_def)
  with assms show "within n (insert_move_closure d b n hf r)" "cursor (insert_move_closure d b n hf r)"
    by (simp_all add: insert_move_closure_def Let_def simple_move_ends)
qed

interpretation insert_move_map: region_map "insert_move_closure d b n hf" "move_ok n b 1" for d b n hf
proof
  fix x y assume P: "move_ok n b 1 x" "move_ok n b 1 y" and xy: "before x y"
  have "caret (simple_move x d b n 1) \<le> caret (simple_move y d b n 1)"
    if "move_ok n b 1 x" "move_ok n b 1 y" "caret x \<le> caret y" for x y d
    using that simple_move_eq [OF that(1), of d] simple_move_eq [OF that(2), of d] moved_mono [OF that(3)]
    by (cases "n = 0") (auto simp: simple_move_def)
  moreover have "move_ok n b 1 (simple_move r d b n 1)" if "move_ok n b 1 r" for r
    using that simple_move_ends(1) [OF that] by (simp add: move_ok_def)
  ultimately have le: "caret (insert_move_closure d b n hf x) \<le> caret (insert_move_closure d b n hf y)"
    using P before_carets [OF xy] by (auto simp: insert_move_closure_def Let_def)
  note ends = P [THEN insert_move_ends(2), of d hf]
  show "region_min (insert_move_closure d b n hf x) \<le> region_min (insert_move_closure d b n hf y)"
    "region_max (insert_move_closure d b n hf x) \<le> region_max (insert_move_closure d b n hf y)"
    using le ends by (simp_all add: cursor_def region_defs)
  show "before (insert_move_closure d b n hf x) (insert_move_closure d b n hf y)"
    if "strict_forward (insert_move_closure d b n hf x)"
    using that ends by (simp add: cursor_def strict_forward_def)
  show "before (insert_move_closure d b n hf x) (insert_move_closure d b n hf y)"
    if "strict_backward (insert_move_closure d b n hf x)"
    using that ends by (simp add: cursor_def strict_backward_def)
qed (auto simp: insert_move_closure_def simple_move_def Let_def split: if_splits)

context xi_rope
begin

lemma partial_step_ok:
  assumes "\<exists>d. res = Inr d \<and> edit_result X False backward buf (apply_incomplete_delta X d buf) doc"
    and "\<And>c. is_Insert (next_mode m (t c))"
  shows "insert_ok X m buf (and_then res (\<lambda>d. and_then (apply_incomplete_delta X d buf)
    (\<lambda>(changed, buf'). Inr (t changed, buf'))))"
  using assms(1) assms(2) [of ChangeLength]
  by (auto simp: edit_result_def insert_ok_def all_backward_def)

lemma ascii_ok:
  assumes "buffer_ok X buf" "all_backward (buf_selection buf)"
  shows "insert_ok X (Insert imode hex half) buf (transition_ascii_insertion X key imode buf)"
proof -
  note sel = buffer_sel_ok [OF assms(1)]
  have "\<exists>doc d. (case imode of OverwriteAt \<Rightarrow> change X (buf_data buf) (buf_selection buf) (encode_utf8 key)
        | _ \<Rightarrow> insert_text X (buf_data buf) (buf_selection buf) (encode_utf8 key)) = Inr d \<and>
      edit_result X False backward buf (apply_incomplete_delta X d buf) doc"
    using backward_result [OF assms change_does [OF sel, of "encode_utf8 key"]]
      backward_result [OF assms insert_text_does [OF sel, of "encode_utf8 key"]]
    by (cases imode) auto
  then show ?thesis
    unfolding transition_ascii_insertion_def Let_def by (auto intro!: partial_step_ok)
qed

lemma hex_first_ok:
  assumes ok: "buffer_ok X buf" and b: "all_backward (buf_selection buf)" and r: "room bpl buf"
    and key: "is_ascii_hexdigit key"
  shows "\<exists>t buf'. transition_hex_insertion X key imode None buf = Inr (Some t, buf') \<and>
    insert_ok X (Insert imode True None) buf (Inr (t, buf'))"
proof -
  note sel = buffer_sel_ok [OF ok]
  obtain dg where dg: "to_digit key = Inr dg" using to_digit_ok [OF key] by (auto simp: ok_iff)
  let ?v = "push_bit 4 dg"
  let ?r1 = "insert_text X (buf_data buf) (buf_selection buf) [?v]"
  let ?r2 = "overwrite_half X (buf_data buf) (buf_selection buf) ?v"
  have small: "length (edited (buf_data buf) (\<lambda>i. if i \<in> carets (buf_selection buf) then [f i] else []) del) \<le> isize_max"
    for f del
    using r length_edited_carets [of "buf_data buf" "buf_selection buf" f del]
    by (simp add: room_def moves_in_range_def)
  have "\<exists>doc d. ?r1 = Inr d \<and> edit_result X False backward buf
      (apply_incomplete_delta_offset_carets X d (- 1) 0 buf) doc"
    using backward_back_result [OF ok b insert_text_does [OF sel, of "[?v]"] _ small] by auto
  moreover have "\<exists>doc d. ?r2 = Inr d \<and> edit_result X False backward buf
      (apply_incomplete_delta_offset_carets X d (- 1) 0 buf) doc"
    using backward_back_result [OF ok b overwrite_half_does [OF sel, of ?v] _ small] by auto
  ultimately have "\<exists>doc d. (case imode of OverwriteAt \<Rightarrow> ?r2 | _ \<Rightarrow> ?r1) = Inr d \<and>
      edit_result X False backward buf (apply_incomplete_delta_offset_carets X d (- 1) 0 buf) doc"
    by (cases imode) simp_all
  then show ?thesis
    using key dg
    by (auto simp: transition_hex_insertion_def edit_result_def insert_ok_def all_backward_def Let_def)
qed

lemma hex_second:
  assumes ok: "buffer_ok X buf" and b: "all_backward (buf_selection buf)" and key: "is_ascii_hexdigit key"
  shows "\<exists>t buf'. transition_hex_insertion X key imode (Some h) buf = Inr (Some t, buf') \<and>
    insert_ok X (Insert imode True (Some h)) buf (Inr (t, buf')) \<and> buffer_ok X buf' \<and>
    continues (buffer_timeline X buf) (buffer_timeline X buf') \<and>
    length (buf_data buf') \<le> length (buf_data buf) + length (regions (buf_selection buf)) \<and>
    length (buf_data buf) \<le> length (buf_data buf')"
proof -
  note sel = buffer_sel_ok [OF ok]
  obtain dg where dg: "to_digit key = Inr dg" using to_digit_ok [OF key] by (auto simp: ok_iff)
  let ?doc = "edited (buf_data buf) (\<lambda>i. if i \<in> carets (buf_selection buf) then [h OR dg] else [])
    (\<lambda>i. i \<in> carets (buf_selection buf))"
  obtain d where d: "change X (buf_data buf) (buf_selection buf) [h OR dg] = Inr d"
    "edit_result X False backward buf (apply_incomplete_delta X d buf) ?doc"
    using backward_result [OF ok b change_does [OF sel, of "[h OR dg]"]] by blast
  have "length ?doc \<le> length (buf_data buf) + length (regions (buf_selection buf))"
    by (rule length_edited_carets)
  moreover have "length (buf_data buf) \<le> length ?doc" by (rule length_edited_ge) simp
  ultimately show ?thesis using d key dg
    by (auto simp: transition_hex_insertion_def edit_result_def insert_ok_def all_backward_def Let_def)
qed

lemma insert_move_result:
  assumes "buffer_ok X buf" "moves_in_range (length (buf_data buf)) bpl 1"
  shows "map_result X cursor buf (buffer_map_selections X
      (single (insert_move_closure d bpl (length (buf_data buf)) hf)) () buf)"
  by (rule map_result_region_map [OF insert_move_map.region_map_axioms assms(1) selection_move_ok [OF assms]
        _ merge_closed_cursor])
     (simp_all add: insert_move_ends)

lemma map_cursor_ok:
  assumes "map_result X cursor buf1 out" "continues (buffer_timeline X buf) (buffer_timeline X buf1)"
  shows "insert_ok X m buf (and_then out (\<lambda>(changed, buf'). Inr (ModeAndDirtyBytes (Insert im hx hf) changed, buf')))"
  using assms by (auto simp: map_result_def insert_ok_def all_backward_def cursor_def backward_def)

lemma insert_remove_ok:
  assumes ok: "buffer_ok X buf" and b: "all_backward (buf_selection buf)" and act: "act \<in> {RemoveLast, RemoveThis}"
  shows "insert_ok X (Insert imode hex half) buf (insert_action_transition X imode hex half act bpl buf)"
proof (cases "buf_data buf = []")
  case True
  with ok b act show ?thesis by (auto simp: insert_action_transition_def insert_ok_def)
next
  case False
  note cursor = partial_step_ok [OF backward_result [OF ok b delete_cursor_does [OF buffer_sel_ok [OF ok]]]]
  from False act show ?thesis
    using cursor partial_step_ok [OF backward_result [OF ok b backspace_does [OF buffer_sel_ok [OF ok]]]]
      cursor [of "Insert imode hex half" "\<lambda>changed. if half \<noteq> None
            then ModeAndDirtyBytes (Insert imode hex None) changed else DirtyBytes changed"]
    by (auto simp: insert_action_transition_def)
qed

lemma insert_move_ok:
  assumes ok: "buffer_ok X buf" and b: "all_backward (buf_selection buf)" and r: "room bpl buf"
  shows "insert_ok X (Insert imode hex half) buf (insert_action_transition X imode hex half (Move d) bpl buf)"
proof (cases half)
  case None
  have "moves_in_range (length (buf_data buf)) bpl 1"
    using r by (auto simp: room_def intro: moves_in_range_le)
  from map_cursor_ok [OF insert_move_result [OF ok this] continues_simps(1)] show ?thesis
    using None by (simp add: insert_action_transition_def)
next
  case (Some h)
  have "is_ascii_hexdigit (ch (CHR ''0''))" by (simp add: is_ascii_hexdigit_def ch_def)
  then obtain t buf1 where b1: "transition_hex_insertion X (ch (CHR ''0'')) imode (Some h) buf = Inr (Some t, buf1)"
    "buffer_ok X buf1" "continues (buffer_timeline X buf) (buffer_timeline X buf1)"
    "length (buf_data buf1) \<le> length (buf_data buf) + length (regions (buf_selection buf))"
    using hex_second [OF ok b] by metis
  have "moves_in_range (length (buf_data buf1)) bpl 1"
    using r b1(4) by (auto simp: room_def intro: moves_in_range_le)
  from map_cursor_ok [OF insert_move_result [OF b1(2) this] b1(3)] show ?thesis
    using Some b1(1) by (simp add: insert_action_transition_def)
qed

lemma insert_action_ok:
  assumes ok: "buffer_ok X buf" and b: "all_backward (buf_selection buf)" and r: "room bpl buf"
  shows "insert_ok X (Insert imode hex half) buf (insert_action_transition X imode hex half act bpl buf)"
proof (cases act)
  case InsertNull
  then show ?thesis
    using partial_step_ok [OF backward_result [OF ok b insert_text_does [OF buffer_sel_ok [OF ok]]]]
    by (simp add: insert_action_transition_def)
next
  case SwitchInputMode
  with ok b show ?thesis by (simp add: insert_action_transition_def insert_ok_def)
next
  case Exit
  with commit_ok [OF ok] show ?thesis
    by (simp add: insert_action_transition_def insert_ok_def) (simp add: normal_new_def)
qed (use insert_remove_ok [OF ok b] insert_move_ok [OF ok b r] in blast)+

end

end
