(* ===== verification/Insert_Session.thy ===== *)
theory Insert_Session
  imports Insert_Safe
begin

text \<open>
  A session of insert mode as a step relation: one step per key, from the mode and buffer to the next
  mode and buffer. The view handles Ctrl-e and Ctrl-y itself in every mode (scrolling, which also
  loads more of the file), so these keys are not steps of a session. By rule induction the timeline
  of the buffer gains at most one entry in a session, however many keys were typed.
\<close>

definition scroll_key :: "event \<Rightarrow> bool" where
  "scroll_key evt \<longleftrightarrow>
     (case evt of
        Key e \<Rightarrow> code e \<in> {KChar (ch (CHR ''e'')), KChar (ch (CHR ''y''))} \<and>
                 modifiers e = no_modifiers\<lparr>control := True\<rparr>
      | _ \<Rightarrow> False)"

inductive insert_step ::
    "('d, 's, 'b) xi \<Rightarrow> nat \<Rightarrow> mode \<times> 'd buffer \<Rightarrow> mode \<times> 'd buffer \<Rightarrow> bool"
  for X bpl where
  handled: "room bpl buf \<Longrightarrow> insert_transition X im hex half evt bpl buf = Inr (Some t, buf') \<Longrightarrow>
    insert_step X bpl (Insert im hex half, buf) (next_mode (Insert im hex half) t, buf')"
| ignored: "room bpl buf \<Longrightarrow> insert_transition X im hex half evt bpl buf = Inr (None, buf') \<Longrightarrow>
    \<not> scroll_key evt \<Longrightarrow> insert_step X bpl (Insert im hex half, buf) (Insert im hex half, buf')"

inductive_cases insert_stepE [consumes 1, case_names handled ignored]: "insert_step X bpl (Insert im hex half, buf) s'"

inductive insert_session ::
    "('d, 's, 'b) xi \<Rightarrow> nat \<Rightarrow> mode \<times> 'd buffer \<Rightarrow> mode \<times> 'd buffer \<Rightarrow> bool"
  for X bpl where
  start: "insert_session X bpl s s"
| key: "insert_session X bpl s (m, b) \<Longrightarrow> insert_step X bpl (m, b) s' \<Longrightarrow> insert_session X bpl s s'"

text \<open>Where a session that began on the timeline \<open>t0\<close> can be.\<close>

definition in_session :: "timeline \<Rightarrow> timeline \<Rightarrow> bool" where
  "in_session t0 t \<longleftrightarrow> t = t0 \<or> (\<exists>doc s. t = t0\<lparr>present := doc, pending := Some (present t0, s)\<rparr>)"

lemma in_session_simps [simp]:
  "in_session t0 t0" "in_session t0 (t0\<lparr>present := doc, pending := Some (present t0, s)\<rparr>)"
  by (auto simp: in_session_def)

lemma in_session_continues:
  assumes "in_session t0 t" "continues t t'" "pending t0 = None"
  shows "in_session t0 t'"
  using assms(1) unfolding in_session_def
proof (elim disjE exE)
  assume "t = t0"
  with assms(2,3) in_session_simps [of t0] show "t' = t0 \<or> (\<exists>doc s. t' = t0\<lparr>present := doc, pending := Some (present t0, s)\<rparr>)"
    unfolding continues_def t_partial_def by auto
next
  fix doc s assume "t = t0\<lparr>present := doc, pending := Some (present t0, s)\<rparr>"
  with assms(2) have "t' = t \<or> (\<exists>doc. t' = t0\<lparr>present := doc, pending := Some (present t0, s)\<rparr>)"
    unfolding continues_def t_partial_def by auto
  with \<open>t = _\<close> show "t' = t0 \<or> (\<exists>doc s. t' = t0\<lparr>present := doc, pending := Some (present t0, s)\<rparr>)"
    by blast
qed

lemma in_session_commit:
  assumes "in_session t0 t" "pending t0 = None"
  shows "t_commit t = t0 \<or> (\<exists>doc sel. t_commit t = t_edit doc sel t0)"
proof (cases "t = t0")
  case True
  with assms(2) show ?thesis by (simp add: t_commit_def)
next
  case False
  with assms(1) obtain doc s where t: "t = t0\<lparr>present := doc, pending := Some (present t0, s)\<rparr>"
    by (auto simp: in_session_def)
  have "t_commit t = t_edit doc s t0"
    using assms(2) by (simp add: t t_commit_def t_edit_def timeline_eq_iff)
  then show ?thesis by blast
qed

definition session_inv :: "('d, 's, 'b) xi \<Rightarrow> timeline \<Rightarrow> mode \<times> 'd buffer \<Rightarrow> bool" where
  "session_inv X t0 s \<longleftrightarrow>
     buffer_ok X (snd s) \<and>
     (is_Insert (fst s) \<longrightarrow>
        all_backward (buf_selection (snd s)) \<and> in_session t0 (buffer_timeline X (snd s))) \<and>
     (\<not> is_Insert (fst s) \<longrightarrow> \<not> editing (snd s) \<and>
        (buffer_timeline X (snd s) = t0 \<or> (\<exists>doc sel. buffer_timeline X (snd s) = t_edit doc sel t0)))"

lemma insert_step_Insert: "insert_step X bpl (m, b) s' \<Longrightarrow> is_Insert m"
  by (cases rule: insert_step.cases) auto

context xi_rope
begin

text \<open>Progress: on a sound buffer every key of insert mode returns.\<close>

lemma insert_key_ok:
  assumes ok: "buffer_ok X buf" and b: "all_backward (buf_selection buf)" and r: "room bpl buf"
  shows "(\<exists>t buf'. insert_transition X im hex half evt bpl buf = Inr (Some t, buf') \<and>
      insert_ok X (Insert im hex half) buf (Inr (t, buf'))) \<or>
    insert_transition X im hex half evt bpl buf = Inr (None, buf)"
proof (cases "event_to_action insert_default_maps evt")
  case (Some act)
  from insert_action_ok [OF ok b r, of im hex half act] show ?thesis
    using Some by (auto simp: insert_transition_def insert_ok_def)
next
  case None
  have hx: "(\<exists>t buf'. transition_hex_insertion X key im half buf = Inr (Some t, buf') \<and>
      insert_ok X (Insert im True half) buf (Inr (t, buf'))) \<or>
      transition_hex_insertion X key im half buf = Inr (None, buf)" for key
  proof (cases "is_ascii_hexdigit key")
    case True
    show ?thesis
    proof (cases half)
      case None
      with hex_first_ok [OF ok b r True, of im] show ?thesis by auto
    next
      case (Some h)
      with hex_second [OF ok b True, of im h] show ?thesis by auto
    qed
  qed (simp add: transition_hex_insertion_def)
  have as: "\<exists>t buf'. transition_ascii_insertion X key im buf = Inr (t, buf') \<and>
      insert_ok X (Insert im hex half) buf (Inr (t, buf'))" for key
    using ascii_ok [OF ok b, of im hex half key] by (auto simp: insert_ok_def)
  show ?thesis
  proof (cases evt)
    case (Key e)
    show ?thesis
    proof (cases "code e")
      case (KChar key)
      with Key None hx [of key] as [of key] show ?thesis by (auto simp: insert_transition_def)
    qed (simp_all add: insert_transition_def None [unfolded Key] Key)
  qed (use None in \<open>simp_all add: insert_transition_def\<close>)
qed

lemma session_step:
  assumes inv: "session_inv X t0 (m, buf)" and t0: "pending t0 = None"
    and step: "insert_step X bpl (m, buf) s'"
  shows "session_inv X t0 s'"
proof -
  obtain im hex half where m: "m = Insert im hex half" using insert_step_Insert [OF step] by (cases m) auto
  have ok: "buffer_ok X buf" and b: "all_backward (buf_selection buf)"
    and tl: "in_session t0 (buffer_timeline X buf)"
    using inv by (auto simp: session_inv_def m)
  from step [unfolded m] show ?thesis
  proof (cases rule: insert_stepE)
    case (handled evt t buf')
    from insert_key_ok [OF ok b handled(2), of im hex half evt] handled(3)
    have ins: "insert_ok X (Insert im hex half) buf (Inr (t, buf'))" by auto
    show ?thesis
    proof (cases "is_Insert (next_mode (Insert im hex half) t)")
      case True
      with ins have i: "buffer_ok X buf'" "all_backward (buf_selection buf')"
        "continues (buffer_timeline X buf) (buffer_timeline X buf')" by (auto simp: insert_ok_def)
      from in_session_continues [OF tl i(3) t0] i True handled(1) show ?thesis by (simp add: session_inv_def)
    next
      case False
      with ins have i: "buffer_ok X buf'" "\<not> editing buf'"
        "buffer_timeline X buf' = t_commit (buffer_timeline X buf)" by (auto simp: insert_ok_def)
      from in_session_commit [OF tl t0] i False handled(1) show ?thesis by (simp add: session_inv_def)
    qed
  next
    case (ignored evt buf')
    from insert_key_ok [OF ok b ignored(2), of im hex half evt] ignored inv show ?thesis by (auto simp: m)
  qed
qed

lemma session_keeps:
  assumes "insert_session X bpl s s'" "session_inv X t0 s" "pending t0 = None"
  shows "session_inv X t0 s'"
  using assms by (induction rule: insert_session.induct) (auto intro: session_step)

text \<open>After the session one undo brings the document back; nothing is pending any more.\<close>

lemma session_undo:
  assumes inv: "session_inv X t0 (m, buf)" and m: "\<not> is_Insert m" and t0: "pending t0 = None"
  shows "buffer_timeline X buf = t0 \<or>
    (\<exists>buf'. perform_undo X buf = (Some ChangeLength, buf') \<and> buffer_ok X buf' \<and>
       buf_data buf' = present t0 \<and> past (buffer_timeline X buf') = past t0)"
proof -
  from inv m have ok: "buffer_ok X buf" and e: "\<not> editing buf"
    and tl: "buffer_timeline X buf = t0 \<or> (\<exists>doc sel. buffer_timeline X buf = t_edit doc sel t0)"
    by (auto simp: session_inv_def)
  from tl show ?thesis
  proof
    assume "\<exists>doc sel. buffer_timeline X buf = t_edit doc sel t0"
    then obtain doc sel where t: "buffer_timeline X buf = t_edit doc sel t0" by blast
    then have p: "past (buffer_timeline X buf) = (present t0, sel) # past t0" by (simp add: t_edit_def)
    from undo_ok [OF ok e p] obtain buf' where "perform_undo X buf = (Some ChangeLength, buf')" "buffer_ok X buf'"
      "buf_data buf' = present t0" "buffer_timeline X buf' = t_undo (buf_selection buf) (buffer_timeline X buf)"
      by blast
    with p show ?thesis by (auto simp: t_undo_def)
  qed simp
qed

end

end
