(* ===== verification/Mode_Props.thy ===== *)
theory Mode_Props
  imports Insert_Session Buffer_Props Key_Props
begin

text \<open>Properties of the modes that edit: normal, insert and replace.\<close>

unbundle bit_operations_syntax

section \<open>Normal mode\<close>

text \<open>C11: Normal mode is safe: on a sound buffer with no edit pending, every event is handled without a panic, the
  buffer stays sound, and the next mode finds what it relies on (no pending edit, or backward regions for insert
  mode). Two things are excluded: a count whose distance (count times bytes per line) is above the maximum of \<open>isize\<close>,
  with which moves wrap and may panic (\<open>huge_count_panics\<close>), and a count in front of \<open>g\<close> and \<open>G\<close>, which is an
  unchecked offset (\<open>jump_past_end\<close>).\<close>

theorem normal_key_safe:
  assumes "xi_rope X" "buffer_ok X buf" "\<not> editing buf"
    and "moves_in_range (length (buf_data buf)) bpl (to_count st)"
    and "moves_in_range (length (buf_data buf)) bpl 1"
    and "st = NoCount \<or> event_to_action normal_default_maps evt \<notin> {Some JumpToMode, Some ExtendToMode}"
  shows "\<exists>t buf'. normal_transition X st evt bpl buf = Inr (t, buf') \<and> buffer_ok X buf' \<and>
    mode_ok (case t of Some t' \<Rightarrow> next_mode (Normal st) t' | None \<Rightarrow> Normal st) buf'"
proof (cases "count_state_transition st evt")
  case NotHandled
  show ?thesis
  proof (cases "event_to_action normal_default_maps evt")
    case (Some act)
    have "checked_action st act" using assms(6) Some by (auto simp: checked_action_def)
    from xi_rope.normal_action_ok [OF assms(1-5) this] obtain t buf' where
      "normal_action_transition X st act bpl buf = Inr (t, buf')" "buffer_ok X buf'"
      "mode_ok (next_mode (Normal st) t) buf'" by (auto simp: step_ok_def)
    with NotHandled Some show ?thesis
      by (intro exI [of _ "Some t"] exI [of _ buf']) (simp add: normal_transition_def)
  qed (use NotHandled assms in \<open>simp add: normal_transition_def\<close>)
qed (use assms in \<open>simp add: normal_transition_def\<close>)

theorem normal_key_safe_witness:
  "\<exists>t buf'. normal_transition ref_xi NoCount (press (CHR ''d'')) 16 abc_buffer = Inr (t, buf') \<and>
    buffer_ok ref_xi buf' \<and>
    mode_ok (case t of Some t' \<Rightarrow> next_mode (Normal NoCount) t' | None \<Rightarrow> Normal NoCount) buf'"
  by (rule normal_key_safe [OF ref.xi_rope_axioms abc_buffer_ok])
     (simp_all add: moves_in_range_def abc_buffer_def from_data_and_path_def abcdef_def to_count_def isize_max_def)

section \<open>Insert mode\<close>

text \<open>C12: Insert mode is safe: on a sound buffer whose regions point backward, every event returns, keeps
  the buffer sound and its regions backward while in the mode; leaving the mode leaves no edit pending.\<close>

theorem insert_key_safe:
  assumes "xi_rope X" "buffer_ok X buf" "all_backward (buf_selection buf)" "room bpl buf"
  shows "\<exists>t buf'. insert_transition X im hex half evt bpl buf = Inr (t, buf') \<and> buffer_ok X buf' \<and>
    (let m = (case t of Some t' \<Rightarrow> next_mode (Insert im hex half) t' | None \<Rightarrow> Insert im hex half)
     in (if is_Insert m then all_backward (buf_selection buf') else m = normal_new \<and> \<not> editing buf'))"
proof -
  consider t buf' where "insert_transition X im hex half evt bpl buf = Inr (Some t, buf')"
      "insert_ok X (Insert im hex half) buf (Inr (t, buf'))"
    | "insert_transition X im hex half evt bpl buf = Inr (None, buf)"
    using xi_rope.insert_key_ok [OF assms, of im hex half evt] by blast
  then show ?thesis
  proof cases
    case 1
    then show ?thesis by (intro exI [of _ "Some t"] exI [of _ buf']) (auto simp: insert_ok_def)
  next
    case 2
    with assms show ?thesis by simp
  qed
qed

lemma abc_buffer_insert: "all_backward (buf_selection abc_buffer)" "room 16 abc_buffer"
  by (simp_all add: all_backward_def backward_def room_def moves_in_range_def abc_buffer_def from_data_and_path_def
      two_carets_def abcdef_def isize_max_def)

theorem insert_key_safe_witness:
  "\<exists>t buf'. insert_transition ref_xi InsertAt True None (press (CHR ''a'')) 16 abc_buffer = Inr (t, buf') \<and>
    buffer_ok ref_xi buf' \<and>
    (let m = (case t of Some t' \<Rightarrow> next_mode (Insert InsertAt True None) t' | None \<Rightarrow> Insert InsertAt True None)
     in (if is_Insert m then all_backward (buf_selection buf') else m = normal_new \<and> \<not> editing buf'))"
  by (rule insert_key_safe [OF ref.xi_rope_axioms abc_buffer_ok(1) abc_buffer_insert])

text \<open>C13: A whole session of insert mode, from entering it to leaving it, is one step for undo: whatever keys
  were typed, the buffer is sound and settled afterwards, and either nothing was edited or a single
  undo restores the document the session began with and the undo history of that moment.\<close>

theorem insert_session_one_undo:
  assumes "xi_rope X" "buffer_ok X buf" "\<not> editing buf" "all_backward (buf_selection buf)"
    and "insert_session X bpl (Insert im hex half, buf) (m, buf')" "\<not> is_Insert m"
  shows "buffer_ok X buf' \<and> \<not> editing buf' \<and>
    (buffer_timeline X buf' = buffer_timeline X buf \<or>
     (\<exists>buf''. perform_undo X buf' = (Some ChangeLength, buf'') \<and> buffer_ok X buf'' \<and>
        buf_data buf'' = buf_data buf \<and> past (buffer_timeline X buf'') = past (buffer_timeline X buf)))"
proof -
  let ?t0 = "buffer_timeline X buf"
  have p: "pending ?t0 = None" using assms(1,3) by (simp add: xi_rope.pending_editing)
  have "session_inv X ?t0 (Insert im hex half, buf)" using assms(2,4) by (simp add: session_inv_def)
  from xi_rope.session_keeps [OF assms(1) assms(5) this p] have inv: "session_inv X ?t0 (m, buf')" .
  have "present ?t0 = buf_data buf" by (simp add: buffer_timeline_def timeline_of_def)
  with xi_rope.session_undo [OF assms(1) inv assms(6) p] inv assms(6) show ?thesis
    by (auto simp: session_inv_def)
qed

text \<open>The key \<open>x\<close> in insert mode on the example buffer, step by step.\<close>

definition x_typed :: ref_delta where
  "x_typed = ([([], False), ([120], False), ([], False), ([], False), ([120], False), ([], False)], [])"

definition x_buffer :: "ref_delta buffer" where
  "x_buffer = (apply_delta_to_current_buffer ref_xi x_typed False abc_buffer)\<lparr>buf_selection :=
     \<lparr>regions = [\<lparr>caret = 2, tail = 3, main = True\<rparr>, \<lparr>caret = 6, tail = 6, main = False\<rparr>], main_selection = 0\<rparr>\<rparr>"

lemma x_typed:
  "insert_text ref_xi abcdef two_carets [120] = Inr x_typed"
  "selection_apply_delta ref_xi x_typed 6 two_carets = Inr (buf_selection x_buffer)"
  by code_simp+

lemma x_buffer_data: "buf_data x_buffer = [97, 120, 98, 99, 100, 120, 101, 102]"
  by code_simp

lemma insert_events:
  "event_to_action insert_default_maps (press (CHR ''x'')) = None"
  "event_to_action insert_default_maps (Key \<lparr>code = KEsc, modifiers = no_modifiers\<rparr>) = Some Exit"
  "encode_utf8 (ch (CHR ''x'')) = [120]"
  by code_simp+

lemma abc_buffer_parts: "buf_data abc_buffer = abcdef" "buf_selection abc_buffer = two_carets" "length abcdef = 6"
  by (simp_all add: abc_buffer_def from_data_and_path_def abcdef_def)

lemma x_session: "insert_session ref_xi 16 (Insert InsertAt False None, abc_buffer) (normal_new, commit_delta x_buffer)"
proof -
  let ?m = "Insert InsertAt False None"
  have "insert_transition ref_xi InsertAt False None (press (CHR ''x'')) 16 abc_buffer =
      Inr (Some (DirtyBytes ChangeLength), x_buffer)"
    unfolding insert_transition_def insert_events
    by (simp add: press_def normalized_char_def no_modifier_set_def without_shift_def no_modifiers_def
        transition_ascii_insertion_def insert_events(3) abc_buffer_parts x_typed apply_incomplete_delta_def)
       (simp add: x_buffer_def)
  from insert_step.handled [OF abc_buffer_insert(2) this]
  have x: "insert_step ref_xi 16 (?m, abc_buffer) (?m, x_buffer)" by simp
  have "insert_transition ref_xi InsertAt False None (Key \<lparr>code = KEsc, modifiers = no_modifiers\<rparr>) 16 x_buffer =
      Inr (Some (NewMode normal_new), commit_delta x_buffer)"
    unfolding insert_transition_def insert_events by (simp add: insert_action_transition_def)
  moreover have "room 16 x_buffer"
    by (simp add: room_def moves_in_range_def x_buffer_data isize_max_def) (simp add: x_buffer_def)
  ultimately have "insert_step ref_xi 16 (?m, x_buffer) (normal_new, commit_delta x_buffer)"
    using insert_step.handled [of 16 x_buffer ref_xi] by fastforce
  with x show ?thesis by (blast intro: insert_session.intros)
qed

theorem insert_session_one_undo_witness:
  "insert_session ref_xi 16 (Insert InsertAt False None, abc_buffer) (normal_new, commit_delta x_buffer) \<and>
   buf_data (commit_delta x_buffer) = [97, 120, 98, 99, 100, 120, 101, 102] \<and>
   (\<exists>buf''. perform_undo ref_xi (commit_delta x_buffer) = (Some ChangeLength, buf'') \<and> buf_data buf'' = abcdef)"
proof -
  have data: "buf_data (commit_delta x_buffer) = [97, 120, 98, 99, 100, 120, 101, 102]"
    using x_buffer_data by (simp add: commit_delta_def)
  have "length (buf_data (commit_delta x_buffer)) \<noteq> length (buf_data abc_buffer)"
    unfolding data abc_buffer_parts by simp
  moreover have "present (buffer_timeline ref_xi b) = buf_data b" for b
    by (simp add: buffer_timeline_def timeline_of_def)
  ultimately have "buffer_timeline ref_xi (commit_delta x_buffer) \<noteq> buffer_timeline ref_xi abc_buffer"
    by metis
  with insert_session_one_undo [OF ref.xi_rope_axioms abc_buffer_ok abc_buffer_insert(1) x_session]
    x_session data abc_buffer_parts(1) show ?thesis by (auto simp: normal_new_def)
qed

text \<open>Overwriting in hexadecimal can panic, because \<open>o\<close> and \<open>O\<close> enter insert mode with the regions as they
  are: with a region whose caret is last and another caret right behind it, the first digit moves the
  first caret onto the second region, which now points the other way, and \<open>merge\<close> panics.\<close>

theorem overwrite_mixed_panics:
  assumes "xi_rope X" "length (buf_data buf) = 4" "main_selection (buf_selection buf) = 0"
    and "regions (buf_selection buf) = [\<lparr>caret = 2, tail = 0, main = True\<rparr>, \<lparr>caret = 3, tail = 3, main = False\<rparr>]"
  shows "insert_transition X OverwriteAt True None (press (CHR ''a'')) bpl buf = Inl MergeDifferentDirections"
proof -
  let ?sel = "buf_selection buf"
  have sel: "wf_selection ?sel" "in_bounds (length (buf_data buf)) ?sel"
    using assms by (simp_all add: wf_selection_def before_def in_bounds_def region_defs)
  have carets: "carets ?sel = {2, 3}" using assms(4) by (simp add: carets_def)
  have hex: "is_ascii_hexdigit (ch (CHR ''a''))" "to_digit (ch (CHR ''a'')) = Inr 10"
    "event_to_action insert_default_maps (press (CHR ''a'')) = None"
    by code_simp+
  obtain d x y where d: "overwrite_half X (buf_data buf) ?sel 160 = Inr d"
    "delta_del X d = [False, False, True, True]" "delta_ins X d = [[], [], [x, y]]"
    using xi_rope.overwrite_half_does [OF assms(1) sel, of 160]
    unfolding does_edit_def carets assms(2) by (auto simp: upt_rec)
  have t: "transformer_transform X d 0 True = 0" "transformer_transform X d 2 True = 4"
    "transformer_transform X d 3 True = 4" "delta_new_document_len X d = 4"
    using xi_rope.transform_view [OF assms(1), of _ d] xi_rope.new_document_len_view [OF assms(1), of d]
    by (simp_all add: d survivors_def Let_def numeral_eq_Suc)
  have "selection_apply_delta_offset_carets X d (- 1) 0 4 ?sel = Inl MergeDifferentDirections"
    using assms(3,4)
    by (simp add: selection_apply_delta_offset_carets_def t as_isize_def isize_max_def isize_wrap_def as_usize_def
        usize_modulus_def map_selections_def single_def region_new_def push_region_def overlaps_def merge_region_def
        region_defs Let_def)
  then show ?thesis
    unfolding insert_transition_def hex
    by (simp add: press_def normalized_char_def no_modifier_set_def without_shift_def no_modifiers_def
        transition_hex_insertion_def hex d(1) apply_incomplete_delta_offset_carets_def assms(2) Let_def)
qed

theorem overwrite_mixed_panics_witness:
  "insert_transition ref_xi OverwriteAt True None (press (CHR ''a'')) 16
     ((from_data_and_path [1, 2, 3, 4] None)\<lparr>buf_selection := \<lparr>regions = [\<lparr>caret = 2, tail = 0, main = True\<rparr>,
        \<lparr>caret = 3, tail = 3, main = False\<rparr>], main_selection = 0\<rparr>\<rparr>) = Inl MergeDifferentDirections"
  by (rule overwrite_mixed_panics [OF ref.xi_rope_axioms]) (simp_all add: from_data_and_path_def)

text \<open>Appending digits can end in the same way. A digit leaves the caret of a cursor at the end of the document in
  front of its tail while the other regions point forward (on four bytes with the first three selected and a
  second cursor at the end: \<open>A\<close>, a digit, Ctrl-o, backspace); deleting backwards brings the two together.\<close>

theorem append_digits_panics:
  assumes "xi_rope X" "length (buf_data buf) = 4" "main_selection (buf_selection buf) = 0"
    and "regions (buf_selection buf) = [\<lparr>caret = 2, tail = 0, main = True\<rparr>, \<lparr>caret = 3, tail = 4, main = False\<rparr>]"
  shows "insert_transition X AppendTo False None (Key \<lparr>code = KBackspace, modifiers = no_modifiers\<rparr>) bpl buf =
    Inl MergeDifferentDirections"
proof -
  let ?sel = "buf_selection buf"
  have sel: "wf_selection ?sel" "in_bounds (length (buf_data buf)) ?sel"
    using assms by (simp_all add: wf_selection_def before_def in_bounds_def region_defs)
  have carets: "carets ?sel = {2, 3}" using assms(4) by (simp add: carets_def)
  have act: "event_to_action insert_default_maps (Key \<lparr>code = KBackspace, modifiers = no_modifiers\<rparr>) = Some RemoveLast"
    by code_simp
  obtain d where d: "backspace X (buf_data buf) ?sel = Inr d"
    "delta_del X d = [False, True, True, False]" "delta_ins X d = [[], [], []]"
    using xi_rope.backspace_does [OF assms(1) sel]
    unfolding does_edit_def carets assms(2) by (auto simp: upt_rec)
  have t: "transformer_transform X d 0 True = 0" "transformer_transform X d 2 True = 1"
    "transformer_transform X d 3 True = 1" "delta_new_document_len X d = 2"
    using xi_rope.transform_view [OF assms(1), of _ d] xi_rope.new_document_len_view [OF assms(1), of d]
    by (simp_all add: d survivors_def Let_def numeral_eq_Suc)
  have "selection_apply_delta X d 4 ?sel = Inl MergeDifferentDirections"
    using assms(3,4)
    by (simp add: selection_apply_delta_def t map_selections_def single_def region_new_def push_region_def overlaps_def
        merge_region_def region_defs Let_def)
  moreover have "buf_data buf \<noteq> []" using assms(2) by auto
  ultimately show ?thesis
    unfolding insert_transition_def act
    by (simp add: insert_action_transition_def d(1) apply_incomplete_delta_def assms(2) Let_def)
qed

section \<open>Replace mode\<close>

lemma nibbles: "push_bit 4 a OR b = 16 * a + b" if "b < 16" for a b :: u8
proof -
  have b: "take_bit 4 b = b"
  proof (rule unsigned_word_eqI [where 'a = nat])
    show "unat (take_bit 4 b) = unat b"
      using that by (simp add: unsigned_take_bit_eq take_bit_nat_eq_self word_less_nat_alt)
  qed
  have "push_bit 4 a AND take_bit 4 b = 0" by (rule bit_eqI) (auto simp: bit_simps)
  then show ?thesis by (simp add: b disjunctive_add_eq_or push_bit_eq_mult mult.commute)
qed

lemma to_digit_less: "to_digit c = Inr d \<Longrightarrow> d < 16"
proof -
  have small: "(of_nat k :: u8) < 16" if "k < 16" for k
    using that by (simp add: word_less_nat_alt unat_of_nat)
  assume "to_digit c = Inr d"
  then show ?thesis
    using small [of "c - 48"] small [of "c - 55"] small [of "c - 87"]
    by (simp add: to_digit_def split: if_splits del: of_nat_diff)
qed

lemma replace_char_unmapped: "event_to_action replace_default_maps (plain_key c) = None"
  by (simp add: event_to_action_def plain_key_def replace_default_maps_def keys_def k_ctrl_def normalized_char_def
      no_modifiers_def without_shift_def Let_def)

lemma replace_plain_key:
  "replace_transition X True half (plain_key c) buf =
     (if \<not> is_ascii_hexdigit c then Inr (Some (NewMode normal_new), buf)
      else and_then (to_digit c) (\<lambda>digit. case half of
        None \<Rightarrow> Inr (Some (NewMode (Replace True (Some (push_bit 4 digit)))), buf)
      | Some h \<Rightarrow> replace_with X (digit OR h) buf))"
  unfolding replace_transition_def replace_char_unmapped
  by (cases half) (simp_all add: plain_key_def no_modifier_set_def without_shift_def no_modifiers_def)

text \<open>C26: Replace mode in hexadecimal: two digits overwrite every selected byte with the byte they spell (a
  cursor past the end appends it) and return to normal mode with the buffer sound, in one undoable edit: the history has
  one more entry, and a single undo restores the document, the selection and the history from before.\<close>

theorem replace_two_digits:
  assumes "xi_rope X" "buffer_ok X buf" "\<not> editing buf"
    and "is_ascii_hexdigit c" "to_digit c = Inr a" "is_ascii_hexdigit c'" "to_digit c' = Inr b"
  shows "\<exists>buf'. replace_transition X True None (plain_key c) buf = Inr (Some (NewMode (Replace True (Some (16 * a)))), buf) \<and>
    replace_transition X True (Some (16 * a)) (plain_key c') buf =
      Inr (Some (ModeAndDirtyBytes normal_new ChangeLength), buf') \<and>
    buffer_ok X buf' \<and> \<not> editing buf' \<and>
    buf_data buf' = (let S = spans (regions (buf_selection buf)); n = length (buf_data buf) in
      map (\<lambda>i. if i \<in> S then 16 * a + b else buf_data buf ! i) [0..<n] @ (if n \<in> S then [16 * a + b] else [])) \<and>
    past (buffer_timeline X buf') = (buf_data buf, buf_selection buf) # past (buffer_timeline X buf) \<and>
    (\<exists>buf''. perform_undo X buf' = (Some ChangeLength, buf'') \<and> buffer_ok X buf'' \<and> buf_data buf'' = buf_data buf \<and>
      buf_selection buf'' = buf_selection buf \<and> past (buffer_timeline X buf'') = past (buffer_timeline X buf))"
proof -
  have "push_bit 4 a = 16 * a" using nibbles [of 0 a] by simp
  moreover have "b OR 16 * a = 16 * a + b"
    using nibbles [OF to_digit_less [OF assms(7)], of a] calculation by (simp add: or.commute)
  moreover obtain d buf1 where b1: "replace X (buf_data buf) (buf_selection buf) (16 * a + b) = Inr d"
    "buffer_apply_delta X d buf = Inr (ChangeLength, buf1)" "buffer_ok X buf1" "\<not> editing buf1"
    "buf_data buf1 = overwritten (buf_data buf) (regions (buf_selection buf)) (16 * a + b)"
    "buffer_timeline X buf1 = t_edit (buf_data buf1) (buf_selection buf) (buffer_timeline X buf)"
    using xi_rope.replace_result [OF assms(1-3), of "16 * a + b"] by (auto simp: edit_result_def)
  have past: "past (buffer_timeline X buf1) = (buf_data buf, buf_selection buf) # past (buffer_timeline X buf)"
    unfolding b1(6) by (simp add: t_edit_def buffer_timeline_def timeline_of_def)
  moreover from xi_rope.undo_ok [OF assms(1) b1(3,4) past] obtain buf2 where
    "perform_undo X buf1 = (Some ChangeLength, buf2)" "buffer_ok X buf2"
    "buf_data buf2 = buf_data buf" "buf_selection buf2 = buf_selection buf"
    "buffer_timeline X buf2 = t_undo (buf_selection buf1) (buffer_timeline X buf1)" by metis
  moreover from this(5) past have "past (buffer_timeline X buf2) = past (buffer_timeline X buf)"
    by (simp add: t_undo_def)
  ultimately show ?thesis
    using assms(4-7) b1(1-5)
    by (intro exI [of _ buf1]) (auto simp: replace_plain_key replace_with_def overwritten_def Let_def)
qed

theorem replace_two_digits_witness:
  "\<exists>buf'. replace_transition ref_xi True (Some 0x40) (plain_key (ch (CHR ''1''))) abc_buffer =
      Inr (Some (ModeAndDirtyBytes normal_new ChangeLength), buf') \<and>
    buf_data buf' = [97, 0x41, 0x41, 100, 0x41, 102] \<and>
    (\<exists>buf''. perform_undo ref_xi buf' = (Some ChangeLength, buf'') \<and> buf_data buf'' = abcdef)"
proof -
  have hex: "is_ascii_hexdigit (ch (CHR ''4''))" "to_digit (ch (CHR ''4'')) = Inr 4"
    "is_ascii_hexdigit (ch (CHR ''1''))" "to_digit (ch (CHR ''1'')) = Inr 1"
    by code_simp+
  from replace_two_digits [OF ref.xi_rope_axioms abc_buffer_ok hex] show ?thesis
    by (auto simp: abc_buffer_parts two_carets_spans abcdef_def upt_rec Let_def)
qed

section \<open>Jumping\<close>

text \<open>A count in front of \<open>g\<close> is not checked against the buffer: an offset beyond the end takes the caret
  there, and the selection is no longer inside the data.\<close>

theorem jump_past_end:
  assumes "sel_ok (length (buf_data buf)) (buf_selection buf)" "length (buf_data buf) < offset"
  shows "\<exists>t buf'. normal_action_transition X (Count hex offset) JumpToMode bpl buf = Inr (t, buf') \<and>
    buf_data buf' = buf_data buf \<and> \<not> sel_ok (length (buf_data buf')) (buf_selection buf') \<and>
    spans (regions (buf_selection buf')) = {offset}"
proof -
  let ?rs = "regions (buf_selection buf)"
  have wf: "wf_selection (buf_selection buf)" using assms(1) by (simp add: sel_ok_def)
  obtain s' where s': "map_selections (single (\<lambda>r. jump_to r offset)) () (buf_selection buf) = Inr (s', ())"
    "spans (regions s') = spans (map (\<lambda>r. jump_to r offset) ?rs)"
    using jump_map.map_selections_keeps [OF single_maps_to wf, of offset "()"] by auto
  have "spans (map (\<lambda>r. jump_to r offset) ?rs) = {offset}"
    using wf_selection_nonempty [OF wf] by (auto simp: spans_def span_def jump_to_def region_new_def region_defs)
  moreover have "\<not> in_bounds (length (buf_data buf)) s'" if "spans (regions s') = {offset}"
  proof -
    from that obtain r where "r \<in> set (regions s')" "offset \<in> span r" unfolding spans_def by blast
    with assms(2) show ?thesis by (fastforce simp: in_bounds_def span_def region_defs)
  qed
  ultimately show ?thesis
    using s' by (auto simp: normal_action_defs and_new_mode_def buffer_map_selections_eq sel_ok_def)
qed

theorem jump_past_end_witness:
  "\<exists>t buf'. normal_action_transition ref_xi (Count False 99) JumpToMode 16 abc_buffer = Inr (t, buf') \<and>
    buf_data buf' = buf_data abc_buffer \<and> \<not> sel_ok (length (buf_data buf')) (buf_selection buf') \<and>
    spans (regions (buf_selection buf')) = {99}"
  by (rule jump_past_end)
     (use abc_buffer_ok(1) in \<open>simp_all add: buffer_ok_def abc_buffer_parts\<close>)

end
