(* ===== verification/Search_Safe.thy ===== *)
theory Search_Safe
  imports Mode_Search Buffer_Maps
begin

text \<open>
  Facts on searching: what the loop over the matches of a region finds (given the documented
  behaviour of the substring search), the invariant of the pattern editor, the pieces a region is
  split into, and when a search leaves \<open>map_selections\<close> without a region to be the main one.
\<close>

section \<open>The match loop\<close>

definition occurs :: "bytes \<Rightarrow> bytes \<Rightarrow> nat \<Rightarrow> bool" where
  "occurs needle hay i \<longleftrightarrow> i + length needle \<le> length hay \<and> take (length needle) (drop i hay) = needle"

text \<open>The documented behaviour of \<open>ByteSubstring::find\<close>: the first occurrence, if there is one.\<close>

definition finds_first :: "matcher \<Rightarrow> bool" where
  "finds_first mt \<longleftrightarrow> (\<forall>needle hay.
     case substring_find mt needle hay of
       None \<Rightarrow> (\<forall>i. \<not> occurs needle hay i)
     | Some i \<Rightarrow> occurs needle hay i \<and> (\<forall>j<i. \<not> occurs needle hay j))"

definition all_matches :: "bytes \<Rightarrow> bytes \<Rightarrow> nat \<Rightarrow> nat \<Rightarrow> range list \<Rightarrow> bool" where
  "all_matches needle bs base from ms \<longleftrightarrow>
     (\<forall>(s, e)\<in>set ms. base + from \<le> s \<and> e = s + length needle \<and> occurs needle bs (s - base)) \<and>
     sorted_wrt (\<lambda>(s, e) (s', e'). e \<le> s') ms \<and>
     (\<forall>i\<ge>from. occurs needle bs i \<longrightarrow> (\<exists>(s, e)\<in>set ms. s \<le> base + i \<and> base + i < e))"

lemma occurs_drop: "from \<le> length bs \<Longrightarrow> occurs needle (drop from bs) i \<longleftrightarrow> occurs needle bs (from + i)"
  by (auto simp: occurs_def add.commute)

lemma all_matches_Cons:
  assumes "occurs needle bs (from + start)" "\<forall>j < start. \<not> occurs needle bs (from + j)" "needle \<noteq> []"
    and ms: "all_matches needle bs base (from + start + length needle) ms"
  shows "all_matches needle bs base from ((base + (from + start), base + (from + start) + length needle) # ms)"
proof -
  have complete: "\<exists>(s, e)\<in>set ((base + (from + start), base + (from + start) + length needle) # ms).
      s \<le> base + i \<and> base + i < e"
    if i: "from \<le> i" "occurs needle bs i" for i
  proof -
    consider "i < from + start" | "from + start \<le> i" "i < from + start + length needle" | "from + start + length needle \<le> i"
      by linarith
    then show ?thesis
    proof cases
      case 1
      then have "\<not> occurs needle bs (from + (i - from))" using spec [OF assms(2), of "i - from"] i by linarith
      with i show ?thesis by simp
    next
      case 3
      with ms i have "\<exists>(s, e)\<in>set ms. s \<le> base + i \<and> base + i < e" by (simp add: all_matches_def)
      then show ?thesis by auto
    qed auto
  qed
  have "\<forall>(s, e)\<in>set ms. base + from \<le> s \<and> base + (from + start) + length needle \<le> s"
    using ms by (auto simp: all_matches_def)
  with complete ms assms(1) show ?thesis by (auto simp: all_matches_def)
qed

lemma find_matches_from:
  assumes mt: "finds_first mt" and ne: "needle \<noteq> []" and "length bs - from < fuel" "from \<le> length bs"
  shows "\<exists>ms. find_matches mt needle bs (base + from) from fuel = Inr ms \<and> all_matches needle bs base from ms"
  using assms(3,4)
proof (induction fuel arbitrary: "from")
  case (Suc fuel)
  let ?r = "substring_find mt needle (drop from bs)"
  have r: "case ?r of None \<Rightarrow> (\<forall>i. \<not> occurs needle (drop from bs) i)
      | Some i \<Rightarrow> occurs needle (drop from bs) i \<and> (\<forall>j<i. \<not> occurs needle (drop from bs) j)"
    using mt by (simp add: finds_first_def)
  show ?case
  proof (cases ?r)
    case None
    have "\<not> occurs needle bs i" if "from \<le> i" for i
    proof -
      have "\<not> occurs needle (drop from bs) (i - from)" using r None by simp
      then show ?thesis using that Suc.prems by (simp add: occurs_drop)
    qed
    with None Suc.prems show ?thesis by (simp add: all_matches_def)
  next
    case (Some start)
    then have start: "occurs needle bs (from + start)" "\<forall>j < start. \<not> occurs needle bs (from + j)"
      using r Suc.prems by (auto simp: occurs_drop)
    let ?next = "from + start + length needle"
    have le: "?next \<le> length bs" using start(1) by (simp add: occurs_def)
    have "length bs - ?next < fuel" using Suc.prems ne le by (cases needle) auto
    then obtain ms where ms: "find_matches mt needle bs (base + ?next) ?next fuel = Inr ms"
      "all_matches needle bs base ?next ms"
      using Suc.IH [of ?next] le by blast
    from all_matches_Cons [OF start ne ms(2)] ms(1) Some Suc.prems show ?thesis
      by (simp add: Let_def add.assoc)
  qed
qed simp

section \<open>The pattern editor\<close>

definition search_ok :: "mode \<Rightarrow> bool" where
  "search_ok m \<longleftrightarrow>
     (case m of Search p c hex half next \<Rightarrow>
        c \<le> length (pieces p) \<and> (half \<noteq> None \<longrightarrow> c < length (pieces p))
      | _ \<Rightarrow> True)"

lemma search_new_ok [simp]: "search_ok (search_new next hex)" "search_ok normal_new"
  by (simp_all add: search_ok_def search_new_def normal_new_def)

lemma pattern_remove_length:
  "length (pieces (snd (pattern_remove k p))) = (if k < length (pieces p) then length (pieces p) - 1 else length (pieces p))"
  by (simp add: pattern_remove_def)

text \<open>Any key but Enter: the handler returns, and the cursor stays inside the pattern.\<close>

lemma search_action_ok:
  assumes "search_ok (Search p c hex half next)" "act \<noteq> SearchFinish"
  shows "\<exists>t. search_action_transition X mt p c hex half next act bc = Inr (Some t, bc) \<and>
    (case t of NewMode m \<Rightarrow> search_ok m | _ \<Rightarrow> t = TNone)"
  using assms
  by (cases act; cases half)
     (auto simp: search_action_transition_def Let_def insert_literal_def insert_wildcard_def
        pieces_insert_def search_ok_def pattern_remove_length normal_new_def)

lemma search_char_ok:
  assumes "search_ok (Search p c hex half next)" "event_to_action search_default_maps evt = None"
  shows "\<exists>t. search_transition X mt p c hex half next evt bc = Inr (t, bc) \<and>
    (case t of Some (NewMode m) \<Rightarrow> search_ok m | _ \<Rightarrow> t = None)"
proof (cases evt)
  case (Key e)
  show ?thesis
  proof (cases "code e")
    case (KChar key)
    consider "\<not> no_modifier_set (modifiers e)" | "no_modifier_set (modifiers e)" "\<not> hex"
      | "no_modifier_set (modifiers e)" "hex" "\<not> is_ascii_hexdigit key"
      | "no_modifier_set (modifiers e)" "hex" "is_ascii_hexdigit key" by blast
    then show ?thesis
    proof cases
      case 4
      then obtain dg where "to_digit key = Inr dg" using to_digit_ok [of key] by (auto simp: ok_iff)
      with 4 assms Key KChar show ?thesis
        by (cases half) (auto simp: search_transition_def search_ok_def insert_literal_def pieces_insert_def
            insert_half_literal_def)
    qed (use assms Key KChar in \<open>auto simp: search_transition_def search_ok_def insert_literal_def pieces_insert_def\<close>)
  qed (use assms(2) Key in \<open>simp_all add: search_transition_def\<close>)
qed (use assms(2) in \<open>simp_all add: search_transition_def\<close>)

section \<open>Splitting by width\<close>

lemma positions_from_range:
  assumes "0 < step"
  shows "set (positions_from mn mx step) \<subseteq> {mn..mx}"
  using assms
proof (induction mn mx step rule: positions_from.induct)
  case (1 pos mx step)
  show ?case
  proof (cases "mx < pos")
    case False
    with 1 have "set (positions_from (pos + step) mx step) \<subseteq> {pos + step..mx}" by simp
    then have "set (positions_from (pos + step) mx step) \<subseteq> {pos..mx}" by fastforce
    with False show ?thesis by (subst positions_from.simps) simp
  qed (subst positions_from.simps, simp)
qed

lemma positions_from_cover:
  assumes "0 < step" "mn \<le> mx"
  shows "(\<Union>p\<in>set (positions_from mn mx step). {p..min mx (p + step - 1)}) = {mn..mx}"
  using assms
proof (induction mn mx step rule: positions_from.induct)
  case (1 pos mx step)
  have eq: "positions_from pos mx step = pos # positions_from (pos + step) mx step"
    using 1 by (subst positions_from.simps) simp
  show ?case
  proof (cases "pos + step \<le> mx")
    case True
    with 1 have "(\<Union>p\<in>set (positions_from (pos + step) mx step). {p..min mx (p + step - 1)}) = {pos + step..mx}"
      by simp
    with True 1 show ?thesis unfolding eq by auto
  next
    case False
    then have "positions_from (pos + step) mx step = []" by (subst positions_from.simps) simp
    with False 1 show ?thesis unfolding eq by auto
  qed
qed

lemma positions_from_steps:
  assumes "0 < step"
  shows "sorted_wrt (\<lambda>p q. p + step \<le> q) (positions_from mn mx step)"
  using assms
proof (induction mn mx step rule: positions_from.induct)
  case (1 pos mx step)
  show ?case
  proof (cases "mx < pos")
    case False
    have "set (positions_from (pos + step) mx step) \<subseteq> {pos + step..mx}"
      by (rule positions_from_range [OF 1(2)])
    with False 1 show ?thesis by (subst positions_from.simps) auto
  qed (subst positions_from.simps, simp)
qed

section \<open>No region left for the main selection\<close>

lemma map_loop_no_main:
  assumes "i \<le> ms" "ms < i + length rs"
    and "\<forall>j<length rs. i + j \<le> ms \<longrightarrow> f (sts j) (rs ! j) = Inr ([], sts (Suc j))"
  shows "map_loop f ms i rs (sts 0) [] nm = Inl UnwrapNone"
  using assms
proof (induction rs arbitrary: i sts)
  case (Cons r rs)
  have f: "f (sts 0) r = Inr ([], sts 1)" using Cons.prems(1) Cons.prems(3) [rule_format, of 0] by simp
  show ?case
  proof (cases "i = ms")
    case False
    have "map_loop f ms (Suc i) rs ((\<lambda>j. sts (Suc j)) 0) [] nm = Inl UnwrapNone"
    proof (rule Cons.IH)
      show "\<forall>j<length rs. Suc i + j \<le> ms \<longrightarrow> f (sts (Suc j)) (rs ! j) = Inr ([], sts (Suc (Suc j)))"
        using Cons.prems(3) by auto
    qed (use Cons.prems False in auto)
    with f False show ?thesis by simp
  qed (simp add: f)
qed simp

section \<open>Matches under every region\<close>

abbreviation under :: "bytes \<Rightarrow> sel_region \<Rightarrow> bytes" where
  "under base r \<equiv> take (region_len r) (drop (region_min r) base)"

lemma traverse_ok:
  assumes "\<forall>x\<in>set xs. \<exists>y. f x = Inr y \<and> P x y"
  shows "\<exists>ys. traverse f xs = Inr ys \<and> list_all2 P xs ys"
  using assms
proof (induction xs)
  case (Cons x xs)
  then obtain y ys where "f x = Inr y" "P x y" "traverse f xs = Inr ys" "list_all2 P xs ys" by auto
  then show ?case by simp
qed simp

lemma slice_region:
  assumes "region_min r \<le> length base"
  shows "slice_to_cow base (region_min r) (region_max r + 1) = Inr (under base r)"
proof -
  have "Suc (region_max r) - region_min r = region_len r" "\<not> Suc (region_max r) \<le> region_min r"
    using region_min_le_max [of r] by (simp_all add: region_len_def Suc_diff_le not_le less_Suc_eq_le)
  with assms show ?thesis by (simp add: slice_to_cow_def)
qed

lemma matches_ok:
  assumes mt: "finds_first mt" and sel: "in_bounds (length (buf_data buf)) (buf_selection buf)"
    and p: "as_basic_slice p = Some needle" "needle \<noteq> []"
  shows "\<exists>mss. map_selections_to_matches mt p buf = Inr mss \<and>
    list_all2 (\<lambda>r ms. all_matches needle (under (buf_data buf) r) (region_min r) 0 ms)
      (regions (buf_selection buf)) mss"
proof -
  have "\<exists>ms. and_then (slice_to_cow (buf_data buf) (region_min r) (region_max r + 1)) (\<lambda>bs.
        find_matches mt needle bs (region_min r) 0 (Suc (length bs))) = Inr ms \<and>
      all_matches needle (under (buf_data buf) r) (region_min r) 0 ms"
    if "r \<in> set (regions (buf_selection buf))" for r
  proof -
    have "region_min r \<le> length (buf_data buf)" using sel that by (auto simp: in_bounds_def region_defs)
    from find_matches_from [OF mt p(2), of "under (buf_data buf) r" 0 "Suc (length (under (buf_data buf) r))"
        "region_min r"] slice_region [OF this]
    show ?thesis by (simp del: find_matches.simps)
  qed
  then have "\<exists>mss. traverse (\<lambda>r. and_then (slice_to_cow (buf_data buf) (region_min r) (region_max r + 1)) (\<lambda>bs.
        find_matches mt needle bs (region_min r) 0 (Suc (length bs)))) (regions (buf_selection buf)) = Inr mss \<and>
      list_all2 (\<lambda>r ms. all_matches needle (under (buf_data buf) r) (region_min r) 0 ms)
        (regions (buf_selection buf)) mss"
    by (intro traverse_ok) blast
  with p show ?thesis by (simp add: map_selections_to_matches_def)
qed

text \<open>A reference search, which tries every offset in turn.\<close>

definition naive_matcher :: matcher where
  "naive_matcher = \<lparr>substring_find = (\<lambda>needle hay. find (occurs needle hay) [0..<Suc (length hay)]),
     regex_find_iter = (\<lambda>expr hay. None)\<rparr>"

lemma naive_matcher_finds_first: "finds_first naive_matcher"
proof -
  have None: "\<forall>i. \<not> occurs needle hay i" if "find (occurs needle hay) [0..<Suc (length hay)] = None" for needle hay
    using that by (auto simp: find_None_iff occurs_def simp del: upt_Suc)
  have Some: "occurs needle hay i \<and> (\<forall>j<i. \<not> occurs needle hay j)"
    if "find (occurs needle hay) [0..<Suc (length hay)] = Some i" for needle hay i
  proof -
    from that obtain k where k: "k < Suc (length hay)" "i = [0..<Suc (length hay)] ! k"
      "occurs needle hay ([0..<Suc (length hay)] ! k)" "\<forall>j<k. \<not> occurs needle hay ([0..<Suc (length hay)] ! j)"
      by (auto simp: find_Some_iff simp del: upt_Suc)
    then show ?thesis by (simp del: upt_Suc)
  qed
  show ?thesis
    unfolding finds_first_def naive_matcher_def using None Some by (auto split: option.splits simp del: upt_Suc)
qed

end
