(* ===== verification/Search_Props.thy ===== *)
theory Search_Props
  imports Search_Safe Buffer_Props Mode_Safe
begin

text \<open>Properties of searching, collapsing and splitting, and of the ranges that mapped selections report.\<close>

section \<open>Matches\<close>

text \<open>C21: The match loop of \<open>Pattern::map_selections_to_matches\<close> ends and is exact for a pattern without
  wildcards: for every region it lists occurrences of the pattern inside the region, in order and
  without overlap, and every occurrence in the region begins inside a listed one.\<close>

theorem matches_exact:
  assumes "finds_first mt" "in_bounds (length (buf_data buf)) (buf_selection buf)"
    and "as_basic_slice p = Some needle" "needle \<noteq> []"
  shows "\<exists>mss. map_selections_to_matches mt p buf = Inr mss \<and> length mss = length (regions (buf_selection buf)) \<and>
    (\<forall>k<length mss. let r = regions (buf_selection buf) ! k; bs = under (buf_data buf) r in
       (\<forall>(s, e)\<in>set (mss ! k). region_min r \<le> s \<and> e = s + length needle \<and> occurs needle bs (s - region_min r)) \<and>
       sorted_wrt (\<lambda>(s, e) (s', e'). e \<le> s') (mss ! k) \<and>
       (\<forall>i. occurs needle bs i \<longrightarrow> (\<exists>(s, e)\<in>set (mss ! k). s \<le> region_min r + i \<and> region_min r + i < e)))"
  using matches_ok [OF assms] by (auto simp: list_all2_conv_all_nth all_matches_def Let_def)

theorem matches_exact_witness:
  "\<exists>mss. map_selections_to_matches naive_matcher \<lparr>pieces = [Literal 98, Literal 99]\<rparr> abc_buffer = Inr mss \<and>
    length mss = 2 \<and> (\<forall>(s, e)\<in>set (mss ! 0). 1 \<le> s \<and> e = s + 2)"
proof -
  have sel: "in_bounds (length (buf_data abc_buffer)) (buf_selection abc_buffer)"
    using buffer_sel_ok(2) [OF abc_buffer_ok(1)] .
  have rs: "regions (buf_selection abc_buffer) = regions two_carets"
    by (simp add: abc_buffer_def from_data_and_path_def)
  have "as_basic_slice \<lparr>pieces = [Literal 98, Literal 99]\<rparr> = Some [98, 99]" by (simp add: as_basic_slice_def)
  from matches_exact [OF naive_matcher_finds_first sel this] obtain mss where m:
    "map_selections_to_matches naive_matcher \<lparr>pieces = [Literal 98, Literal 99]\<rparr> abc_buffer = Inr mss"
    "length mss = length (regions two_carets)"
    "\<forall>k<length mss. \<forall>(s, e)\<in>set (mss ! k).
      region_min (regions two_carets ! k) \<le> s \<and> e = s + length [98, 99 :: u8]"
    unfolding rs Let_def by fast
  have "region_min (regions two_carets ! 0) = 1" "length (regions two_carets) = 2"
    by (simp_all add: two_carets_def region_defs)
  with m(3) [rule_format, of 0] m(1,2) show ?thesis by auto
qed

section \<open>Collapse\<close>

text \<open>C40: Collapsing a selection to the matches of a pattern without wildcards panics when neither the main region nor any region
  in front of it has a match but a later region has one: \<open>map_selections\<close> then has no region to make
  the main one. The guard of \<open>apply_search\<close> only excludes that nothing at all was matched.\<close>

theorem collapse_panics_without_main:
  assumes "finds_first mt" "sel_ok (length (buf_data buf)) (buf_selection buf)"
    and "as_basic_slice p = Some needle" "needle \<noteq> []"
    and "\<forall>k\<le>main_selection (buf_selection buf). \<forall>i. \<not> occurs needle (under (buf_data buf) (regions (buf_selection buf) ! k)) i"
    and "k < length (regions (buf_selection buf))" "occurs needle (under (buf_data buf) (regions (buf_selection buf) ! k)) i"
  shows "collapse_apply_search X mt p buf = Inl UnwrapNone"
proof -
  let ?rs = "regions (buf_selection buf)" and ?main = "main_selection (buf_selection buf)"
  from assms(2) have sel: "in_bounds (length (buf_data buf)) (buf_selection buf)" and main: "?main < length ?rs"
    by (simp_all add: sel_ok_def wf_selection_def)
  obtain mss where m: "map_selections_to_matches mt p buf = Inr mss" "length mss = length ?rs"
    "\<forall>k<length ?rs. all_matches needle (under (buf_data buf) (?rs ! k)) (region_min (?rs ! k)) 0 (mss ! k)"
    using matches_ok [OF assms(1) sel assms(3,4)] by (auto simp: list_all2_conv_all_nth)
  have none: "mss ! j = []" if "j \<le> ?main" for j
  proof -
    have "\<forall>(s, e)\<in>set (mss ! j). False"
      using m(3) [rule_format, of j] assms(5) that main by (auto simp: all_matches_def)
    then show ?thesis by (cases "mss ! j") auto
  qed
  obtain s e where se: "(s, e) \<in> set (mss ! k)" "s < e"
  proof -
    have "all_matches needle (under (buf_data buf) (?rs ! k)) (region_min (?rs ! k)) 0 (mss ! k)"
      using m(3) assms(6) by blast
    then have "\<exists>(s, e)\<in>set (mss ! k). s \<le> region_min (?rs ! k) + i \<and> region_min (?rs ! k) + i < e"
      using assms(7) by (simp add: all_matches_def)
    then show thesis using that by force
  qed
  then have "(s, e) \<in> set (concat mss)" using assms(6) m(2) by (auto intro!: bexI [of _ "mss ! k"])
  then have "e - s \<in> set (map (\<lambda>(s, e). e - s) (concat mss))" by force
  then have "e - s \<le> ranges_len mss" unfolding ranges_len_def by (rule member_le_sum_list) simp
  then have "ranges_len mss \<noteq> 0" using se(2) by simp
  moreover have "map_loop collapse_closure ?main 0 ?rs ((\<lambda>j. drop j mss) 0) [] 0 = Inl UnwrapNone"
  proof (rule map_loop_no_main)
    show "\<forall>j<length ?rs. 0 + j \<le> ?main \<longrightarrow> collapse_closure (drop j mss) (?rs ! j) = Inr ([], drop (Suc j) mss)"
      using none m(2) by (auto simp: collapse_closure_def Cons_nth_drop_Suc [symmetric])
  qed (use main in auto)
  moreover have "pieces p \<noteq> []" using assms(3,4) by (auto simp: as_basic_slice_def)
  ultimately show ?thesis
    using m(1) by (simp add: collapse_apply_search_def buffer_map_selections_eq map_selections_def)
qed

theorem collapse_panics_without_main_witness:
  "collapse_apply_search ref_xi naive_matcher \<lparr>pieces = [Literal 101]\<rparr> abc_buffer = Inl UnwrapNone"
proof -
  have [simp]: "buf_selection abc_buffer = two_carets" "buf_data abc_buffer = abcdef"
    by (simp_all add: abc_buffer_def from_data_and_path_def)
  have "under abcdef (regions two_carets ! 0) = [98, 99]" "under abcdef (regions two_carets ! 1) = [101]"
    by (simp_all add: abcdef_def two_carets_def region_defs region_len_def)
  moreover have "\<not> occurs [101] [98, 99 :: u8] i" for i
    by (cases "i = 0"; cases "i = 1") (auto simp: occurs_def)
  ultimately show ?thesis
    using collapse_panics_without_main [OF naive_matcher_finds_first, of abc_buffer "\<lparr>pieces = [Literal 101]\<rparr>" "[101]" 1 0]
      abc_buffer_ok(1)
    by (auto simp: buffer_ok_def as_basic_slice_def two_carets_def less_Suc_eq numeral_2_eq_2)
       (simp add: occurs_def)
qed

section \<open>Split by width\<close>

lemma split_width_pieces:
  assumes "0 < step" "region_max r + step < usize_modulus"
  shows "\<exists>rs. width_closure step () r = Inr (rs, ()) \<and> spans rs = span r \<and> sorted_wrt before rs \<and>
    (\<forall>q\<in>set rs. region_len q \<le> step \<and> (if backward r then backward q else forward q))"
proof -
  let ?ps = "positions_from (region_min r) (region_max r) step"
  let ?g = "\<lambda>p. with_direction (region_new p (min (region_max r) (p + step - 1))) (backward r)"
  have range: "region_min r \<le> p" "p \<le> region_max r" if "p \<in> set ?ps" for p
    using positions_from_range [OF assms(1), of "region_min r" "region_max r"] that by auto
  have "usize_sub (usize_add p step) 1 = p + step - 1" if "p \<in> set ?ps" for p
  proof -
    have "usize_add p step = p + step" using range(2) [OF that] assms(2) by (intro usize_add_small) linarith
    then show ?thesis using assms(1) by (simp add: usize_sub_small)
  qed
  then have eq: "width_closure step () r = Inr (map ?g ?ps, ())"
    using assms(1) by (simp add: width_closure_def)
  have ends: "region_min (?g p) = p" "region_max (?g p) = min (region_max r) (p + step - 1)" if "p \<in> set ?ps" for p
  proof -
    have "p \<le> min (region_max r) (p + step - 1)" using range(2) [OF that] assms(1) by simp
    then show "region_min (?g p) = p" "region_max (?g p) = min (region_max r) (p + step - 1)"
      by (simp_all add: with_direction_def region_new_def region_min_def region_max_def Let_def del: min.bounded_iff)
  qed
  have "spans (map ?g ?ps) = span r"
    using positions_from_cover [OF assms(1) region_min_le_max [of r]] ends by (simp add: spans_def span_def)
  moreover have "sorted_wrt before (map ?g ?ps)"
    unfolding sorted_wrt_map
    by (rule sorted_wrt_mono_rel [OF _ positions_from_steps [OF assms(1)]])
       (use ends assms(1) in \<open>auto simp: before_def\<close>)
  moreover have "\<forall>q\<in>set (map ?g ?ps). region_len q \<le> step"
    using ends assms(1) by (auto simp: region_len_def)
  moreover have "\<forall>q\<in>set (map ?g ?ps). if backward r then backward q else forward q"
    by (auto simp: with_direction_def region_new_def backward_def forward_def Let_def)
  ultimately show ?thesis using eq by blast
qed

text \<open>C28: Splitting a region by a width (times a count) loses nothing, as long as the end of the region plus the width
  stays below \<open>2 ^ 64\<close>: the pieces cover exactly the region, in order, none is longer than the width, and each
  points the way the region did.\<close>

theorem split_width_exact:
  assumes "0 < step" "region_max r + step < usize_modulus"
  shows "\<exists>rs. width_closure step () r = Inr (rs, ()) \<and> spans rs = span r \<and> sorted_wrt before rs \<and>
    (\<forall>q\<in>set rs. region_len q \<le> step \<and> (if backward r then backward q else forward q))"
  by (rule split_width_pieces [OF assms])

theorem split_width_exact_witness:
  "\<exists>rs. width_closure 2 () (region_new 6 0) = Inr (rs, ()) \<and> spans rs = span (region_new 6 0) \<and>
    sorted_wrt before rs \<and>
    (\<forall>q\<in>set rs. region_len q \<le> 2 \<and> (if backward (region_new 6 0) then backward q else forward q))"
  by (rule split_width_exact) (simp_all add: region_new_def region_defs usize_modulus_def)

text \<open>Beyond that bound the end of the piece wraps: splitting 5..10 by a width of \<open>2 ^ 64 - 3\<close> gives the region 1..5.\<close>

lemma split_width_wraps:
  "\<exists>q. width_closure (usize_modulus - 3) () (region_new 10 5) = Inr ([q], ()) \<and> region_min q = 1 \<and> region_max q = 5"
proof -
  have "positions_from 5 10 (usize_modulus - 3) = [5]" by (simp add: positions_from.simps usize_modulus_def)
  then show ?thesis
    by (simp add: width_closure_def with_direction_def region_defs usize_add_def usize_sub_def usize_modulus_def Let_def)
qed

section \<open>Ranges to repaint\<close>

text \<open>Every closure of the program returns its regions in order: the moves because they keep the order of regions
  (\<open>region_map.in_order\<close>), splits and searches because they return regions inside the given one.\<close>

lemma split_in_order:
  assumes "0 < step" "sorted_wrt before rs" "\<forall>r\<in>set rs. region_max r + step < usize_modulus"
  shows "sorted (map region_min (returned (width_closure step) () rs))"
proof -
  let ?f = "\<lambda>st r. if region_max r + step < usize_modulus then width_closure step st r else Inr ([], ())"
  have "sorted_wrt before new \<and> spans new \<subseteq> span r" if "?f st r = Inr (new, st')" for st r new st'
    using that split_width_pieces [OF assms(1), of r] by (auto split: if_splits)
  then have "sorted (map region_min (returned ?f () rs))" using returned_inside [of ?f rs] assms(2) by blast
  moreover have "returned ?f () rs = returned (width_closure step) () rs"
    using assms(3) by (induction rs) (auto split: sum.split prod.split)
  ultimately show ?thesis by simp
qed

text \<open>C17: \<open>CurrentBuffer::map_selections\<close> reports exactly what changed on screen. For every closure, one that moves
  each region or one that returns several or none: when the regions it returns come in order (none begins in front of an
  earlier one) and no region ends at the last offset of \<open>usize\<close>, the ranges are sorted and disjoint, and together
  they cover the bytes of the selection before and of the selection after, no more and no less.\<close>

theorem dirty_ranges_exact:
  assumes "xi_rope X" "buffer_map_selections X f st buf = Inr (ChangeInPlace rs, buf')"
    and "sorted (map region_min (returned f st (regions (buf_selection buf))))"
    and "\<forall>r\<in>set (regions (buf_selection buf) @ regions (buf_selection buf')). region_max r < usize_modulus - 1"
  shows "sorted_wrt (\<lambda>a b. iend a \<le> istart b) rs \<and>
    (\<Union>r\<in>set rs. {istart r..<iend r}) = spans (regions (buf_selection buf)) \<union> spans (regions (buf_selection buf'))"
proof -
  let ?rs = "regions (buf_selection buf)"
  obtain st' where m: "map_selections f st (buf_selection buf) = Inr (buf_selection buf', st')"
    and rs: "rs = disjoint_ranges X (touched X f st ?rs)"
    using assms(2) by (auto simp: buffer_map_selections_eq and_then_eq_Inr)
  note new = map_selections_spans [OF m assms(3)]
  have "region_max r < usize_modulus - 1" if r: "r \<in> set (returned f st ?rs)" for r
  proof -
    have "region_max r \<in> spans (regions (buf_selection buf'))" unfolding new by (rule ends_in_spans(2) [OF r])
    then obtain q where "q \<in> set (regions (buf_selection buf'))" "region_max r \<le> region_max q" by (auto simp: spans_def span_def)
    with assms(4) show ?thesis by (simp add: order_le_less_trans)
  qed
  with assms(4) have bound: "\<forall>r\<in>set (?rs @ returned f st ?rs). region_max r < usize_modulus - 1" by auto
  obtain p where "map_loop f (main_selection (buf_selection buf)) 0 ?rs st [] 0 = Inr p"
    using m by (auto simp: map_selections_def and_then_eq_Inr)
  from xi_rope.touched_covers [OF assms(1) this bound]
  have t: "covered (touched X f st ?rs) = spans ?rs \<union> spans (returned f st ?rs)"
    "\<forall>t\<in>set (touched X f st ?rs). istart t < iend t" by auto
  show ?thesis
    using xi_rope.disjoint_ranges_exact [OF assms(1) t(2)] t(1) unfolding rs new covered_def apart_def by simp
qed

theorem dirty_ranges_exact_witness:
  "\<exists>rs buf'. buffer_map_selections ref_xi (width_closure 1) () abc_buffer = Inr (ChangeInPlace rs, buf') \<and>
    length (regions (buf_selection buf')) = 3 \<and> sorted_wrt (\<lambda>a b. iend a \<le> istart b) rs \<and>
    (\<Union>r\<in>set rs. {istart r..<iend r}) = {1, 2, 4}"
proof -
  have regs [simp]: "regions (buf_selection abc_buffer) = regions two_carets"
    by (simp add: abc_buffer_def from_data_and_path_def)
  have "case map_selections (width_closure 1) () two_carets of
      Inr (s, _) \<Rightarrow> map region_min (regions s) = [1, 2, 4] \<and> map region_max (regions s) = [1, 2, 4] | Inl _ \<Rightarrow> False"
    by (simp add: two_carets_def map_selections_def width_closure_def positions_from.simps region_defs with_direction_def
        usize_add_def usize_sub_def usize_modulus_def push_region_def overlaps_def)
  then obtain s where s: "map_selections (width_closure 1) () two_carets = Inr (s, ())"
    "map region_min (regions s) = [1, 2, 4]" "map region_max (regions s) = [1, 2, 4]"
    by (auto split: sum.splits)
  obtain rs where eq: "buffer_map_selections ref_xi (width_closure 1) () abc_buffer =
      Inr (ChangeInPlace rs, abc_buffer\<lparr>buf_selection := s\<rparr>)"
    using s(1) by (simp add: buffer_map_selections_eq abc_buffer_def from_data_and_path_def)
  have order: "sorted (map region_min (returned (width_closure 1) () (regions (buf_selection abc_buffer))))"
    by (intro split_in_order) (auto simp: two_carets_def region_defs before_def usize_modulus_def)
  have new: "\<forall>r\<in>set (regions s). region_max r \<le> 4" "spans (regions s) = {1, 2, 4}" "length (regions s) = 3"
    using s(2,3) by (auto simp: map_eq_Cons_conv span_def)
  have "\<forall>r\<in>set (regions two_carets). region_max r \<le> 4" by (simp add: two_carets_def region_defs)
  with new(1) have "\<forall>r\<in>set (regions (buf_selection abc_buffer) @ regions (buf_selection (abc_buffer\<lparr>buf_selection := s\<rparr>))).
      region_max r < usize_modulus - 1"
    by (auto simp: usize_modulus_def dest!: bspec)
  from dirty_ranges_exact [OF ref.xi_rope_axioms eq order this] eq new two_carets_spans(1) show ?thesis by auto
qed

text \<open>Typing a count of zero in split mode and then a width (\<open>Alt-s 0 w\<close>) panics on every buffer: the
  step of \<open>step_by\<close> is zero.\<close>

theorem split_zero_count_panics:
  assumes "sel_ok (length (buf_data buf)) (buf_selection buf)" "count_state_transition (Count hex 0) evt = NotHandled"
    and "event_to_action split_default_maps evt = Some (Width w)"
  shows "split_transition X mt (Count hex 0) evt buf = Inl StepByZero"
proof -
  obtain r rs where "regions (buf_selection buf) = r # rs"
    using assms(1) by (cases "regions (buf_selection buf)") (auto simp: sel_ok_def dest: wf_selection_nonempty)
  then have "buffer_map_selections X (width_closure 0) () buf = Inl StepByZero"
    by (simp add: buffer_map_selections_eq map_selections_def width_closure_def)
  with assms show ?thesis by (simp add: split_transition_def to_count_def usize_mul_def)
qed

theorem split_zero_count_panics_witness:
  "split_transition ref_xi naive_matcher (Count False 0) (press (CHR ''w'')) abc_buffer = Inl StepByZero"
proof -
  have "sel_ok (length (buf_data abc_buffer)) (buf_selection abc_buffer)"
    using abc_buffer_ok(1) by (simp add: buffer_ok_def)
  moreover have "count_state_transition (Count False 0) (press (CHR ''w'')) = NotHandled"
    "event_to_action split_default_maps (press (CHR ''w'')) = Some (Width 2)"
    by code_simp+
  ultimately show ?thesis by (rule split_zero_count_panics)
qed

section \<open>The pattern editor\<close>

text \<open>C27: Editing a search pattern never panics: with the cursor inside the pattern (and on a piece while half a
  hexadecimal byte is typed), every event but Enter is handled, leaves the buffers alone and leads to
  normal mode or to a search mode whose cursor is inside its pattern again.\<close>

theorem search_keys_safe:
  assumes "search_ok (Search p c hex half next)" "event_to_action search_default_maps evt \<noteq> Some SearchFinish"
  shows "\<exists>t. search_transition X mt p c hex half next evt bc = Inr (t, bc) \<and>
    (case t of Some (NewMode m) \<Rightarrow> search_ok m | Some t' \<Rightarrow> t' = TNone | None \<Rightarrow> True)"
proof (cases "event_to_action search_default_maps evt")
  case None
  from search_char_ok [OF assms(1) None] obtain t where
    "search_transition X mt p c hex half next evt bc = Inr (t, bc)"
    "case t of Some (NewMode m) \<Rightarrow> search_ok m | _ \<Rightarrow> t = None" by blast
  then show ?thesis by (auto split: option.splits mode_transition.splits)
next
  case (Some act)
  with assms(2) have "act \<noteq> SearchFinish" by simp
  from search_action_ok [OF assms(1) this] obtain t where
    "search_action_transition X mt p c hex half next act bc = Inr (Some t, bc)"
    "case t of NewMode m \<Rightarrow> search_ok m | _ \<Rightarrow> t = TNone" by blast
  with Some show ?thesis
    by (intro exI [of _ "Some t"]) (auto simp: search_transition_def split: mode_transition.splits)
qed

theorem search_keys_safe_witness:
  "\<exists>t. search_transition ref_xi naive_matcher \<lparr>pieces = [Literal 16]\<rparr> 0 True (Some 16) AcceptCollapse
      (press (CHR ''f'')) collection_new = Inr (t, collection_new) \<and>
    (case t of Some (NewMode m) \<Rightarrow> search_ok m | Some t' \<Rightarrow> t' = TNone | None \<Rightarrow> True)"
proof (rule search_keys_safe)
  show "event_to_action search_default_maps (press (CHR ''f'')) \<noteq> Some SearchFinish" by code_simp
qed (simp add: search_ok_def)

end
