(* ===== verification/View.thy ===== *)
theory View
  imports Editor
begin

text \<open>
  The state of the view (\<open>HexView\<close> of src/hex_view/view.rs), which bytes are on the screen, and the
  window of the file kept in memory: loading more at the ends and trimming. The screen size is a pair
  of \<open>u16\<close>; \<open>terminal::size()\<close> is the argument \<open>ts\<close> (\<open>None\<close> for an error). The file system is read,
  not written, here. \<open>last_draw_time\<close> and \<open>colorizer\<close> hold nothing the code looks at.
\<close>

section \<open>State\<close>

record 'd hex_view =
  hv_buffers :: "'d buffr_collection"
  hv_size :: "nat \<times> nat"
  hv_bytes_per_line :: nat
  hv_start_offset :: nat
  hv_last_visible_rows :: nat
  hv_last_visible_prompt_col :: nat
  hv_mode :: mode
  hv_info :: "rstring option"

definition u16_sub :: "nat \<Rightarrow> nat \<Rightarrow> nat" where
  "u16_sub a b = (if b \<le> a then a - b else 65536 - (b - a))"

definition as_u16 :: "nat \<Rightarrow> nat" where
  "as_u16 n = n mod 65536"

type_synonym term_size = "(nat \<times> nat) option"

definition with_buffr_collection :: "term_size \<Rightarrow> 'd buffr_collection \<Rightarrow> 'd hex_view outcome" where
  "with_buffr_collection ts bc =
     (case ts of
        None \<Rightarrow> Inl UnwrapErr
      | Some sz \<Rightarrow> Inr \<lparr>hv_buffers = bc, hv_size = sz, hv_bytes_per_line = 16, hv_start_offset = 0,
          hv_last_visible_rows = 0, hv_last_visible_prompt_col = 0, hv_mode = normal_new, hv_info = None\<rparr>)"

definition set_bytes_per_line :: "nat \<Rightarrow> 'd hex_view \<Rightarrow> 'd hex_view" where
  "set_bytes_per_line bpl hv = hv\<lparr>hv_bytes_per_line := bpl\<rparr>"

abbreviation hv_height :: "'d hex_view \<Rightarrow> nat" where
  "hv_height hv \<equiv> snd (hv_size hv)"

definition hv_current :: "'d hex_view \<Rightarrow> 'd buffer outcome" where
  "hv_current hv = current (hv_buffers hv)"

definition hv_set_current :: "'d buffer \<Rightarrow> 'd hex_view \<Rightarrow> 'd hex_view" where
  "hv_set_current buf hv = hv\<lparr>hv_buffers := set_current buf (hv_buffers hv)\<rparr>"

text \<open>The chunk size is computed from the height of the terminal, 23 rows when it is unknown.\<close>

definition chunk_size_for :: "term_size \<Rightarrow> nat" where
  "chunk_size_for ts = usize_mul (usize_sub (case ts of Some sz \<Rightarrow> snd sz | None \<Rightarrow> 23) 1) 16"

section \<open>What is visible\<close>

definition visible_range :: "'d hex_view \<Rightarrow> nat \<Rightarrow> nat \<times> nat" where
  "visible_range hv len =
     (hv_start_offset hv,
      min (len + 1) (usize_add (hv_start_offset hv) (usize_mul (u16_sub (hv_height hv) 1) (hv_bytes_per_line hv))))"

definition visible_bytes :: "'d hex_view \<Rightarrow> (nat \<times> nat) outcome" where
  "visible_bytes hv = and_then (hv_current hv) (\<lambda>buf. Inr (visible_range hv (length (buf_data buf))))"

definition is_valid_offset :: "nat \<Rightarrow> 'd hex_view \<Rightarrow> bool outcome" where
  "is_valid_offset offset hv = and_then (hv_current hv) (\<lambda>buf. Inr (offset < length (buf_data buf)))"

text \<open>\<open>None\<close> is the \<open>Err\<close> of an offset that is not on the screen.\<close>

definition offset_to_row :: "nat \<Rightarrow> 'd hex_view \<Rightarrow> nat option outcome" where
  "offset_to_row offset hv =
     (if offset < hv_start_offset hv then Inr None
      else if hv_bytes_per_line hv = 0 then Inl DivisionByZero
      else let row = (offset - hv_start_offset hv) div hv_bytes_per_line hv
           in Inr (if row \<ge> hv_height hv then None else Some (as_u16 row)))"

section \<open>The window of the file\<close>

definition should_trim_buffer :: "term_size \<Rightarrow> 'd hex_view \<Rightarrow> bool outcome" where
  "should_trim_buffer ts hv =
     and_then (hv_current hv) (\<lambda>buf. Inr (length (buf_data buf) > usize_mul (chunk_size_for ts) 3))"

definition is_near_bottom :: "'d hex_view \<Rightarrow> bool outcome" where
  "is_near_bottom hv =
     and_then (hv_current hv) (\<lambda>buf.
       let visible_rows = usize_sub (hv_height hv) 2;
           total = length (buf_data buf);
           view_end = usize_add (hv_start_offset hv) (usize_mul visible_rows (hv_bytes_per_line hv))
       in Inr (usize_sub total view_end < total div 10))"

definition is_near_top :: "'d hex_view \<Rightarrow> bool outcome" where
  "is_near_top hv = and_then (hv_current hv) (\<lambda>buf. Inr (hv_start_offset hv < length (buf_data buf) div 10))"

definition io_failed :: "io_error \<Rightarrow> 'a outcome" where
  "io_failed e = (case e of IoError msg \<Rightarrow> Inl (Failed msg))"

definition add_chunk_to_bottom ::
    "('d, 's, 'b) xi \<Rightarrow> 'w io \<Rightarrow> 'w \<Rightarrow> nat \<Rightarrow> 'd hex_view \<Rightarrow> 'd hex_view outcome" where
  "add_chunk_to_bottom X io w chunk_size hv =
     and_then (hv_current hv) (\<lambda>buf.
       case buf_path buf of
         None \<Rightarrow> Inr hv
       | Some p \<Rightarrow>
           (let len = length (buf_data buf)
            in case io_read_at io w p len chunk_size of
                 Inl e \<Rightarrow> io_failed e
               | Inr chunk \<Rightarrow>
                   if length chunk > 0 then
                     (let d = delta_simple_edit X (interval_new len len) chunk len
                      in Inr (hv_set_current (buf\<lparr>buf_data := delta_apply X d (buf_data buf)\<rparr>) hv))
                   else Inr hv))"

definition add_chunk_to_top ::
    "('d, 's, 'b) xi \<Rightarrow> 'w io \<Rightarrow> 'w \<Rightarrow> nat \<Rightarrow> 'd hex_view \<Rightarrow> 'd hex_view outcome" where
  "add_chunk_to_top X io w chunk_size hv =
     and_then (hv_current hv) (\<lambda>buf.
       case buf_path buf of
         None \<Rightarrow> Inr hv
       | Some p \<Rightarrow>
           (let start_pos = hv_start_offset hv - chunk_size
            in case io_read_at io w p start_pos chunk_size of
                 Inl e \<Rightarrow> io_failed e
               | Inr chunk \<Rightarrow>
                   if length chunk > 0 then
                     (let d = delta_simple_edit X (interval_new 0 0) chunk (length (buf_data buf))
                      in Inr ((hv_set_current (buf\<lparr>buf_data := delta_apply X d (buf_data buf)\<rparr>) hv)
                               \<lparr>hv_start_offset := start_pos\<rparr>))
                   else Inr hv))"

definition trim_buffer_bottom :: "nat \<Rightarrow> 'd hex_view \<Rightarrow> 'd hex_view outcome" where
  "trim_buffer_bottom chunk_size hv =
     and_then (hv_current hv) (\<lambda>buf.
       let total_len = length (buf_data buf)
       in if chunk_size = 0 \<or> total_len \<le> usize_mul chunk_size 2 then Inr hv
          else let keep_len = usize_sub total_len chunk_size
               in if keep_len > 0 then
                    and_then (slice_to_cow (buf_data buf) 0 keep_len) (\<lambda>chunks.
                      Inr ((hv_set_current (buf\<lparr>buf_data := chunks\<rparr>) hv)
                            \<lparr>hv_start_offset := usize_add (hv_start_offset hv) chunk_size\<rparr>))
                  else Inr hv)"

definition trim_buffer_top :: "nat \<Rightarrow> 'd hex_view \<Rightarrow> 'd hex_view outcome" where
  "trim_buffer_top chunk_size hv =
     and_then (hv_current hv) (\<lambda>buf.
       let total_len = length (buf_data buf)
       in if chunk_size = 0 \<or> total_len \<le> usize_mul chunk_size 2 then Inr hv
          else if chunk_size < total_len then
            and_then (slice_to_cow (buf_data buf) chunk_size total_len) (\<lambda>chunks.
              Inr ((hv_set_current (buf\<lparr>buf_data := chunks\<rparr>) hv)
                    \<lparr>hv_start_offset := hv_start_offset hv - chunk_size\<rparr>))
          else Inr hv)"

definition manage_buffer :: "('d, 's, 'b) xi \<Rightarrow> 'w io \<Rightarrow> 'w \<Rightarrow> 'd hex_view \<Rightarrow> 'd hex_view outcome" where
  "manage_buffer X io w hv =
     and_then (is_near_bottom hv) (\<lambda>bottom.
     and_then (if bottom then and_then (add_chunk_to_bottom X io w 368 hv) (trim_buffer_top 368) else Inr hv) (\<lambda>hv1.
     and_then (is_near_top hv1) (\<lambda>near_top.
       if near_top then and_then (add_chunk_to_top X io w 368 hv1) (trim_buffer_bottom 368) else Inr hv1)))"

text \<open>Loading 64 bytes when the screen reaches beyond the data; \<open>Ok(true)\<close> and \<open>Ok(false)\<close> alike continue.\<close>

definition ensure_visible_data ::
    "('d, 's, 'b) xi \<Rightarrow> 'w io \<Rightarrow> 'w \<Rightarrow> 'd hex_view \<Rightarrow> 'd hex_view outcome" where
  "ensure_visible_data X io w hv =
     and_then (hv_current hv) (\<lambda>buf.
       if snd (visible_range hv (length (buf_data buf))) > length (buf_data buf) then
         (case load_next_chunk X io w 64 buf of
            (Inr _, buf') \<Rightarrow> Inr (hv_set_current buf' hv)
          | (Inl e, buf') \<Rightarrow> io_failed e)
       else Inr hv)"

end
