(* ===== verification/Styling.thy ===== *)
theory Styling
  imports Keymap
begin

text \<open>
  Output to the terminal (src/hex_view/mod.rs). What the code queues for the terminal is a list of
  commands, so a drawing function is a function into command lists; a write to standard output is
  taken to succeed. Of crossterm's styles the code uses colors and (empty) attributes.
\<close>

unbundle bit_operations_syntax

section \<open>Commands and styles\<close>

datatype color =
    Reset | Black | DarkGrey | Red | DarkRed | Green | Yellow | DarkYellow | Blue | DarkMagenta | Cyan | White
  | Rgb nat nat nat | AnsiValue nat

record content_style =
  foreground_color :: "color option"
  background_color :: "color option"
  attributes :: nat

datatype term_cmd =
    MoveTo nat nat
  | ClearAll | ClearCurrentLine | ClearUntilNewLine
  | ScrollUp nat | ScrollDown nat
  | SetForegroundColor color | SetBackgroundColor color | SetAttributes nat
  | Print rstring
  | PrintStyled content_style rstring

definition content_style_new :: content_style where
  "content_style_new = \<lparr>foreground_color = None, background_color = None, attributes = 0\<rparr>"

definition with_color :: "color \<Rightarrow> content_style \<Rightarrow> content_style" where
  "with_color c s = s\<lparr>foreground_color := Some c\<rparr>"

definition on_color :: "color \<Rightarrow> content_style \<Rightarrow> content_style" where
  "on_color c s = s\<lparr>background_color := Some c\<rparr>"

datatype priority = Basic | Mark | PSelection | PCursor

record prioritized_style =
  pstyle :: content_style
  prio :: priority

record styling_command =
  sc_start :: "prioritized_style option"
  sc_mid :: "prioritized_style option"
  sc_end :: "prioritized_style option"

definition styling_default :: styling_command where
  "styling_default = \<lparr>sc_start = None, sc_mid = None, sc_end = None\<rparr>"

definition start_style :: "styling_command \<Rightarrow> content_style option" where
  "start_style c = map_option pstyle (sc_start c)"

definition mid_style :: "styling_command \<Rightarrow> content_style option" where
  "mid_style c = map_option pstyle (sc_mid c)"

definition end_style :: "styling_command \<Rightarrow> content_style option" where
  "end_style c = map_option pstyle (sc_end c)"

definition with_start_style :: "prioritized_style \<Rightarrow> styling_command \<Rightarrow> styling_command" where
  "with_start_style s c = c\<lparr>sc_start := Some s\<rparr>"

definition with_mid_to_end :: "styling_command \<Rightarrow> styling_command" where
  "with_mid_to_end c = \<lparr>sc_start = sc_start c, sc_mid = None, sc_end = sc_mid c\<rparr>"

definition take_end_only :: "styling_command \<Rightarrow> styling_command" where
  "take_end_only c = \<lparr>sc_start = None, sc_mid = None, sc_end = sc_end c\<rparr>"

definition with_mid_style :: "prioritized_style \<Rightarrow> styling_command \<Rightarrow> styling_command" where
  "with_mid_style s c = c\<lparr>sc_mid := Some s\<rparr>"

definition with_end_style :: "prioritized_style \<Rightarrow> styling_command \<Rightarrow> styling_command" where
  "with_end_style s c = c\<lparr>sc_end := Some s\<rparr>"

lemmas styling_defs = start_style_def mid_style_def end_style_def with_start_style_def with_mid_style_def
  with_end_style_def with_mid_to_end_def take_end_only_def styling_default_def

definition queue_style :: "content_style \<Rightarrow> term_cmd list" where
  "queue_style s =
     (case foreground_color s of Some fg \<Rightarrow> [SetForegroundColor fg] | None \<Rightarrow> []) @
     (case background_color s of Some bg \<Rightarrow> [SetBackgroundColor bg] | None \<Rightarrow> []) @
     (if attributes s \<noteq> 0 then [SetAttributes (attributes s)] else [])"

definition queue_style_option :: "content_style option \<Rightarrow> term_cmd list" where
  "queue_style_option s = (case s of Some st \<Rightarrow> queue_style st | None \<Rightarrow> [])"

section \<open>Bytes\<close>

definition is_ascii_graphic :: "u8 \<Rightarrow> bool" where
  "is_ascii_graphic b \<longleftrightarrow> 0x21 \<le> b \<and> b \<le> 0x7E"

definition is_ascii_whitespace :: "u8 \<Rightarrow> bool" where
  "is_ascii_whitespace b \<longleftrightarrow> b \<in> {0x20, 0x09, 0x0A, 0x0C, 0x0D}"

definition is_ascii :: "u8 \<Rightarrow> bool" where
  "is_ascii b \<longleftrightarrow> b \<le> 0x7F"

definition get_byte_color :: "u8 \<Rightarrow> color" where
  "get_byte_color b =
     (if b = 0 then AnsiValue 150
      else if is_ascii_graphic b then Cyan
      else if is_ascii_whitespace b then Green
      else if is_ascii b then Rgb 232 52 210
      else Yellow)"

definition colorize_byte :: "u8 \<Rightarrow> styling_command \<Rightarrow> styling_command" where
  "colorize_byte b style_cmd =
     (let st = (case start_style style_cmd of Some s \<Rightarrow> s | None \<Rightarrow> content_style_new)
      in with_start_style
           \<lparr>pstyle = \<lparr>foreground_color = Some (get_byte_color b), background_color = background_color st,
              attributes = attributes st\<rparr>, prio = Basic\<rparr> style_cmd)"

text \<open>\<open>make_padding\<close> takes a prefix of a string of 64 blanks; its \<open>debug_assert\<close> is not in a release build.\<close>

definition make_padding :: "nat \<Rightarrow> rstring outcome" where
  "make_padding len = (if len \<le> 64 then Inr (replicate len (ch (CHR '' ''))) else Inl IndexOutOfBounds)"

definition byte_ascii_repr :: "u8 \<Rightarrow> rstring" where
  "byte_ascii_repr b = (if is_ascii_graphic b \<or> b = 0x20 then [unat b] else str ''.'')"

section \<open>The colorizer\<close>

definition draw_hex_byte :: "u8 \<Rightarrow> styling_command \<Rightarrow> term_cmd list" where
  "draw_hex_byte b style =
     (let style_cmd = colorize_byte b style
      in queue_style_option (start_style style_cmd) @
         [Print [digit_char (unat (drop_bit 4 b))]] @
         queue_style_option (mid_style style_cmd) @
         [Print [digit_char (unat (b AND 0xF))]] @
         queue_style_option (end_style style_cmd) @
         [Print (str '' '')])"

definition draw_ascii_byte :: "u8 \<Rightarrow> styling_command \<Rightarrow> term_cmd list" where
  "draw_ascii_byte b style =
     (let style_cmd = colorize_byte b style
      in queue_style_option (start_style style_cmd) @
         [Print (byte_ascii_repr b)] @
         queue_style_option (end_style style_cmd))"

definition draw_text :: "rstring \<Rightarrow> styling_command \<Rightarrow> term_cmd list" where
  "draw_text c style =
     queue_style_option (start_style style) @ [Print c] @ queue_style_option (end_style style)"

section \<open>What is printed\<close>

text \<open>The text a list of commands prints, whatever its style.\<close>

fun printed :: "term_cmd list \<Rightarrow> rstring" where
  "printed [] = []"
| "printed (Print s # cs) = s @ printed cs"
| "printed (PrintStyled st s # cs) = s @ printed cs"
| "printed (c # cs) = printed cs"

lemma printed_append [simp]: "printed (cs @ ds) = printed cs @ printed ds"
  by (induction cs rule: printed.induct) simp_all

lemma printed_style [simp]: "printed (queue_style s) = []" "printed (queue_style_option st) = []"
proof -
  show "printed (queue_style s) = []" for s by (simp add: queue_style_def split: option.splits)
  then show "printed (queue_style_option st) = []" by (simp add: queue_style_option_def split: option.splits)
qed

lemma printed_bytes [simp]:
  "printed (draw_hex_byte b s) = [digit_char (unat b div 16), digit_char (unat b mod 16), ch (CHR '' '')]"
  "printed (draw_ascii_byte b s) = byte_ascii_repr b"
  "printed (draw_text c s) = c"
proof -
  have "unat (drop_bit 4 b) = unat b div 16" by (simp add: unat_drop_bit_eq) (simp add: drop_bit_eq_div)
  moreover have "unat (b AND 0xF) = unat b mod 16"
  proof -
    have "b AND 0xF = take_bit 4 b" by (simp add: take_bit_eq_mask mask_eq_exp_minus_1)
    then show ?thesis by (simp add: unsigned_take_bit_eq) (simp add: take_bit_eq_mod)
  qed
  ultimately show "printed (draw_hex_byte b s) =
      [digit_char (unat b div 16), digit_char (unat b mod 16), ch (CHR '' '')]"
    by (simp add: draw_hex_byte_def Let_def str_def)
  show "printed (draw_ascii_byte b s) = byte_ascii_repr b" by (simp add: draw_ascii_byte_def Let_def)
  show "printed (draw_text c s) = c" by (simp add: draw_text_def)
qed

end
