(* ===== verification/Byte_Properties.thy ===== *)
theory Byte_Properties
  imports Styling Mode
begin

text \<open>
  The panel beside the rows (src/hex_view/byte_properties.rs): up to four bytes at the cursor as
  numbers and as a character. \<open>String::from_utf8\<close> and \<open>String::from_utf16\<close> follow the standards
  (no overlong forms, no surrogates, nothing above 0x10FFFF). How \<open>Debug\<close> shows a character depends
  on the Unicode tables of the standard library and is a parameter.
\<close>

section \<open>Decoding text\<close>

definition is_scalar :: "rchar \<Rightarrow> bool" where
  "is_scalar c \<longleftrightarrow> c < 0xD800 \<or> 0xE000 \<le> c \<and> c \<le> 0x10FFFF"

definition continuation :: "u8 \<Rightarrow> bool" where
  "continuation b \<longleftrightarrow> unat b div 64 = 2"

definition low6 :: "u8 \<Rightarrow> nat" where
  "low6 b = unat b mod 64"

fun utf8_first :: "bytes \<Rightarrow> (rchar \<times> bytes) option" where
  "utf8_first [] = None"
| "utf8_first (a # bs) =
     (if unat a < 0x80 then Some (unat a, bs)
      else if unat a div 32 = 6 then
        (case bs of
           b # bs' \<Rightarrow>
             (let c = unat a mod 32 * 64 + low6 b
              in if continuation b \<and> 0x80 \<le> c then Some (c, bs') else None)
         | _ \<Rightarrow> None)
      else if unat a div 16 = 14 then
        (case bs of
           b # b' # bs' \<Rightarrow>
             (let c = unat a mod 16 * 4096 + low6 b * 64 + low6 b'
              in if continuation b \<and> continuation b' \<and> 0x800 \<le> c \<and> is_scalar c then Some (c, bs') else None)
         | _ \<Rightarrow> None)
      else if unat a div 8 = 30 then
        (case bs of
           b # b' # b'' # bs' \<Rightarrow>
             (let c = unat a mod 8 * 262144 + low6 b * 4096 + low6 b' * 64 + low6 b''
              in if continuation b \<and> continuation b' \<and> continuation b'' \<and> 0x10000 \<le> c \<and> is_scalar c
                 then Some (c, bs') else None)
         | _ \<Rightarrow> None)
      else None)"

lemma utf8_first_shorter: "utf8_first bs = Some (c, bs') \<Longrightarrow> length bs' < length bs"
  by (cases bs) (auto simp: Let_def split: if_splits list.splits)

function from_utf8 :: "bytes \<Rightarrow> rchar list option" where
  "from_utf8 bs =
     (if bs = [] then Some []
      else case utf8_first bs of
        None \<Rightarrow> None
      | Some (c, bs') \<Rightarrow> map_option (Cons c) (from_utf8 bs'))"
  by pat_completeness auto
termination
  by (relation "measure length") (auto dest: utf8_first_shorter)

declare from_utf8.simps [simp del]

fun from_utf16 :: "nat list \<Rightarrow> rchar list option" where
  "from_utf16 [] = Some []"
| "from_utf16 (u # us) =
     (if u < 0xD800 \<or> 0xE000 \<le> u then map_option (Cons u) (from_utf16 us)
      else if u < 0xDC00 then
        (case us of
           v # vs \<Rightarrow>
             (if 0xDC00 \<le> v \<and> v < 0xE000
              then map_option (Cons (0x10000 + (u - 0xD800) * 1024 + (v - 0xDC00))) (from_utf16 vs)
              else None)
         | [] \<Rightarrow> None)
      else None)"

definition u16_be :: "u8 \<Rightarrow> u8 \<Rightarrow> nat" where
  "u16_be a b = unat a * 256 + unat b"

definition replacement_char :: rchar where
  "replacement_char = 0xFFFD"

fun utf8_from_lengths :: "nat list \<Rightarrow> bytes \<Rightarrow> (rchar + rchar) outcome" where
  "utf8_from_lengths [] data = Inr (Inl replacement_char)"
| "utf8_from_lengths (i # is) data =
     (case from_utf8 (take i data) of
        Some (c # _) \<Rightarrow> Inr (Inr c)
      | Some [] \<Rightarrow> Inl UnwrapNone
      | None \<Rightarrow> utf8_from_lengths is data)"

definition utf8_into_char :: "bytes \<Rightarrow> (rchar + rchar) outcome" where
  "utf8_into_char data =
     (let max_char_len = (if length data < 4 then length data else 4)
      in utf8_from_lengths [1..<Suc max_char_len] data)"

definition bytes_to_4_byte_vec :: "bytes \<Rightarrow> bytes" where
  "bytes_to_4_byte_vec data =
     (if length data \<ge> 4 then take 4 data else replicate (4 - length data) 0 @ data)"

definition utf16_into_char :: "bytes \<Rightarrow> (rchar + rchar) outcome" where
  "utf16_into_char data =
     (let one = (if length data \<ge> 2 then from_utf16 [u16_be (data ! 0) (data ! 1)] else None);
          two = (if length data \<ge> 4
                 then from_utf16 [u16_be (data ! 0) (data ! 1), u16_be (data ! 2) (data ! 3)] else None);
          first = (\<lambda>cs. case cs of c # _ \<Rightarrow> Inr (Inr c) | [] \<Rightarrow> Inl UnwrapNone)
      in case one of
           Some s \<Rightarrow> first s
         | None \<Rightarrow> (case two of Some s \<Rightarrow> first s | None \<Rightarrow> Inr (Inl replacement_char)))"

section \<open>The panel\<close>

definition fg_style :: "color \<Rightarrow> styling_command" where
  "fg_style c = with_start_style
     \<lparr>pstyle = \<lparr>foreground_color = Some c, background_color = Some Reset, attributes = 0\<rparr>, prio = Basic\<rparr> styling_default"

definition BIN_ZERO_STYLE :: styling_command where "BIN_ZERO_STYLE = fg_style (AnsiValue 150)"

definition BIN_ONE_STYLE :: styling_command where "BIN_ONE_STYLE = fg_style Blue"

definition INVALID_DATA_STYLE :: styling_command where "INVALID_DATA_STYLE = fg_style Red"

definition DEFAULT_STYLE :: styling_command where "DEFAULT_STYLE = fg_style DarkMagenta"

definition DEFAULT_VALUE_STYLE :: styling_command where "DEFAULT_VALUE_STYLE = fg_style (AnsiValue 150)"

definition format_binary_byte :: "u8 \<Rightarrow> term_cmd list" where
  "format_binary_byte b =
     concat (map (\<lambda>i. if bit b i then draw_text (str ''1'') BIN_ONE_STYLE else draw_text (str ''0'') BIN_ZERO_STYLE)
       (rev [0..<8]))"

definition format_char :: "(rchar \<Rightarrow> rstring) \<Rightarrow> rchar \<Rightarrow> rstring" where
  "format_char char_debug c = (if 0x21 \<le> c \<and> c \<le> 0x7E then [c] else char_debug c)"

definition utf8_len :: "rstring \<Rightarrow> nat" where
  "utf8_len s = sum_list (map len_utf8 s)"

definition print_int :: "int \<Rightarrow> rstring" where
  "print_int i = (if i < 0 then ch (CHR ''-'') # print_in 10 (nat (- i)) else print_in 10 (nat i))"

definition as_i8 :: "u8 \<Rightarrow> int" where
  "as_i8 b = (if unat b < 128 then int (unat b) else int (unat b) - 256)"

definition u32_from_be :: "bytes \<Rightarrow> nat" where
  "u32_from_be bs = foldl (\<lambda>n b. n * 256 + unat b) 0 bs"

definition i32_from_be :: "bytes \<Rightarrow> int" where
  "i32_from_be bs = (let n = u32_from_be bs in if n < 2147483648 then int n else int n - 4294967296)"

record byte_properties =
  bp_data :: bytes
  bp_line :: nat

definition bp_new :: "bytes \<Rightarrow> byte_properties outcome" where
  "bp_new data = (if length data \<le> 4 then Inr \<lparr>bp_data = data, bp_line = 0\<rparr> else Inl AssertionFailed)"

definition bp_height :: nat where
  "bp_height = 5"

definition are_all_printed :: "byte_properties \<Rightarrow> bool" where
  "are_all_printed bp \<longleftrightarrow> bp_line bp > bp_height - 1"

definition char_result :: "(rchar \<Rightarrow> rstring) \<Rightarrow> rchar + rchar \<Rightarrow> term_cmd list \<times> nat" where
  "char_result char_debug r =
     (case r of
        Inr c \<Rightarrow> (draw_text (format_char char_debug c) DEFAULT_VALUE_STYLE, utf8_len (format_char char_debug c))
      | Inl c \<Rightarrow> (draw_text [c] INVALID_DATA_STYLE, 1))"

definition line_commands :: "(rchar \<Rightarrow> rstring) \<Rightarrow> bytes \<Rightarrow> nat \<Rightarrow> term_cmd list outcome" where
  "line_commands char_debug data line =
     (let first_byte = (if data \<noteq> [] then data ! 0 else 0);
          hex = (\<lambda>b. draw_hex_byte b (colorize_byte b DEFAULT_VALUE_STYLE));
          number = (\<lambda>caption byte_literal caption' word_literal.
             and_then (make_padding (usize_sub 12 (length byte_literal))) (\<lambda>pad.
               Inr (draw_text (str caption) DEFAULT_STYLE @ draw_text byte_literal DEFAULT_VALUE_STYLE @
                    draw_text pad DEFAULT_STYLE @ draw_text (str caption') DEFAULT_STYLE @
                    draw_text word_literal DEFAULT_VALUE_STYLE)))
      in if line = 0 then
           Inr (draw_text (str ''hex u8: '') DEFAULT_STYLE @ hex first_byte @
                draw_text (str ''          hex u32: '') DEFAULT_STYLE @ concat (map hex data))
         else if line = 1 then
           Inr (draw_text (str ''bin u8: '') DEFAULT_STYLE @ format_binary_byte first_byte @
                draw_text (str ''     bin u32: '') DEFAULT_STYLE @
                concat (map (\<lambda>b. format_binary_byte b @ draw_text (str '' '') DEFAULT_STYLE) data))
         else if line = 2 then
           number ''dec u8: '' (print_in 10 (unat first_byte)) '' dec u32: ''
             (print_in 10 (u32_from_be (bytes_to_4_byte_vec data)))
         else if line = 3 then
           number ''dec i8: '' (print_int (as_i8 first_byte)) '' dec i32: ''
             (print_int (i32_from_be (bytes_to_4_byte_vec data)))
         else if line = 4 then
           and_then (utf8_into_char data) (\<lambda>r.
             let (cmds, len) = char_result char_debug r
             in and_then (make_padding (usize_sub 12 len)) (\<lambda>pad.
                and_then (utf16_into_char data) (\<lambda>r'.
                  Inr (draw_text (str '' utf-8: '') DEFAULT_STYLE @ cmds @ draw_text pad DEFAULT_STYLE @
                       draw_text (str ''  utf-16: '') DEFAULT_STYLE @ fst (char_result char_debug r')))))
         else Inr [])"

definition draw_line ::
    "(rchar \<Rightarrow> rstring) \<Rightarrow> byte_properties \<Rightarrow> (term_cmd list \<times> byte_properties) outcome" where
  "draw_line char_debug bp =
     and_then (line_commands char_debug (bp_data bp) (bp_line bp)) (\<lambda>cmds.
       Inr (cmds, bp\<lparr>bp_line := bp_line bp + 1\<rparr>))"

section \<open>Decoding what was encoded\<close>

lemma unat_u8: "unat (of_nat n :: u8) = n" if "n < 256"
  using that by (simp add: unat_of_nat)

lemma continuation_byte:
  assumes "m < 64"
  obtains b where "b = of_nat (0x80 + m)" "unat b = 0x80 + m" "continuation b" "low6 b = m"
proof -
  have "unat (of_nat (0x80 + m) :: u8) = 0x80 + m" by (rule unat_u8) (use assms in simp)
  moreover have "(0x80 + m) div 64 = 2" "(0x80 + m) mod 64 = m" using assms by (auto intro: div_nat_eqI mod_nat_eqI)
  ultimately show thesis using that [of "of_nat (0x80 + m)"] by (simp only: continuation_def low6_def)
qed

text \<open>The shape of an encoded character: a lead byte that tells the length, and continuation bytes.\<close>

lemma encode_shape:
  assumes "0x80 \<le> c" "c \<le> 0x10FFFF"
  obtains (two) a b where "c < 0x800" "encode_utf8 c = [a, b]" "unat a = 0xC0 + c div 64" "c div 64 < 32"
      "continuation b" "low6 b = c mod 64"
    | (three) a b b' where "0x800 \<le> c" "c < 0x10000" "encode_utf8 c = [a, b, b']" "unat a = 0xE0 + c div 4096"
      "c div 4096 < 16" "continuation b" "low6 b = c div 64 mod 64" "continuation b'" "low6 b' = c mod 64"
    | (four) a b b' b'' where "0x10000 \<le> c" "encode_utf8 c = [a, b, b', b'']" "unat a = 0xF0 + c div 262144"
      "c div 262144 < 8" "continuation b" "low6 b = c div 4096 mod 64" "continuation b'" "low6 b' = c div 64 mod 64"
      "continuation b''" "low6 b'' = c mod 64"
proof -
  obtain x where x: "x = of_nat (0x80 + c mod 64)" "continuation x" "low6 x = c mod 64"
    by (rule continuation_byte [of "c mod 64"]) auto
  obtain y where y: "y = of_nat (0x80 + c div 64 mod 64)" "continuation y" "low6 y = c div 64 mod 64"
    by (rule continuation_byte [of "c div 64 mod 64"]) auto
  obtain z where z: "z = of_nat (0x80 + c div 4096 mod 64)" "continuation z" "low6 z = c div 4096 mod 64"
    by (rule continuation_byte [of "c div 4096 mod 64"]) auto
  consider "c < 0x800" | "0x800 \<le> c" "c < 0x10000" | "0x10000 \<le> c" by linarith
  then show thesis
  proof cases
    case 1
    then have k: "c div 64 < 32" by (simp add: less_mult_imp_div_less)
    have "unat (of_nat (0xC0 + c div 64) :: u8) = 0xC0 + c div 64" by (rule unat_u8) (use k in simp)
    with 1 assms(1) k x show thesis by (intro two) (simp_all only: encode_utf8_def, simp_all)
  next
    case 2
    then have k: "c div 4096 < 16" by (simp add: less_mult_imp_div_less)
    have "unat (of_nat (0xE0 + c div 4096) :: u8) = 0xE0 + c div 4096" by (rule unat_u8) (use k in simp)
    with 2 k x y show thesis by (intro three) (simp_all only: encode_utf8_def, simp_all)
  next
    case 3
    then have k: "c div 262144 < 8" using assms(2) by (simp add: less_mult_imp_div_less)
    have "unat (of_nat (0xF0 + c div 262144) :: u8) = 0xF0 + c div 262144" by (rule unat_u8) (use k in simp)
    with 3 k x y z show thesis by (intro four) (simp_all only: encode_utf8_def, simp_all)
  qed
qed

lemma base64:
  "c div 64 * 64 + c mod 64 = c" "c div 4096 * 64 + c div 64 mod 64 = c div 64"
  "c div 262144 * 64 + c div 4096 mod 64 = c div 4096" for c :: nat
proof -
  show "c div 64 * 64 + c mod 64 = c" by (rule div_mult_mod_eq)
  show "c div 4096 * 64 + c div 64 mod 64 = c div 64"
    using div_mult_mod_eq [of "c div 64" 64] by (simp add: div_mult2_eq [symmetric])
  show "c div 262144 * 64 + c div 4096 mod 64 = c div 4096"
    using div_mult_mod_eq [of "c div 4096" 64] by (simp add: div_mult2_eq [symmetric])
qed

lemma horner:
  "a * 64 + b = d \<Longrightarrow> d * 64 + e = h \<Longrightarrow> a * 4096 + b * 64 + e = h"
  "a * 64 + b = d \<Longrightarrow> d * 64 + e = f \<Longrightarrow> f * 64 + g = h \<Longrightarrow> a * 262144 + b * 4096 + e * 64 + g = h"
  for a b d e f g h :: nat
  by auto

lemma utf8_first_four:
  assumes "unat a = 0xF0 + k" "k < 8" "continuation b" "continuation b'" "continuation b''" "0x10000 \<le> c" "is_scalar c"
    and "k * 262144 + low6 b * 4096 + low6 b' * 64 + low6 b'' = c"
  shows "utf8_first (a # b # b' # b'' # rest) = Some (c, rest)"
proof -
  have "(0xF0 + k) div 32 = 7" "(0xF0 + k) div 16 = 15" "(0xF0 + k) div 8 = 30" "(0xF0 + k) mod 8 = k"
    using assms(2) by (auto intro: div_nat_eqI mod_nat_eqI)
  with assms show ?thesis by (simp add: Let_def)
qed

lemma utf8_first_encode:
  assumes "is_scalar c"
  shows "utf8_first (encode_utf8 c @ rest) = Some (c, rest)"
proof (cases "c < 0x80")
  case True
  then show ?thesis by (simp add: encode_utf8_def unat_u8)
next
  case False
  have bound: "c \<le> 0x10FFFF" using assms by (auto simp: is_scalar_def)
  from False have "0x80 \<le> c" by simp
  from this bound show ?thesis
  proof (cases rule: encode_shape)
    case (two a b)
    have "(0xC0 + c div 64) div 32 = 6" "(0xC0 + c div 64) mod 32 = c div 64" using two(4) by (auto intro: div_nat_eqI mod_nat_eqI)
    with two False show ?thesis by (simp add: Let_def)
  next
    case (three a b b')
    have "(0xE0 + c div 4096) div 32 = 7" "(0xE0 + c div 4096) div 16 = 14" "(0xE0 + c div 4096) mod 16 = c div 4096"
      using three(5) by (auto intro: div_nat_eqI mod_nat_eqI)
    moreover have "c div 4096 * 4096 + c div 64 mod 64 * 64 + c mod 64 = c"
      by (rule horner(1) [OF base64(2,1)])
    ultimately show ?thesis using three assms by (simp add: Let_def)
  next
    case (four a b b' b'')
    have "utf8_first (a # b # b' # b'' # rest) = Some (c, rest)"
      by (rule utf8_first_four [OF four(3,4,5,7,9,1) assms])
         (unfold four(6,8,10), rule horner(2) [OF base64(3,2,1)])
    then show ?thesis by (simp add: four(2))
  qed
qed

lemma utf8_prefix_incomplete:
  assumes "is_scalar c" "0 < i" "i < len_utf8 c"
  shows "utf8_first (take i (encode_utf8 c)) = None"
proof -
  have c: "0x80 \<le> c" "c \<le> 0x10FFFF" using assms by (auto simp: is_scalar_def len_utf8_def split: if_splits)
  from c show ?thesis
  proof (cases rule: encode_shape)
    case (two a b)
    then have "i = 1" using assms(2,3) c by (simp add: len_utf8_def)
    with two show ?thesis by simp
  next
    case (three a b b')
    have "(0xE0 + c div 4096) div 32 = 7" "(0xE0 + c div 4096) div 16 = 14"
      using three(5) by (auto intro: div_nat_eqI)
    moreover have "i = 1 \<or> i = 2" using three assms(2,3) by (auto simp: len_utf8_def)
    ultimately show ?thesis using three(3,4) by (elim disjE) (simp_all add: numeral_2_eq_2)
  next
    case (four a b b' b'')
    have "(0xF0 + c div 262144) div 32 = 7" "(0xF0 + c div 262144) div 16 = 15" "(0xF0 + c div 262144) div 8 = 30"
      using four(4) by (auto intro: div_nat_eqI)
    moreover have "i = 1 \<or> i = 2 \<or> i = 3" using four assms(2,3) by (auto simp: len_utf8_def)
    ultimately show ?thesis
      using four(2,3) by (elim disjE) (simp_all add: numeral_2_eq_2 numeral_3_eq_3)
  qed
qed

lemma utf8_from_lengths_skip:
  assumes "\<forall>i\<in>set is. from_utf8 (take i data) = None"
  shows "utf8_from_lengths (is @ js) data = utf8_from_lengths js data"
  using assms by (induction "is") simp_all

end
