(* ===== verification/View_Draw.thy ===== *)
theory View_Draw
  imports View Byte_Properties
begin

text \<open>
  Drawing (src/hex_view/view.rs): the style of every visible byte, the rows, the panel beside them,
  the status line with its two prompts, and \<open>draw\<close> and \<open>draw_rows\<close>, which also load data. Every
  drawing function gives the commands it queues.
\<close>

section \<open>Styles\<close>

definition default_style :: prioritized_style where
  "default_style = \<lparr>pstyle = on_color Reset (with_color White content_style_new), prio = Basic\<rparr>"

definition active_selection_style :: prioritized_style where
  "active_selection_style =
     \<lparr>pstyle = on_color (Rgb 110 97 16) (with_color Black content_style_new), prio = PSelection\<rparr>"

definition inactive_selection_style :: prioritized_style where
  "inactive_selection_style = \<lparr>pstyle = on_color DarkGrey (with_color Black content_style_new), prio = PSelection\<rparr>"

definition active_caret_style :: prioritized_style where
  "active_caret_style =
     \<lparr>pstyle = on_color (Rgb 107 108 128) (with_color (AnsiValue 16) content_style_new), prio = PCursor\<rparr>"

definition inactive_caret_style :: prioritized_style where
  "inactive_caret_style = \<lparr>pstyle = on_color DarkGrey (with_color Black content_style_new), prio = PCursor\<rparr>"

definition empty_caret_style :: prioritized_style where
  "empty_caret_style = \<lparr>pstyle = on_color Green content_style_new, prio = PCursor\<rparr>"

definition selection_style :: "sel_region \<Rightarrow> prioritized_style" where
  "selection_style r = (if main r then active_selection_style else inactive_selection_style)"

definition caret_style :: "sel_region \<Rightarrow> prioritized_style" where
  "caret_style r = (if main r then active_caret_style else inactive_caret_style)"

section \<open>Marks\<close>

text \<open>
  One round of the loop of \<open>mark_commands\<close>, for the byte at \<open>i\<close>. The command stack has its top first;
  it is never empty, since its bottom, the default style, is pushed before the loop.
\<close>

definition mark_caret :: "bool \<Rightarrow> nat \<Rightarrow> sel_region \<Rightarrow> prioritized_style \<Rightarrow> styling_command \<Rightarrow> styling_command" where
  "mark_caret half i r base_style cmd =
     (if half then
        (if i = region_min r then with_end_style base_style (with_mid_style (caret_style r) cmd)
         else with_mid_style (caret_style r) (with_start_style base_style cmd))
      else with_end_style base_style (with_start_style (caret_style r) cmd))"

definition mark_byte ::
    "bool \<Rightarrow> nat \<Rightarrow> nat \<Rightarrow> sel_region list \<Rightarrow> prioritized_style list \<Rightarrow>
     (styling_command \<times> sel_region list \<times> prioritized_style list) outcome" where
  "mark_byte half bpl i regs stack0 =
     (let stack = (if regs \<noteq> [] \<and> region_min (hd regs) = i then selection_style (hd regs) # stack0 else stack0)
      in if stack = [] then Inl UnwrapNone
         else
           let cmd1 = (if regs \<noteq> [] \<and> region_min (hd regs) = i then with_start_style (hd stack) styling_default
                       else styling_default);
               cmd2 = (if regs \<noteq> [] \<and> caret (hd regs) = i then mark_caret half i (hd regs) (hd stack) cmd1 else cmd1)
           in and_then
                (if regs \<noteq> [] \<and> region_max (hd regs) = i then
                   (case tl stack of
                      s # _ \<Rightarrow> Inr (with_end_style s cmd2)
                    | [] \<Rightarrow> Inl IndexOutOfBounds)
                 else Inr cmd2)
                (\<lambda>cmd3.
                   if bpl = 0 then Inl DivisionByZero
                   else
                     let cmd4 = (if i mod bpl = 0 \<and> start_style cmd3 = None then with_start_style (hd stack) cmd3
                                 else if (i + 1) mod bpl = 0 then with_end_style default_style cmd3
                                 else cmd3)
                     in if regs \<noteq> [] \<and> region_max (hd regs) = i then Inr (cmd4, tl regs, tl stack)
                        else Inr (cmd4, regs, stack)))"

fun mark_loop ::
    "bool \<Rightarrow> nat \<Rightarrow> nat list \<Rightarrow> sel_region list \<Rightarrow> prioritized_style list \<Rightarrow> styling_command list outcome" where
  "mark_loop half bpl [] regs stack = Inr []"
| "mark_loop half bpl (i # is) regs stack =
     and_then (mark_byte half bpl i regs stack) (\<lambda>(cmd, regs', stack').
     and_then (mark_loop half bpl is regs' stack') (\<lambda>cmds. Inr (cmd # cmds)))"

definition mark_commands :: "'d hex_view \<Rightarrow> nat \<times> nat \<Rightarrow> styling_command list outcome" where
  "mark_commands hv visible =
     and_then (hv_current hv) (\<lambda>buf.
     and_then (regions_in_range (buf_selection buf) (fst visible) (snd visible)) (\<lambda>regs.
       let stack = (if regs \<noteq> [] \<and> region_min (hd regs) < fst visible
                    then [selection_style (hd regs), default_style] else [default_style])
       in mark_loop (has_half_cursor (hv_mode hv)) (hv_bytes_per_line hv) [fst visible..<snd visible] regs stack))"

definition overflow_cursor_style :: "'d hex_view \<Rightarrow> styling_command option outcome" where
  "overflow_cursor_style hv =
     and_then (hv_current hv) (\<lambda>buf.
     and_then (overflow_sel_style buf) (\<lambda>style.
       Inr (map_option (\<lambda>s.
         with_end_style default_style
           (if s = Tail then styling_default
            else if has_half_cursor (hv_mode hv) then with_mid_style empty_caret_style styling_default
            else with_start_style empty_caret_style styling_default)) style)))"

section \<open>Rows\<close>

definition draw_hex_row :: "(u8 \<times> styling_command) list \<Rightarrow> term_cmd list" where
  "draw_hex_row styled_bytes = concat (map (\<lambda>(b, s). draw_hex_byte b s) styled_bytes)"

definition draw_ascii_row :: "(u8 \<times> styling_command) list \<Rightarrow> term_cmd list" where
  "draw_ascii_row styled_bytes = concat (map (\<lambda>(b, s). draw_ascii_byte b s) styled_bytes)"

definition draw_separator :: "term_cmd list" where
  "draw_separator = [SetForegroundColor White, Print [0x2502, ch (CHR '' '')]]"

definition row_commands ::
    "'d hex_view \<Rightarrow> nat \<Rightarrow> bytes \<Rightarrow> styling_command list \<Rightarrow> styling_command option \<Rightarrow> term_cmd list \<Rightarrow>
     term_cmd list outcome" where
  "row_commands hv row bs marks end_cmd panel =
     (let bpl = hv_bytes_per_line hv;
          gap = (if bs = [] then bpl else usize_sub bpl (length bs) mod bpl);
          hex_pad = (case end_cmd of None \<Rightarrow> gap * 3 | Some _ \<Rightarrow> usize_sub (gap * 3) 2);
          ascii_pad = (case end_cmd of None \<Rightarrow> gap + 1 | Some _ \<Rightarrow> usize_sub (gap + 1) 1)
      in and_then (make_padding hex_pad) (\<lambda>hp.
         and_then (make_padding ascii_pad) (\<lambda>ap.
           Inr ([MoveTo 0 row, Print (str '' '')] @
                draw_hex_row (zip bs marks) @
                (case end_cmd of
                   None \<Rightarrow> []
                 | Some c \<Rightarrow> draw_text (str '' '') (with_mid_to_end c) @ draw_text (str '' '') (take_end_only c)) @
                [Print hp] @ draw_separator @
                draw_ascii_row (zip bs marks) @
                (case end_cmd of None \<Rightarrow> [] | Some c \<Rightarrow> draw_text (str '' '') (take_end_only c)) @
                [Print ap] @ draw_separator @
                panel @ [ClearUntilNewLine]))))"

text \<open>A row that is not on the screen is skipped, and the panel does not advance.\<close>

definition draw_row ::
    "(rchar \<Rightarrow> rstring) \<Rightarrow> 'd hex_view \<Rightarrow> bytes \<Rightarrow> nat \<Rightarrow> styling_command list \<Rightarrow> styling_command option \<Rightarrow>
     byte_properties \<Rightarrow> (term_cmd list \<times> byte_properties) outcome" where
  "draw_row dbg hv bs offset marks end_cmd bp =
     and_then (offset_to_row offset hv) (\<lambda>row.
       case row of
         None \<Rightarrow> Inr ([], bp)
       | Some row_num \<Rightarrow>
           and_then (draw_line dbg bp) (\<lambda>(panel, bp').
           and_then (row_commands hv row_num bs marks end_cmd panel) (\<lambda>cmds. Inr (cmds, bp'))))"

definition step_positions :: "nat \<Rightarrow> nat \<Rightarrow> nat \<Rightarrow> nat list outcome" where
  "step_positions start stop step =
     (if step = 0 then Inl StepByZero
      else if stop \<le> start then Inr []
      else Inr (positions_from start (stop - 1) step))"

text \<open>
  The loop over the visible rows, shared by \<open>draw\<close> and \<open>draw_rows\<close>; the latter passes the rows to
  repaint and skips the others (\<open>unwrap\<close> of a row that is not on the screen panics).
\<close>

definition selected_row :: "nat list option \<Rightarrow> nat \<Rightarrow> 'd hex_view \<Rightarrow> bool outcome" where
  "selected_row rows i hv =
     (case rows of
        None \<Rightarrow> Inr True
      | Some rs \<Rightarrow>
          and_then (offset_to_row i hv) (\<lambda>row.
            case row of None \<Rightarrow> Inl UnwrapErr | Some n \<Rightarrow> Inr (n \<in> set rs)))"

fun draw_each ::
    "(rchar \<Rightarrow> rstring) \<Rightarrow> 'd hex_view \<Rightarrow> nat list option \<Rightarrow> nat \<Rightarrow> nat \<Rightarrow> bytes \<Rightarrow> styling_command list \<Rightarrow>
     byte_properties \<Rightarrow> nat list \<Rightarrow> (term_cmd list \<times> byte_properties) outcome" where
  "draw_each dbg hv rows start_index len cow marks bp [] = Inr ([], bp)"
| "draw_each dbg hv rows start_index len cow marks bp (i # is) =
     and_then (selected_row rows i hv) (\<lambda>selected.
       if \<not> selected then draw_each dbg hv rows start_index len cow marks bp is
       else
         let n = i - start_index; stop = min (length cow) (usize_add n (hv_bytes_per_line hv))
         in if stop < n \<or> stop > length marks then Inl IndexOutOfBounds
            else
              and_then (if usize_add i (hv_bytes_per_line hv) > len then overflow_cursor_style hv else Inr None) (\<lambda>end_cmd.
              and_then (draw_row dbg hv (take (stop - n) (drop n cow)) i (take (stop - n) (drop n marks)) end_cmd bp)
                (\<lambda>(cmds, bp').
              and_then (draw_each dbg hv rows start_index len cow marks bp' is) (\<lambda>(cmds', bp'').
                Inr (cmds @ cmds', bp'')))))"

text \<open>The \<open>while\<close> loop that prints the rest of the panel below the last row.\<close>

fun draw_rest ::
    "(rchar \<Rightarrow> rstring) \<Rightarrow> 'd hex_view \<Rightarrow> nat \<Rightarrow> byte_properties \<Rightarrow> nat \<Rightarrow> term_cmd list outcome" where
  "draw_rest dbg hv offset bp 0 = Inl NoReturn"
| "draw_rest dbg hv offset bp (Suc fuel) =
     (if are_all_printed bp then Inr []
      else
        and_then (draw_row dbg hv [] offset [] None bp) (\<lambda>(cmds, bp').
        and_then (draw_rest dbg hv (usize_add offset (hv_bytes_per_line hv)) bp' fuel) (\<lambda>cmds'. Inr (cmds @ cmds'))))"

definition current_bytes :: "selection \<Rightarrow> nat \<times> nat \<Rightarrow> bytes \<Rightarrow> bytes outcome" where
  "current_bytes sel visible cow =
     and_then (regions_in_range sel (fst visible) (snd visible)) (\<lambda>regs.
       case find main regs of
         None \<Rightarrow> Inr []
       | Some v \<Rightarrow>
           (let start = usize_sub (caret v) (fst visible);
                stop = (if usize_add start 4 > length cow then length cow else usize_add start 4)
            in if start \<le> stop then Inr (take (stop - start) (drop start cow)) else Inl IndexOutOfBounds))"

definition rest_offset :: "nat \<Rightarrow> nat \<Rightarrow> nat" where
  "rest_offset end_index bpl =
     (let a = end_index div bpl in usize_mul (if end_index mod bpl = 0 then a else usize_add a 1) bpl)"

text \<open>The fuel of the last loop. On a terminal with a row for each line of the panel every round prints a line or,
  when the data ends above the screen, moves towards it, so the fuel is enough; \<open>NoReturn\<close> means that the loop
  is still running after so many rounds (the properties of the view show for how long).\<close>

definition rest_fuel :: "'d hex_view \<Rightarrow> nat" where
  "rest_fuel hv = hv_start_offset hv + bp_height + 1"

definition draw_body ::
    "(rchar \<Rightarrow> rstring) \<Rightarrow> 'd hex_view \<Rightarrow> nat list option \<Rightarrow> nat \<Rightarrow> term_cmd list outcome" where
  "draw_body dbg hv rows fuel =
     and_then (hv_current hv) (\<lambda>buf.
       let visible = visible_range hv (length (buf_data buf))
       in and_then (slice_to_cow (buf_data buf) (fst visible) (snd visible)) (\<lambda>cow.
          and_then (mark_commands hv visible) (\<lambda>marks.
          and_then (current_bytes (buf_selection buf) visible cow) (\<lambda>bs.
          and_then (bp_new bs) (\<lambda>bp.
          and_then (step_positions (fst visible) (snd visible) (hv_bytes_per_line hv)) (\<lambda>positions.
          and_then (draw_each dbg hv rows (fst visible) (length (buf_data buf)) cow marks bp positions) (\<lambda>(cmds, bp').
          and_then (draw_rest dbg hv (rest_offset (snd visible) (hv_bytes_per_line hv)) bp' fuel) (\<lambda>cmds'.
            Inr (cmds @ cmds')))))))))"

section \<open>Prompts\<close>

definition styled :: "color \<Rightarrow> color \<Rightarrow> rstring \<Rightarrow> term_cmd" where
  "styled fg bg s = PrintStyled (on_color bg (with_color fg content_style_new)) s"

definition colored :: "color \<Rightarrow> rstring \<Rightarrow> term_cmd" where
  "colored fg s = PrintStyled (with_color fg content_style_new) s"

definition prompt_start :: "nat \<Rightarrow> nat \<Rightarrow> nat \<Rightarrow> nat" where
  "prompt_start len cursor last_start_col =
     (if len \<le> last_start_col then max 1 len - 1
      else if cursor < last_start_col then cursor else last_start_col)"

definition hex_piece :: "u8 option \<Rightarrow> bool \<Rightarrow> pattern_piece \<Rightarrow> term_cmd list" where
  "hex_piece half at_cursor piece =
     (case piece of
        Literal b \<Rightarrow>
          (if \<not> at_cursor then [Print (hex2 b @ str '' '')]
           else if half \<noteq> None then
             [Print [digit_char (unat b div 16)], styled Black White [digit_char (unat b mod 16)], Print (str '' '')]
           else [styled Black White (hex2 b), Print (str '' '')])
      | Wildcard \<Rightarrow>
          (if \<not> at_cursor then [colored DarkRed (str ''** '')]
           else [styled DarkRed White (str ''**''), Print (str '' '')]))"

definition piece_width :: "pattern_piece \<Rightarrow> nat" where
  "piece_width piece =
     (case piece of Wildcard \<Rightarrow> 1 | Literal b \<Rightarrow> (if b = 0x20 \<or> is_ascii_graphic b then 1 else 4))"

definition text_piece :: "bool \<Rightarrow> pattern_piece \<Rightarrow> term_cmd list" where
  "text_piece at_cursor piece =
     (case piece of
        Literal b \<Rightarrow>
          (let plain = is_ascii_graphic b \<or> b = 0x20; shown = str ''<'' @ hex2 b @ str ''>''
           in if \<not> at_cursor then (if plain then [Print [unat b]] else [styled Black DarkGrey shown])
              else (if plain then [styled Black White [unat b]] else [styled Black White shown]))
      | Wildcard \<Rightarrow> (if \<not> at_cursor then [colored DarkRed (str ''*'')] else [styled DarkRed White (str ''*'')]))"

fun position_done :: "int \<Rightarrow> nat list \<Rightarrow> nat option" where
  "position_done remaining [] = None"
| "position_done remaining (x # xs) =
     (if remaining \<le> 0 then Some 0 else map_option Suc (position_done (remaining - int x) xs))"

fun text_pieces :: "nat \<Rightarrow> nat \<Rightarrow> nat \<Rightarrow> pattern_piece list \<Rightarrow> term_cmd list" where
  "text_pieces i cursor width [] = []"
| "text_pieces i cursor width (p # ps) =
     (if width < piece_width p then []
      else text_piece (cursor = i) p @ text_pieces (Suc i) cursor (width - piece_width p) ps)"

definition render_hex ::
    "pattern \<Rightarrow> nat \<Rightarrow> u8 option \<Rightarrow> nat \<Rightarrow> nat \<Rightarrow> (term_cmd list \<times> nat) outcome" where
  "render_hex p cursor half max_width start0 =
     (let len = length (pieces p);
          start = (if cursor \<ge> start0 + max_width div 3 then cursor - max_width div 3 + 1 else start0);
          last_byte = min len (start + max_width div 3);
          normalized_cursor = usize_sub cursor start
      in if start > last_byte then Inl IndexOutOfBounds
         else Inr (concat (map (\<lambda>(i, piece). hex_piece half (normalized_cursor = i) piece)
                     (enumerate 0 (take (last_byte - start) (drop start (pieces p))))) @
                   (if cursor = len then [styled Black White (str ''  ''), Print (str '' '')] else []),
                   start))"

definition render_text :: "pattern \<Rightarrow> nat \<Rightarrow> nat \<Rightarrow> nat \<Rightarrow> (term_cmd list \<times> nat) outcome" where
  "render_text p cursor max_width0 start0 =
     (let len = length (pieces p);
          max_width = usize_sub max_width0 (if cursor = len then 1 else 0);
          lengths = map piece_width (drop start0 (pieces p));
          k = usize_sub cursor start0
      in if start0 > len \<or> k > length lengths then Inl IndexOutOfBounds
         else
           let required_length = sum_list (take k lengths)
           in and_then
                (if required_length > max_width then
                   (case position_done (int (required_length - max_width)) lengths of
                      None \<Rightarrow> Inl UnwrapNone
                    | Some n \<Rightarrow> Inr (start0 + n))
                 else Inr start0)
                (\<lambda>start.
                   Inr (text_pieces 0 (usize_sub cursor start) max_width (drop start (pieces p)) @
                        (if cursor = len then [styled Black White (str '' '')] else []),
                        start)))"

definition render_search ::
    "pattern \<Rightarrow> nat \<Rightarrow> bool \<Rightarrow> u8 option \<Rightarrow> nat \<Rightarrow> nat \<Rightarrow> (term_cmd list \<times> nat) outcome" where
  "render_search p cursor hex half width last_start_col =
     (let max_width = usize_sub width 7;
          start = prompt_start (length (pieces p)) cursor last_start_col
      in and_then (if hex then render_hex p cursor half max_width start else render_text p cursor max_width start)
           (\<lambda>(cmds, col). Inr (styled White Blue (str ''search:'') # cmds, col)))"

text \<open>Slicing a \<open>str\<close> by byte offsets panics off a character boundary.\<close>

definition str_slice :: "rstring \<Rightarrow> nat \<Rightarrow> nat \<Rightarrow> rstring outcome" where
  "str_slice s start stop =
     (case (char_at_byte s start, char_at_byte s stop) of
        (Some i, Some j) \<Rightarrow> (if i \<le> j then Inr (take (j - i) (drop i s)) else Inl IndexOutOfBounds)
      | _ \<Rightarrow> Inl IndexOutOfBounds)"

definition render_command :: "rstring \<Rightarrow> nat \<Rightarrow> nat \<Rightarrow> nat \<Rightarrow> (term_cmd list \<times> nat) outcome" where
  "render_command line cursor width last_start_col =
     (let len = string_len line;
          start0 = prompt_start len cursor last_start_col;
          max_width = usize_sub (usize_sub width 1) (if cursor = len then 1 else 0);
          required_length = usize_sub cursor start0;
          start = (if required_length > max_width then start0 + (required_length - max_width) else start0)
      in and_then (str_slice line start (min len (usize_add start max_width))) (\<lambda>shown.
           Inr ([styled White Blue (str '':''), Print shown] @
                (if cursor = len then [styled Black White (str '' '')] else []), start)))"

section \<open>Status line\<close>

definition sels_text :: "selection \<Rightarrow> rstring" where
  "sels_text s = str '' '' @ print_in 10 (length (regions s)) @ str '' sels ('' @ print_in 10 (main_selection s + 1) @ str '') ''"

definition offset_text :: "'d buffer \<Rightarrow> rstring outcome" where
  "offset_text buf =
     (if buf_data buf = [] then Inr (str '' empty '')
      else and_then (main_cursor_offset (buf_selection buf)) (\<lambda>c.
        Inr (str '' '' @ print_in 16 c @ str ''/'' @ print_in 16 (length (buf_data buf) - 1) @ str '' '')))"

definition calculate_powerline_length :: "'d hex_view \<Rightarrow> nat outcome" where
  "calculate_powerline_length hv =
     and_then (hv_current hv) (\<lambda>buf.
     and_then (offset_text buf) (\<lambda>offsets.
       Inr (1 + (2 + string_len (buffer_name buf)) + (if buf_dirty buf then 3 else 0) +
            1 + (2 + string_len (mode_name (hv_mode hv))) +
            1 + string_len (sels_text (buf_selection buf)) +
            1 + string_len offsets)))"

definition left_arrow :: rstring where
  "left_arrow = [0xE0B2]"

definition draw_statusline_here :: "'d hex_view \<Rightarrow> term_cmd list outcome" where
  "draw_statusline_here hv =
     and_then (hv_current hv) (\<lambda>buf.
     and_then (offset_text buf) (\<lambda>offsets.
       Inr [colored Red left_arrow,
            styled White Red (str '' '' @ buffer_name buf @ (if buf_dirty buf then str ''[+]'' else []) @ str '' ''),
            styled DarkYellow Red left_arrow,
            styled (AnsiValue 16) DarkYellow (str '' '' @ mode_name (hv_mode hv) @ str '' ''),
            styled White DarkYellow left_arrow,
            styled (AnsiValue 16) White (sels_text (buf_selection buf)),
            styled Blue White left_arrow,
            styled White Blue offsets]))"

definition prompt :: "'d hex_view \<Rightarrow> (term_cmd list \<times> nat) outcome" where
  "prompt hv =
     (let width = fst (hv_size hv); prev_col = hv_last_visible_prompt_col hv;
          at_line = (\<lambda>r. and_then r (\<lambda>(cmds, col). Inr (MoveTo 0 (hv_height hv) # cmds, col)))
      in case hv_mode hv of
           Search p c hex half next \<Rightarrow> at_line (render_search p c hex half width prev_col)
         | Command line c \<Rightarrow> at_line (render_command line c width prev_col)
         | _ \<Rightarrow> Inr ([], prev_col))"

definition draw_statusline :: "'d hex_view \<Rightarrow> (term_cmd list \<times> 'd hex_view) outcome" where
  "draw_statusline hv =
     and_then (calculate_powerline_length hv) (\<lambda>line_length.
       let at_end = MoveTo (u16_sub (fst (hv_size hv)) (as_u16 line_length)) (hv_height hv);
           info = (case hv_info hv of
               Some i \<Rightarrow> [MoveTo 0 (u16_sub (hv_height hv) 1), ClearCurrentLine, styled White Blue i, at_end]
             | None \<Rightarrow> [at_end, ClearCurrentLine])
       in and_then (draw_statusline_here hv) (\<lambda>line.
          and_then (prompt hv) (\<lambda>(cmds, col).
            Inr (info @ line @ cmds, hv\<lparr>hv_last_visible_prompt_col := col\<rparr>))))"

section \<open>Drawing\<close>

text \<open>What the code outside the repository gives to the view.\<close>

record ('d, 's, 'b, 'w) host =
  host_xi :: "('d, 's, 'b) xi"
  host_matcher :: matcher
  host_io :: "'w io"
  host_char_debug :: "rchar \<Rightarrow> rstring"
  host_term_size :: term_size

definition draw_rows ::
    "('d, 's, 'b, 'w) host \<Rightarrow> 'w \<Rightarrow> nat list \<Rightarrow> 'd hex_view \<Rightarrow> (term_cmd list \<times> 'd hex_view) outcome" where
  "draw_rows H w invalidated_rows hv0 =
     and_then (ensure_visible_data (host_xi H) (host_io H) w hv0) (\<lambda>hv.
     and_then (draw_body (host_char_debug H) hv (Some invalidated_rows) (rest_fuel hv)) (\<lambda>cmds. Inr (cmds, hv)))"

definition draw ::
    "('d, 's, 'b, 'w) host \<Rightarrow> 'w \<Rightarrow> 'd hex_view \<Rightarrow> (term_cmd list \<times> 'd hex_view) outcome" where
  "draw H w hv0 =
     and_then (ensure_visible_data (host_xi H) (host_io H) w hv0) (\<lambda>hv.
     and_then (draw_body (host_char_debug H) hv None (rest_fuel hv)) (\<lambda>cmds.
     and_then (visible_bytes hv) (\<lambda>visible.
       let rows = usize_sub (usize_add (usize_sub (snd visible) (fst visible)) (hv_bytes_per_line hv)) 1
                    div hv_bytes_per_line hv
       in and_then (draw_statusline (hv\<lparr>hv_last_visible_rows := rows\<rparr>)) (\<lambda>(cmds', hv').
            Inr ([MoveTo 0 0, ClearAll] @ cmds @ cmds', hv')))))"

end
