(* ===== verification/View_Loop.thy ===== *)
theory View_Loop
  imports View_Draw
begin

text \<open>
  What the view does with events (src/hex_view/view.rs): scrolling, keeping the main caret on the
  screen, repainting what a mode reports as changed, the keys no mode handles, and the event loop.
  The program starts in src/bin/tofu.rs. A step of the loop takes one event; \<open>run_events\<close> runs the
  loop on a list of events, as \<open>event::read\<close> would give them.
\<close>

type_synonym 'd drawing = "(term_cmd list \<times> 'd hex_view) outcome"

definition and_draw :: "'d drawing \<Rightarrow> ('d hex_view \<Rightarrow> 'd drawing) \<Rightarrow> 'd drawing" where
  "and_draw r f = and_then r (\<lambda>(cmds, hv). and_then (f hv) (\<lambda>(cmds', hv'). Inr (cmds @ cmds', hv')))"

section \<open>Scrolling\<close>

text \<open>
  Loading before scrolling down: \<open>None\<close> when the end of the file is reached and the scroll is given
  up. After a successful load the front of a large buffer is trimmed.
\<close>

definition scroll_load ::
    "('d, 's, 'b, 'w) host \<Rightarrow> 'w \<Rightarrow> nat \<Rightarrow> 'd hex_view \<Rightarrow> 'd hex_view option outcome" where
  "scroll_load H w next_position hv =
     and_then (hv_current hv) (\<lambda>buf.
       let current_size = length (buf_data buf);
           next_visible_end = usize_add next_position (usize_mul (hv_height hv) (hv_bytes_per_line hv))
       in if next_visible_end > current_size then
            (case load_next_chunk (host_xi H) (host_io H) w 64 buf of
               (Inr True, buf') \<Rightarrow>
                 (let hv1 = hv_set_current buf' hv; chunk_size = chunk_size_for (host_term_size H)
                  in and_then (should_trim_buffer (host_term_size H) hv1) (\<lambda>trim.
                       if trim \<and> chunk_size > 0
                       then and_then (trim_buffer_top chunk_size hv1) (\<lambda>hv2. Inr (Some hv2))
                       else Inr (Some hv1)))
             | (Inr False, buf') \<Rightarrow>
                 Inr (if next_position \<ge> current_size then None else Some (hv_set_current buf' hv))
             | (Inl e, buf') \<Rightarrow> io_failed e)
          else Inr (Some hv))"

definition scroll_down ::
    "('d, 's, 'b, 'w) host \<Rightarrow> 'w \<Rightarrow> nat \<Rightarrow> 'd hex_view \<Rightarrow> 'd drawing" where
  "scroll_down H w line_count hv =
     (let next_position = usize_add (hv_start_offset hv) (usize_mul line_count 16)
      in and_then (scroll_load H w next_position hv) (\<lambda>loaded.
           case loaded of
             None \<Rightarrow> Inr ([], hv)
           | Some hv1 \<Rightarrow>
               and_then (hv_current hv1) (\<lambda>buf.
                 if next_position \<ge> length (buf_data buf) then Inr ([], hv1)
                 else
                   let hv2 = hv1\<lparr>hv_start_offset := next_position\<rparr>; h = hv_height hv2
                   in if line_count > u16_sub h 1 then draw H w hv2
                      else and_draw (Inr ([ScrollUp (as_u16 line_count), MoveTo 0 (u16_sub h 2), ClearCurrentLine], hv2))
                        (draw_rows H w ([u16_sub (u16_sub h 1) (as_u16 line_count)..<Suc (u16_sub h 2)] @
                           [0..<bp_height])))))"

definition scroll_up ::
    "('d, 's, 'b, 'w) host \<Rightarrow> 'w \<Rightarrow> nat \<Rightarrow> 'd hex_view \<Rightarrow> 'd drawing" where
  "scroll_up H w line_count hv =
     (if hv_start_offset hv < usize_mul 16 line_count then Inr ([], hv)
      else
        let hv1 = hv\<lparr>hv_start_offset := hv_start_offset hv - usize_mul 16 line_count\<rparr>; h = hv_height hv1
        in if line_count > u16_sub h 1 then draw H w hv1
           else and_draw (Inr ([ScrollDown (as_u16 line_count), MoveTo 0 (u16_sub h 1), ClearCurrentLine], hv1))
             (draw_rows H w [0..<as_u16 (usize_add line_count bp_height)]))"

text \<open>Signed division truncates towards zero (\<open>isize\<close>).\<close>

definition isize_div :: "int \<Rightarrow> int \<Rightarrow> int" where
  "isize_div a b = (if a < 0 then - ((- a) div b) else a div b)"

definition maybe_update_offset ::
    "('d, 's, 'b, 'w) host \<Rightarrow> 'w \<Rightarrow> 'd hex_view \<Rightarrow> 'd drawing" where
  "maybe_update_offset H w hv =
     and_then (hv_current hv) (\<lambda>buf.
       if buf_data buf = [] then Inr ([], hv\<lparr>hv_start_offset := 0\<rparr>)
       else
         and_then (main_cursor_offset (buf_selection buf)) (\<lambda>cursor.
           let visible = visible_range hv (length (buf_data buf)); bpl = as_isize (hv_bytes_per_line hv);
               scroll = (\<lambda>delta.
                 if bpl = 0 then Inl DivisionByZero
                 else if delta < 0 then
                   scroll_up H w (as_usize \<bar>isize_div (isize_wrap (delta - bpl + 1)) bpl\<bar>) hv
                 else scroll_down H w (as_usize (isize_div (isize_wrap (delta + bpl - 1)) bpl)) hv)
           in if cursor < fst visible then scroll (isize_wrap (as_isize cursor - as_isize (fst visible)))
              else if cursor \<ge> snd visible then scroll (isize_wrap (as_isize cursor - (as_isize (snd visible) - 1)))
              else Inr ([], hv)))"

definition offset_for ::  "'d hex_view \<Rightarrow> nat \<Rightarrow> nat \<Rightarrow> nat outcome" where
  "offset_for hv len cursor =
     (let visible = visible_range hv len; bpl = hv_bytes_per_line hv
      in if cursor < fst visible then
           (if bpl = 0 then Inl DivisionByZero else Inr (cursor - cursor mod bpl))
         else if cursor \<ge> snd visible then
           (if bpl = 0 then Inl DivisionByZero
            else Inr (usize_add (cursor - cursor mod bpl) bpl - usize_mul (usize_sub (hv_height hv) 1) bpl))
         else Inr (hv_start_offset hv))"

definition maybe_update_offset_and_draw ::
    "('d, 's, 'b, 'w) host \<Rightarrow> 'w \<Rightarrow> 'd hex_view \<Rightarrow> 'd drawing" where
  "maybe_update_offset_and_draw H w hv =
     and_then (hv_current hv) (\<lambda>buf.
     and_then (main_cursor_offset (buf_selection buf)) (\<lambda>cursor.
     and_then (offset_for hv (length (buf_data buf)) cursor) (\<lambda>start.
       draw H w (hv\<lparr>hv_start_offset := start\<rparr>))))"

section \<open>Transitions\<close>

definition invalidated_rows ::
    "('d, 's, 'b) xi \<Rightarrow> nat \<times> nat \<Rightarrow> nat \<Rightarrow> interval list \<Rightarrow> nat list" where
  "invalidated_rows X visible bpl intervals =
     concat (map (\<lambda>x.
       let i = interval_intersect X (interval_new (fst visible) (snd visible)) x
       in if interval_is_empty X i then []
          else map (\<lambda>byte. as_u16 ((byte - fst visible) div bpl)) [istart i..<iend i]) intervals)"

definition transition_dirty_bytes ::
    "('d, 's, 'b, 'w) host \<Rightarrow> 'w \<Rightarrow> dirty_bytes \<Rightarrow> 'd hex_view \<Rightarrow> 'd drawing" where
  "transition_dirty_bytes H w dirty hv =
     (case dirty of
        ChangeInPlace intervals \<Rightarrow>
          and_draw (maybe_update_offset H w hv) (\<lambda>hv1.
          and_then (visible_bytes hv1) (\<lambda>visible.
            draw_rows H w (invalidated_rows (host_xi H) visible (hv_bytes_per_line hv1) intervals @ [0..<bp_height]) hv1))
      | ChangeLength \<Rightarrow> maybe_update_offset_and_draw H w hv)"

definition view_transition ::
    "('d, 's, 'b, 'w) host \<Rightarrow> 'w \<Rightarrow> mode_transition \<Rightarrow> 'd hex_view \<Rightarrow> 'd drawing" where
  "view_transition H w t hv0 =
     (let hv = hv0\<lparr>hv_info := None\<rparr>
      in case t of
           TNone \<Rightarrow> Inr ([], hv)
         | DirtyBytes d \<Rightarrow> transition_dirty_bytes H w d hv
         | NewMode m \<Rightarrow> Inr ([], hv\<lparr>hv_mode := m\<rparr>)
         | ModeAndDirtyBytes m d \<Rightarrow> transition_dirty_bytes H w d (hv\<lparr>hv_mode := m\<rparr>)
         | ModeAndInfo m info \<Rightarrow> Inr ([], hv\<lparr>hv_mode := m, hv_info := Some info\<rparr>))"

section \<open>Keys no mode handles\<close>

definition move_all :: "('d, 's, 'b) xi \<Rightarrow> direction \<Rightarrow> 'd hex_view \<Rightarrow> 'd hex_view outcome" where
  "move_all X direction hv =
     and_then (hv_current hv) (\<lambda>buf.
     and_then (buffer_map_selections X
         (single (\<lambda>region. simple_move region direction (hv_bytes_per_line hv) (length (buf_data buf)) 1)) () buf)
       (\<lambda>(_, buf'). Inr (hv_set_current buf' hv)))"

definition ctrl_e ::  "('d, 's, 'b, 'w) host \<Rightarrow> 'w \<Rightarrow> 'd hex_view \<Rightarrow> 'd drawing" where
  "ctrl_e H w hv =
     and_then (hv_current hv) (\<lambda>buf.
       case load_next_chunk (host_xi H) (host_io H) w (chunk_size_for (host_term_size H)) buf of
         (Inl e, _) \<Rightarrow> io_failed e
       | (Inr _, buf') \<Rightarrow>
           and_then (move_all (host_xi H) Down (hv_set_current buf' hv)) (\<lambda>hv1.
             and_draw (scroll_down H w 1 hv1) (draw H w)))"

definition ctrl_y ::  "('d, 's, 'b, 'w) host \<Rightarrow> 'w \<Rightarrow> 'd hex_view \<Rightarrow> 'd drawing" where
  "ctrl_y H w hv =
     and_then (move_all (host_xi H) Up hv) (\<lambda>hv1. and_draw (scroll_up H w 1 hv1) (draw H w))"

definition handle_event_default ::
    "('d, 's, 'b, 'w) host \<Rightarrow> 'w \<Rightarrow> event \<Rightarrow> 'd hex_view \<Rightarrow> 'd drawing" where
  "handle_event_default H w evt hv =
     (case evt of
        Resize x y \<Rightarrow> draw H w (hv\<lparr>hv_size := (x, y)\<rparr>)
      | Key e \<Rightarrow>
          (if modifiers e = no_modifiers\<lparr>control := True\<rparr> \<and> code e = KChar (ch (CHR ''e'')) then ctrl_e H w hv
           else if modifiers e = no_modifiers\<lparr>control := True\<rparr> \<and> code e = KChar (ch (CHR ''y'')) then ctrl_y H w hv
           else Inr ([], hv))
      | Mouse \<Rightarrow> Inr ([], hv))"

section \<open>The event loop\<close>

definition event_step ::
    "('d, 's, 'b, 'w) host \<Rightarrow> event \<Rightarrow> 'w \<times> 'd hex_view \<Rightarrow> (term_cmd list \<times> 'w \<times> 'd hex_view) outcome" where
  "event_step H evt s =
     (case s of (w, hv) \<Rightarrow>
        and_then (mode_handler (host_xi H) (host_matcher H) (host_io H) w (hv_bytes_per_line hv) (hv_mode hv) evt
            (hv_buffers hv))
          (\<lambda>((t, bc), w').
             let hv1 = hv\<lparr>hv_buffers := bc\<rparr>
             in and_then
                  (and_draw
                    (case t of
                       Some tr \<Rightarrow> view_transition H w' tr hv1
                     | None \<Rightarrow> handle_event_default H w' evt hv1)
                    draw_statusline)
                  (\<lambda>(cmds, hv2). Inr (cmds, w', hv2))))"

text \<open>The loop leaves when the mode takes no input; otherwise it waits for the next event.\<close>

fun run_events ::
    "('d, 's, 'b, 'w) host \<Rightarrow> event list \<Rightarrow> 'w \<times> 'd hex_view \<Rightarrow> (term_cmd list \<times> 'w \<times> 'd hex_view) outcome" where
  "run_events H [] s = Inr ([], s)"
| "run_events H (e # es) s =
     (if \<not> takes_input (hv_mode (snd s)) then Inr ([], s)
      else and_then (event_step H e s) (\<lambda>(cmds, s').
           and_then (run_events H es s') (\<lambda>(cmds', s''). Inr (cmds @ cmds', s''))))"

definition run_event_loop ::
    "('d, 's, 'b, 'w) host \<Rightarrow> event list \<Rightarrow> 'w \<times> 'd hex_view \<Rightarrow> (term_cmd list \<times> 'w \<times> 'd hex_view) outcome" where
  "run_event_loop H es s =
     and_then (draw H (fst s) (snd s)) (\<lambda>(cmds, hv).
     and_then (run_events H es (fst s, hv)) (\<lambda>(cmds', s'). Inr (cmds @ cmds', s')))"

section \<open>Program start\<close>

text \<open>
  \<open>main\<close> of src/bin/tofu.rs: \<open>tofu_start\<close> up to the loop, and the whole. Without an argument there is a
  scratch buffer; with one, the first chunk of the file, sized by the terminal; \<open>expect\<close> panics on an
  I/O error.
\<close>

definition tofu_start ::
    "('d, 's, 'b, 'w) host \<Rightarrow> 'w \<Rightarrow> path option \<Rightarrow> 'd hex_view outcome" where
  "tofu_start H w filename =
     and_then
       (case filename of
          None \<Rightarrow> Inr collection_new
        | Some f \<Rightarrow>
            (case io_read_at (host_io H) w f 0 (chunk_size_for (host_term_size H)) of
               Inl e \<Rightarrow> Inl UnwrapErr
             | Inr bs \<Rightarrow> Inr (with_current_buffer (from_data_and_path bs (Some f)))))
       (with_buffr_collection (host_term_size H))"

definition tofu_main ::
    "('d, 's, 'b, 'w) host \<Rightarrow> 'w \<Rightarrow> path option \<Rightarrow> event list \<Rightarrow> (term_cmd list \<times> 'w \<times> 'd hex_view) outcome" where
  "tofu_main H w filename es = and_then (tofu_start H w filename) (\<lambda>hv. run_event_loop H es (w, hv))"

end
