(* ===== verification/View_Marks.thy ===== *)
theory View_Marks
  imports View_Draw Selection_Props
begin

text \<open>
  The loop of \<open>mark_commands\<close>, with its stack of styles and its list of remaining regions, gives every
  visible byte the mark a direct definition gives it: from the region that contains the byte alone.
\<close>

definition region_at :: "sel_region list \<Rightarrow> nat \<Rightarrow> sel_region option" where
  "region_at regs i = find (\<lambda>r. region_min r \<le> i \<and> i \<le> region_max r) regs"

definition base_style :: "sel_region option \<Rightarrow> prioritized_style" where
  "base_style r = (case r of Some r \<Rightarrow> selection_style r | None \<Rightarrow> default_style)"

definition region_mark :: "bool \<Rightarrow> sel_region \<Rightarrow> nat \<Rightarrow> styling_command" where
  "region_mark half r i =
     (let cmd1 = (if region_min r = i then with_start_style (selection_style r) styling_default else styling_default);
          cmd2 = (if caret r = i then mark_caret half i r (selection_style r) cmd1 else cmd1)
      in if region_max r = i then with_end_style default_style cmd2 else cmd2)"

definition mark_of :: "bool \<Rightarrow> nat \<Rightarrow> sel_region list \<Rightarrow> nat \<Rightarrow> styling_command" where
  "mark_of half bpl regs i =
     (let r = region_at regs i; cmd = (case r of Some r \<Rightarrow> region_mark half r i | None \<Rightarrow> styling_default)
      in if i mod bpl = 0 \<and> start_style cmd = None then with_start_style (base_style r) cmd
         else if (i + 1) mod bpl = 0 then with_end_style default_style cmd
         else cmd)"

text \<open>What holds when the loop reaches byte \<open>i\<close>: no remaining region ends before it, and the stack has
  a second entry exactly when a region began before it.\<close>

definition waiting :: "nat \<Rightarrow> sel_region list \<Rightarrow> bool" where
  "waiting i regs \<longleftrightarrow> sorted_wrt before regs \<and> (\<forall>r\<in>set regs. i \<le> region_max r)"

definition stack_at :: "nat \<Rightarrow> sel_region list \<Rightarrow> prioritized_style list" where
  "stack_at i regs =
     (if regs \<noteq> [] \<and> region_min (hd regs) < i then [selection_style (hd regs), default_style] else [default_style])"

definition after :: "nat \<Rightarrow> sel_region list \<Rightarrow> sel_region list" where
  "after i regs = (if regs \<noteq> [] \<and> region_max (hd regs) = i then tl regs else regs)"

lemma region_at_waiting:
  assumes "waiting i regs"
  shows "region_at regs i = (if regs \<noteq> [] \<and> region_min (hd regs) \<le> i then Some (hd regs) else None)"
proof (cases regs)
  case (Cons r rs)
  have "region_at rs i = None"
  proof -
    have "i < region_min q" if "q \<in> set rs" for q
    proof -
      have "region_max r < region_min q" "i \<le> region_max r"
        using assms that Cons by (auto simp: waiting_def before_def)
      then show ?thesis by linarith
    qed
    then show ?thesis by (force simp: region_at_def find_None_iff)
  qed
  moreover have "i \<le> region_max r" using assms Cons by (simp add: waiting_def)
  ultimately show ?thesis by (simp add: Cons region_at_def)
qed (simp add: region_at_def)

lemma waiting_after:
  assumes "waiting i regs"
  shows "waiting (Suc i) (after i regs)" "Suc i \<le> j \<Longrightarrow> region_at (after i regs) j = region_at regs j"
proof -
  show "waiting (Suc i) (after i regs)"
  proof (cases regs)
    case (Cons r rs)
    have r: "i \<le> region_max r" using assms Cons by (simp add: waiting_def)
    have "Suc i \<le> region_max q" if "q \<in> set rs" for q
    proof -
      have "region_max r < region_min q" using assms that Cons by (auto simp: waiting_def before_def)
      with r region_min_le_max [of q] show ?thesis by linarith
    qed
    with assms r show ?thesis by (auto simp: Cons after_def waiting_def)
  qed (simp add: after_def waiting_def)
  show "region_at (after i regs) j = region_at regs j" if "Suc i \<le> j"
    using that by (cases regs) (auto simp: after_def region_at_def)
qed

lemma stack_after:
  assumes "waiting i regs"
  shows "(if after i regs \<noteq> regs then [default_style]
     else if regs \<noteq> [] \<and> region_min (hd regs) \<le> i then [selection_style (hd regs), default_style]
     else [default_style]) = stack_at (Suc i) (after i regs)"
proof (cases regs)
  case (Cons r rs)
  show ?thesis
  proof (cases "region_max r = i")
    case True
    have "i < region_min q" if "q \<in> set rs" for q
      using assms that Cons True by (auto simp: waiting_def before_def)
    then have "rs = [] \<or> i < region_min (hd rs)" by (cases rs) auto
    then show ?thesis using True by (auto simp: Cons after_def stack_at_def)
  next
    case False
    then show ?thesis by (simp add: Cons after_def stack_at_def less_Suc_eq_le)
  qed
qed (simp add: after_def stack_at_def)

lemma mark_byte_of:
  assumes "waiting i regs" "0 < bpl"
  shows "mark_byte half bpl i regs (stack_at i regs) =
    Inr (mark_of half bpl regs i, after i regs, stack_at (Suc i) (after i regs))"
proof (cases regs)
  case Nil
  then show ?thesis using assms
    by (simp add: mark_byte_def mark_of_def region_at_def stack_at_def after_def base_style_def Let_def)
next
  case (Cons r rs)
  have m: "region_min r \<le> region_max r" "i \<le> region_max r" using assms Cons by (simp_all add: waiting_def)
  have ne: "tl regs \<noteq> regs" using Cons by simp
  have c: "region_min r \<le> caret r" by (simp add: region_min_def)
  note st = stack_after [OF assms(1)] and at = region_at_waiting [OF assms(1)]
  consider "i < region_min r" | "i = region_min r" | "region_min r < i" by linarith
  then show ?thesis
  proof cases
    case 1
    then have "region_max r \<noteq> i" "caret r \<noteq> i" using m c by linarith+
    with 1 assms(2) at st show ?thesis
      by (simp add: Cons mark_byte_def mark_of_def stack_at_def after_def base_style_def Let_def)
  next
    case 2
    with assms(2) at st show ?thesis
      by (auto simp: Cons mark_byte_def mark_of_def region_mark_def stack_at_def after_def base_style_def Let_def)
  next
    case 3
    with assms(2) at st show ?thesis
      by (auto simp: Cons mark_byte_def mark_of_def region_mark_def stack_at_def after_def base_style_def Let_def)
  qed
qed

lemma mark_of_cong: "region_at regs i = region_at regs' i \<Longrightarrow> mark_of half bpl regs i = mark_of half bpl regs' i"
  by (simp add: mark_of_def)

lemma mark_loop_of:
  assumes "waiting i regs" "0 < bpl" "i \<le> e"
  shows "mark_loop half bpl [i..<e] regs (stack_at i regs) = Inr (map (mark_of half bpl regs) [i..<e])"
  using assms
proof (induction "e - i" arbitrary: i regs)
  case (Suc k)
  then have e: "[i..<e] = i # [Suc i..<e]" by (simp add: upt_conv_Cons)
  have "mark_loop half bpl [Suc i..<e] (after i regs) (stack_at (Suc i) (after i regs)) =
      Inr (map (mark_of half bpl (after i regs)) [Suc i..<e])"
    by (rule Suc.hyps(1)) (use Suc.hyps(2) Suc.prems waiting_after(1) in auto)
  moreover have "map (mark_of half bpl (after i regs)) [Suc i..<e] = map (mark_of half bpl regs) [Suc i..<e]"
    by (intro map_cong refl mark_of_cong waiting_after(2) [OF Suc.prems(1)]) simp
  ultimately show ?case
    using mark_byte_of [OF Suc.prems(1,2), of half] by (simp add: e)
qed simp

lemma find_filter: "(\<And>x. P x \<Longrightarrow> Q x) \<Longrightarrow> find P (filter Q xs) = find P xs"
  by (induction xs) auto

lemma mark_commands_of:
  assumes "hv_current hv = Inr buf" "wf_selection (buf_selection buf)" "0 < hv_bytes_per_line hv" "a \<le> b"
  shows "mark_commands hv (a, b) =
    Inr (map (mark_of (has_half_cursor (hv_mode hv)) (hv_bytes_per_line hv) (regions (buf_selection buf))) [a..<b])"
proof -
  let ?Q = "\<lambda>r. a \<le> region_max r \<and> region_min r \<le> b"
  let ?regs = "filter ?Q (regions (buf_selection buf))"
  have w: "waiting a ?regs"
    using assms(2) by (auto simp: waiting_def wf_selection_def intro: sorted_wrt_filter)
  have "region_at ?regs i = region_at (regions (buf_selection buf)) i" if "i \<in> set [a..<b]" for i
    unfolding region_at_def by (rule find_filter) (use that in auto)
  then have "map (mark_of half bpl ?regs) [a..<b] = map (mark_of half bpl (regions (buf_selection buf))) [a..<b]" for half bpl
    by (intro map_cong refl mark_of_cong) blast
  with mark_loop_of [OF w assms(3,4)] regions_in_range_filter [OF assms(2,4)] assms(1) show ?thesis
    by (simp add: mark_commands_def stack_at_def Let_def)
qed

end
