(* ===== verification/View_Safe.thy ===== *)
theory View_Safe
  imports View_Loop View_Marks Buffer_Props
begin

text \<open>
  Drawing returns. The lemmas go from the inside out: a line of the panel, a row, the loop over the
  rows, the loop that finishes the panel, the body of \<open>draw\<close> and \<open>draw_rows\<close>, and \<open>draw\<close> itself. The
  fuel of the last loop is never used up when the terminal has at least five rows.
\<close>

lemma find_unique: "x \<in> set xs \<Longrightarrow> P x \<Longrightarrow> (\<And>y. y \<in> set xs \<Longrightarrow> P y \<Longrightarrow> y = x) \<Longrightarrow> find P xs = Some x"
proof (induction xs)
  case (Cons a xs)
  show ?case
  proof (cases "P a")
    case True
    with Cons.prems(3) [of a] show ?thesis by simp
  next
    case False
    then have "x \<in> set xs" using Cons.prems(1,2) by auto
    then have "find P xs = Some x" by (rule Cons.IH) (rule Cons.prems(2), erule Cons.prems(3) [OF list.set_intros(2)])
    with False show ?thesis by simp
  qed
qed simp

section \<open>The panel\<close>

text \<open>What the panel needs of \<open>char::escape_debug\<close>: at most twelve bytes, as for \<open>'\u{10ffff}'\<close> with its quotes.\<close>

definition debug_fits :: "(rchar \<Rightarrow> rstring) \<Rightarrow> bool" where
  "debug_fits dbg \<longleftrightarrow> (\<forall>c. utf8_len (dbg c) \<le> 12)"

lemma from_utf8_nonempty: "bs \<noteq> [] \<Longrightarrow> from_utf8 bs \<noteq> Some []"
  by (subst from_utf8.simps) (auto split: option.splits)

lemma utf8_from_lengths_ok:
  assumes "\<forall>i\<in>set is. 0 < i" "data \<noteq> []"
  shows "\<exists>r. utf8_from_lengths is data = Inr r"
  using assms(1)
proof (induction "is")
  case (Cons i "is")
  with assms(2) have "from_utf8 (take i data) \<noteq> Some []" by (intro from_utf8_nonempty) simp
  with Cons show ?case by (auto split: option.splits list.splits)
qed simp

lemma utf8_into_char_ok: "\<exists>r. utf8_into_char data = Inr r"
proof (cases "data = []")
  case False
  then show ?thesis unfolding utf8_into_char_def Let_def by (intro utf8_from_lengths_ok) auto
qed (simp add: utf8_into_char_def)

lemma from_utf16_nonempty: "us \<noteq> [] \<Longrightarrow> from_utf16 us \<noteq> Some []"
  by (cases us) (auto split: list.splits)

lemma utf16_into_char_ok: "\<exists>r. utf16_into_char data = Inr r"
proof -
  have "\<exists>r. (case cs of c # _ \<Rightarrow> Inr (Inr c) | [] \<Rightarrow> Inl UnwrapNone) = (Inr r :: (rchar + rchar) outcome)"
    if "from_utf16 us = Some cs" "us \<noteq> []" for us cs
    using from_utf16_nonempty [OF that(2)] that(1) by (cases cs) auto
  then show ?thesis
    unfolding utf16_into_char_def Let_def by (auto split: option.splits simp del: from_utf16.simps)
qed

lemma length_print_in: "1 < b \<Longrightarrow> n < b ^ Suc k \<Longrightarrow> length (print_in b n) \<le> Suc k"
proof (induction k arbitrary: n)
  case 0
  then show ?case by (subst print_in.simps) simp
next
  case (Suc k)
  then have "n div b < b ^ Suc k" by (simp add: less_mult_imp_div_less mult.commute)
  with Suc.IH [of "n div b"] Suc.prems(1) show ?case by (subst print_in.simps) simp
qed

lemma make_padding_ok: "n \<le> 64 \<Longrightarrow> make_padding n = Inr (replicate n (ch (CHR '' '')))"
  by (simp add: make_padding_def)

lemma padding_12: "n \<le> 12 \<Longrightarrow> \<exists>pad. make_padding (usize_sub 12 n) = Inr pad"
  by (simp add: usize_sub_def make_padding_def)

lemma u8_digits: "length (print_in 10 (unat (b :: u8))) \<le> 12"
proof -
  have "unat b < 256" using unsigned_less [of b] by simp
  then show ?thesis using length_print_in [of 10 "unat b" 2] by simp
qed

lemma i8_digits: "length (print_int (as_i8 b)) \<le> 12"
proof -
  have "unat b < 256" using unsigned_less [of b] by simp
  then have "nat (as_i8 b) < 1000" "nat (- as_i8 b) < 1000" by (auto simp: as_i8_def simp del: of_nat_unat)
  then have "length (print_in 10 (nat (as_i8 b))) \<le> 3" "length (print_in 10 (nat (- as_i8 b))) \<le> 3"
    using length_print_in [of 10 _ 2] by simp_all
  then show ?thesis by (auto simp: print_int_def)
qed

lemma char_result_fits: "debug_fits dbg \<Longrightarrow> snd (char_result dbg r) \<le> 12"
  by (cases r) (auto simp: char_result_def format_char_def debug_fits_def utf8_len_def len_utf8_def)

lemma line_commands_ok:
  assumes "debug_fits dbg"
  shows "\<exists>cmds. line_commands dbg data line = Inr cmds"
proof -
  obtain r r' where r: "utf8_into_char data = Inr r" "utf16_into_char data = Inr r'"
    using utf8_into_char_ok [of data] utf16_into_char_ok [of data] by blast
  obtain pad where pad: "make_padding (usize_sub 12 (snd (char_result dbg r))) = Inr pad"
    using padding_12 [OF char_result_fits [OF assms]] by blast
  obtain pad2 where pad2: "make_padding (usize_sub 12 (length (print_in 10 (unat b)))) = Inr (pad2 b)" for b :: u8
    using padding_12 [OF u8_digits] by metis
  obtain pad3 where pad3: "make_padding (usize_sub 12 (length (print_int (as_i8 b)))) = Inr (pad3 b)" for b :: u8
    using padding_12 [OF i8_digits] by metis
  show ?thesis
    by (cases "char_result dbg r") (use pad in \<open>simp add: line_commands_def Let_def r pad2 pad3\<close>)
qed

lemma draw_line_ok:
  assumes "debug_fits dbg"
  shows "\<exists>cmds. draw_line dbg bp = Inr (cmds, bp\<lparr>bp_line := Suc (bp_line bp)\<rparr>)"
  using line_commands_ok [OF assms, of "bp_data bp" "bp_line bp"] by (auto simp: draw_line_def)


section \<open>Rows\<close>

text \<open>A row with bytes \<open>bs\<close> can be drawn; the style of a cursor past the end needs room in the row.\<close>

lemma row_commands_ok:
  assumes "0 < hv_bytes_per_line hv" "hv_bytes_per_line hv \<le> 16" "length bs \<le> hv_bytes_per_line hv"
    and "end_cmd \<noteq> None \<Longrightarrow> length bs < hv_bytes_per_line hv"
  shows "\<exists>cmds. row_commands hv row bs marks end_cmd panel = Inr cmds"
proof -
  let ?bpl = "hv_bytes_per_line hv"
  let ?gap = "if bs = [] then ?bpl else usize_sub ?bpl (length bs) mod ?bpl"
  have "usize_sub ?bpl (length bs) mod ?bpl < ?bpl" by (rule mod_less_divisor [OF assms(1)])
  with assms(2) have gap: "?gap \<le> 16" by (auto intro: less_imp_le order_trans)
  have pos: "0 < ?gap" if "end_cmd \<noteq> None"
    using assms(1) assms(4) [OF that] by (cases bs) (auto simp: usize_sub_def)
  have "(case end_cmd of None \<Rightarrow> ?gap * 3 | Some _ \<Rightarrow> usize_sub (?gap * 3) 2) \<le> 64"
    "(case end_cmd of None \<Rightarrow> ?gap + 1 | Some _ \<Rightarrow> usize_sub (?gap + 1) 1) \<le> 64"
    using gap pos by (auto simp: usize_sub_def split: option.splits split del: if_split)
  then show ?thesis unfolding row_commands_def Let_def by (simp add: make_padding_ok split del: if_split)
qed

text \<open>What drawing relies on: lines of sixteen bytes, a screen of at most \<open>u16\<close> rows, an offset at the
  start of a line and inside the data, and sizes far from the border of \<open>usize\<close>.\<close>

definition placed :: "'d hex_view \<Rightarrow> nat \<Rightarrow> bool" where
  "placed hv len \<longleftrightarrow> hv_bytes_per_line hv = 16 \<and> 2 \<le> hv_height hv \<and> hv_height hv < 65536 \<and>
     16 dvd hv_start_offset hv \<and> hv_start_offset hv \<le> len \<and> len \<le> isize_max"

lemma placed_range:
  assumes "placed hv len"
  shows "visible_range hv len = (hv_start_offset hv, min (len + 1) (hv_start_offset hv + (hv_height hv - 1) * 16))"
proof -
  have "(hv_height hv - 1) * 16 < 1048576" using assms unfolding placed_def by linarith
  moreover have "hv_start_offset hv \<le> 9223372036854775807" using assms by (simp add: placed_def isize_max_def)
  moreover have "u16_sub (hv_height hv) 1 = hv_height hv - 1" using assms by (simp add: placed_def u16_sub_def)
  ultimately show ?thesis
    using assms by (simp add: visible_range_def placed_def usize_add_def usize_mul_def usize_modulus_def)
qed

definition row_count :: "'d hex_view \<Rightarrow> nat \<Rightarrow> nat" where
  "row_count hv len = (let v = visible_range hv len in (snd v - fst v + 15) div 16)"

lemma row_count_bounds:
  assumes "placed hv len"
  shows "0 < row_count hv len" "row_count hv len \<le> hv_height hv - 1"
    "k < row_count hv len \<longleftrightarrow> hv_start_offset hv + 16 * k < snd (visible_range hv len)"
proof -
  have h: "1 \<le> hv_height hv - 1" "hv_start_offset hv \<le> len" using assms by (auto simp: placed_def)
  show "0 < row_count hv len" "row_count hv len \<le> hv_height hv - 1"
    "k < row_count hv len \<longleftrightarrow> hv_start_offset hv + 16 * k < snd (visible_range hv len)"
    using h by (auto simp: row_count_def placed_range [OF assms] Let_def min_def)
qed

lemma offset_to_row_ok:
  assumes "placed hv len" "k < hv_height hv"
  shows "offset_to_row (hv_start_offset hv + 16 * k) hv = Inr (Some k)"
  using assms by (auto simp: offset_to_row_def placed_def Let_def as_u16_def)

lemma draw_row_ok:
  assumes "placed hv len" "debug_fits dbg" "k < hv_height hv" "length bs \<le> 16"
    "end_cmd \<noteq> None \<Longrightarrow> length bs < 16"
  shows "\<exists>cmds. draw_row dbg hv bs (hv_start_offset hv + 16 * k) marks end_cmd bp =
    Inr (cmds, bp\<lparr>bp_line := Suc (bp_line bp)\<rparr>)"
proof -
  obtain panel where "draw_line dbg bp = Inr (panel, bp\<lparr>bp_line := Suc (bp_line bp)\<rparr>)"
    using draw_line_ok [OF assms(2)] by blast
  moreover obtain cmds where "row_commands hv k bs marks end_cmd panel = Inr cmds"
    using row_commands_ok [of hv bs end_cmd k marks panel] assms by (auto simp: placed_def)
  ultimately show ?thesis by (simp add: draw_row_def offset_to_row_ok [OF assms(1,3)])
qed

lemma positions_from_map:
  assumes "0 < step"
  shows "a \<le> mx \<Longrightarrow> positions_from a mx step = map (\<lambda>k. a + step * k) [0..<Suc ((mx - a) div step)]"
proof (induction "mx - a" arbitrary: a rule: less_induct)
  case less
  have eq: "positions_from a mx step = a # positions_from (a + step) mx step"
    using less.prems assms by (subst positions_from.simps) simp
  show ?case
  proof (cases "a + step \<le> mx")
    case True
    then have d: "Suc ((mx - (a + step)) div step) = (mx - a) div step"
      using assms le_div_geq [of step "mx - a"] by (simp add: le_diff_conv2)
    have "positions_from (a + step) mx step = map (\<lambda>k. a + step + step * k) [0..<(mx - a) div step]"
      using less.hyps [of "a + step"] True assms by (simp add: d)
    then show ?thesis by (simp add: eq upt_conv_Cons map_Suc_upt [symmetric] del: upt_Suc)
  next
    case False
    then have "(mx - a) div step = 0" using assms by (intro div_less) linarith
    moreover have "positions_from (a + step) mx step = []" using False by (subst positions_from.simps) simp
    ultimately show ?thesis by (simp add: eq)
  qed
qed

lemma step_positions_ok:
  assumes "placed hv len"
  shows "step_positions (hv_start_offset hv) (snd (visible_range hv len)) 16 =
    Inr (map (\<lambda>k. hv_start_offset hv + 16 * k) [0..<row_count hv len])"
proof -
  let ?v = "visible_range hv len"
  have lt: "hv_start_offset hv < snd ?v" using row_count_bounds(1) [OF assms] row_count_bounds(3) [OF assms, of 0] by simp
  moreover have "row_count hv len = Suc ((snd ?v - 1 - hv_start_offset hv) div 16)"
  proof -
    have "fst ?v = hv_start_offset hv" by (simp add: visible_range_def)
    moreover have "(n + 15) div 16 = Suc ((n - 1) div 16)" if "0 < n" for n :: nat using that by (cases n) auto
    moreover have "snd ?v - 1 - hv_start_offset hv = snd ?v - hv_start_offset hv - 1" by simp
    ultimately show ?thesis using lt by (simp only: row_count_def Let_def)
  qed
  ultimately show ?thesis by (simp add: step_positions_def positions_from_map)
qed

text \<open>Which rows of the panel are printed: every round of the loop that draws prints one, and the
  first five rows are always drawn.\<close>

definition panel_rows :: "nat list option \<Rightarrow> bool" where
  "panel_rows rows \<longleftrightarrow> (case rows of None \<Rightarrow> True | Some rs \<Rightarrow> {0..<bp_height} \<subseteq> set rs)"

lemma snd_visible_le: "snd (visible_range hv len) \<le> len + 1"
  by (simp add: visible_range_def)

lemma stop_bounds:
  fixes s e :: nat
  assumes "s + 16 * j < e" "e \<le> len + 1" "c = min len e - s" "m = e - s"
  shows "16 * j \<le> min c (16 * j + 16)" "min c (16 * j + 16) \<le> m"
  using assms by auto

lemma draw_each_ok:
  assumes pl: "placed hv len" and dbg: "debug_fits dbg" and rows: "panel_rows rows"
    and cow: "length cow = min len (snd (visible_range hv len)) - hv_start_offset hv"
    and marks: "length marks = snd (visible_range hv len) - hv_start_offset hv"
    and over: "ok (overflow_cursor_style hv)"
  shows "j \<le> row_count hv len \<Longrightarrow> min bp_height j \<le> bp_line bp \<Longrightarrow>
    \<exists>cmds bp'. draw_each dbg hv rows (hv_start_offset hv) len cow marks bp
        (map (\<lambda>k. hv_start_offset hv + 16 * k) [j..<row_count hv len]) = Inr (cmds, bp') \<and>
      min bp_height (row_count hv len) \<le> bp_line bp'"
proof (induction "row_count hv len - j" arbitrary: j bp)
  case 0
  then show ?case by simp
next
  case (Suc n)
  let ?s = "hv_start_offset hv" and ?k = "row_count hv len"
  have up: "[j..<?k] = j # [Suc j..<?k]" using Suc.hyps(2) by (simp add: upt_conv_Cons)
  have j: "j < ?k" "j < hv_height hv" using Suc.hyps(2) row_count_bounds(2) [OF pl] pl by (auto simp: placed_def)
  have bpl [simp]: "hv_bytes_per_line hv = 16" using pl by (simp add: placed_def)
  obtain sel where sel: "selected_row rows (?s + 16 * j) hv = Inr sel" "j < bp_height \<Longrightarrow> sel"
    using rows offset_to_row_ok [OF pl j(2)] by (cases rows) (fastforce simp: selected_row_def panel_rows_def)+
  show ?case
  proof (cases sel)
    case False
    then have "min bp_height (Suc j) \<le> bp_line bp" using sel(2) Suc.prems(2) by fastforce
    then have "\<exists>cmds bp'. draw_each dbg hv rows ?s len cow marks bp (map (\<lambda>k. ?s + 16 * k) [Suc j..<?k]) = Inr (cmds, bp') \<and>
        min bp_height ?k \<le> bp_line bp'"
      by (intro Suc.hyps(1)) (use Suc.hyps(2) j in auto)
    with False sel(1) show ?thesis unfolding up by simp
  next
    case True
    let ?stop = "min (length cow) (16 * j + 16)" and ?bp = "bp\<lparr>bp_line := Suc (bp_line bp)\<rparr>"
    have stop: "16 * j \<le> ?stop" "?stop \<le> length marks"
      using stop_bounds [OF _ snd_visible_le cow marks, of j] row_count_bounds(3) [OF pl, of j] j(1) by auto
    obtain c where c: "overflow_cursor_style hv = Inr c" using over by (auto simp: ok_iff)
    obtain end_cmd where ec: "(if ?s + 16 * j + 16 > len then overflow_cursor_style hv else Inr None) = Inr end_cmd"
      "end_cmd \<noteq> None \<Longrightarrow> len < ?s + 16 * j + 16"
      by (rule that [of "if ?s + 16 * j + 16 > len then c else None"]) (auto simp: c split: if_splits)
    have short: "length (take (?stop - 16 * j) (drop (16 * j) cow)) \<le> 16"
      "end_cmd \<noteq> None \<Longrightarrow> length (take (?stop - 16 * j) (drop (16 * j) cow)) < 16"
      using ec(2) cow by auto
    obtain cmds where cmds: "draw_row dbg hv (take (?stop - 16 * j) (drop (16 * j) cow)) (?s + 16 * j)
        (take (?stop - 16 * j) (drop (16 * j) marks)) end_cmd bp = Inr (cmds, ?bp)"
      using draw_row_ok [OF pl dbg j(2) short] by blast
    have "\<exists>cmds bp'. draw_each dbg hv rows ?s len cow marks ?bp (map (\<lambda>k. ?s + 16 * k) [Suc j..<?k]) = Inr (cmds, bp') \<and>
        min bp_height ?k \<le> bp_line bp'"
      by (intro Suc.hyps(1)) (use Suc.hyps(2) Suc.prems(2) j in auto)
    moreover have "usize_add (16 * j) 16 = 16 * j + 16" "usize_add (?s + 16 * j) 16 = ?s + 16 * j + 16"
      using pl j(2) by (auto intro!: usize_add_small simp: placed_def isize_max_def usize_modulus_def)
    ultimately show ?thesis using True sel(1) stop ec(1) cmds unfolding up by (auto simp: Let_def)
  qed
qed


text \<open>The loop after the rows: it has \<open>bp_height - bp_line\<close> lines to print, each on a row of its own.\<close>

lemma draw_rest_ok:
  assumes "placed hv len" "debug_fits dbg"
  shows "bp_height - bp_line bp < fuel \<Longrightarrow> k + (bp_height - bp_line bp) \<le> hv_height hv \<Longrightarrow>
    \<exists>cmds. draw_rest dbg hv (hv_start_offset hv + 16 * k) bp fuel = Inr cmds"
proof (induction fuel arbitrary: k bp)
  case (Suc fuel)
  show ?case
  proof (cases "are_all_printed bp")
    case False
    let ?bp = "bp\<lparr>bp_line := Suc (bp_line bp)\<rparr>"
    from False have l: "bp_line bp < bp_height" by (simp add: are_all_printed_def bp_height_def)
    then have "k < hv_height hv" using Suc.prems(2) by linarith
    then obtain cmds where "draw_row dbg hv [] (hv_start_offset hv + 16 * k) [] None bp = Inr (cmds, ?bp)"
      using draw_row_ok [OF assms, of k "[]" None "[]" bp] by auto
    moreover obtain cmds' where "draw_rest dbg hv (hv_start_offset hv + 16 * Suc k) ?bp fuel = Inr cmds'"
      using Suc.IH [of ?bp "Suc k"] Suc.prems l by fastforce
    moreover have "usize_add (hv_start_offset hv + 16 * k) 16 = hv_start_offset hv + 16 * Suc k"
      using assms(1) \<open>k < hv_height hv\<close> by (subst usize_add_small) (auto simp: placed_def isize_max_def usize_modulus_def)
    ultimately show ?thesis using False assms(1) by (simp add: placed_def)
  qed simp
qed simp

lemma rest_offset_rows:
  assumes "placed hv len"
  shows "rest_offset (snd (visible_range hv len)) 16 = hv_start_offset hv + 16 * row_count hv len"
proof -
  obtain q where q: "hv_start_offset hv = 16 * q" using assms by (auto simp: placed_def)
  obtain n where n: "snd (visible_range hv len) = 16 * q + n"
    using row_count_bounds(1) [OF assms] row_count_bounds(3) [OF assms, of 0] q by (auto dest: less_imp_Suc_add)
  have "fst (visible_range hv len) = 16 * q" by (simp add: visible_range_def q)
  then have k: "row_count hv len = (n + 15) div 16" by (simp add: row_count_def n)
  have "(n + 15) div 16 = (if n mod 16 = 0 then n div 16 else n div 16 + 1)"
  proof -
    obtain a b where "n div 16 = a" "n mod 16 = b" "n = 16 * a + b" "b < 16"
      by (metis mod_less_divisor mult_div_mod_eq zero_less_numeral)
    then show ?thesis by (intro div_nat_eqI) auto
  qed
  moreover have "n + 16 * q < 2 ^ 63 + 16" using n snd_visible_le [of hv len] assms by (simp add: placed_def isize_max_def)
  then have "16 * (q + n div 16 + 1) < usize_modulus" by (simp add: usize_modulus_def)
  ultimately show ?thesis
    by (auto simp: rest_offset_def n k q Let_def algebra_simps usize_mul_def usize_add_def)
qed

section \<open>The body\<close>

definition main_caret_shown :: "'d hex_view \<Rightarrow> 'd buffer \<Rightarrow> bool" where
  "main_caret_shown hv buf \<longleftrightarrow>
     (\<forall>r\<in>set (regions (buf_selection buf)). main r \<longrightarrow>
        hv_start_offset hv \<le> caret r \<and> caret r < snd (visible_range hv (length (buf_data buf))))"

lemma current_bytes_ok:
  assumes "placed hv len" "len = length (buf_data buf)" "wf_selection (buf_selection buf)" "main_caret_shown hv buf"
    and "length cow = min len (snd (visible_range hv len)) - hv_start_offset hv"
  shows "\<exists>bs. current_bytes (buf_selection buf) (visible_range hv len) cow = Inr bs \<and> length bs \<le> 4"
proof -
  let ?v = "visible_range hv len"
  have fst [simp]: "fst ?v = hv_start_offset hv" by (simp add: visible_range_def)
  have le: "hv_start_offset hv \<le> snd ?v" using row_count_bounds(1) [OF assms(1)] row_count_bounds(3) [OF assms(1), of 0] by simp
  obtain regs where regs: "regions_in_range (buf_selection buf) (hv_start_offset hv) (snd ?v) = Inr regs"
    "set regs \<subseteq> set (regions (buf_selection buf))"
    using regions_in_range_filter [OF assms(3) le] by auto
  show ?thesis
  proof (cases "find main regs")
    case (Some r)
    then have "main r" "r \<in> set regs" by (auto simp: find_Some_iff)
    with assms(2,4) regs(2) have c: "hv_start_offset hv \<le> caret r" "caret r < snd ?v"
      by (auto simp: main_caret_shown_def)
    have "caret r \<le> isize_max" using c(2) snd_visible_le [of hv len] assms(1) by (simp add: placed_def)
    with c(1) have "usize_sub (caret r) (hv_start_offset hv) = caret r - hv_start_offset hv"
      "usize_add (caret r - hv_start_offset hv) 4 = caret r - hv_start_offset hv + 4"
      by (auto simp: usize_sub_def usize_add_def usize_modulus_def isize_max_def)
    moreover have "caret r - hv_start_offset hv \<le> length cow"
      using c snd_visible_le [of hv len] assms(5) by simp
    ultimately show ?thesis using Some regs(1) by (auto simp: current_bytes_def Let_def)
  qed (simp add: current_bytes_def regs)
qed

lemma overflow_cursor_style_ok:
  "hv_current hv = Inr buf \<Longrightarrow> wf_selection (buf_selection buf) \<Longrightarrow> ok (overflow_cursor_style hv)"
  by (auto simp: overflow_cursor_style_def overflow_sel_style_def wf_selection_def Let_def)

text \<open>Up to the two loops nothing can go wrong.\<close>

lemma draw_body_loops:
  assumes cur: "hv_current hv = Inr buf" and pl: "placed hv (length (buf_data buf))"
    and wf: "wf_selection (buf_selection buf)" and shown: "main_caret_shown hv buf"
  obtains cow marks bs where
    "length cow = min (length (buf_data buf)) (snd (visible_range hv (length (buf_data buf)))) - hv_start_offset hv"
    "length marks = snd (visible_range hv (length (buf_data buf))) - hv_start_offset hv"
    "\<And>dbg rows fuel. draw_body dbg hv rows fuel =
       and_then (draw_each dbg hv rows (hv_start_offset hv) (length (buf_data buf)) cow marks \<lparr>bp_data = bs, bp_line = 0\<rparr>
         (map (\<lambda>k. hv_start_offset hv + 16 * k) [0..<row_count hv (length (buf_data buf))])) (\<lambda>(cmds, bp).
       and_then (draw_rest dbg hv (hv_start_offset hv + 16 * row_count hv (length (buf_data buf))) bp fuel) (\<lambda>cmds'.
         Inr (cmds @ cmds')))"
proof -
  let ?len = "length (buf_data buf)"
  let ?v = "visible_range hv ?len" and ?s = "hv_start_offset hv"
  have fst [simp]: "fst ?v = ?s" by (simp add: visible_range_def)
  have bpl [simp]: "hv_bytes_per_line hv = 16" and s: "?s \<le> ?len" using pl by (simp_all add: placed_def)
  have lt: "?s < snd ?v" using row_count_bounds(1) [OF pl] row_count_bounds(3) [OF pl, of 0] by simp
  let ?cow = "take (snd ?v - ?s) (drop ?s (buf_data buf))"
  have cow: "slice_to_cow (buf_data buf) ?s (snd ?v) = Inr ?cow" using lt s by (simp add: slice_to_cow_def)
  have len: "length ?cow = min ?len (snd ?v) - ?s" by simp
  obtain marks where marks: "mark_commands hv ?v = Inr marks" "length marks = snd ?v - ?s"
    using mark_commands_of [OF cur wf, of ?s "snd ?v"] lt by (metis bpl fst length_map length_upt less_imp_le prod.collapse zero_less_numeral)
  obtain bs where bs: "current_bytes (buf_selection buf) ?v ?cow = Inr bs" "length bs \<le> 4"
    using current_bytes_ok [OF pl refl wf shown len] by blast
  show thesis
    by (rule that [OF len marks(2)])
      (use cur cow marks(1) bs step_positions_ok [OF pl] rest_offset_rows [OF pl] in \<open>simp add: draw_body_def bp_new_def\<close>)
qed

lemma draw_body_ok:
  assumes cur: "hv_current hv = Inr buf" and pl: "placed hv (length (buf_data buf))"
    and wf: "wf_selection (buf_selection buf)" and shown: "main_caret_shown hv buf"
    and dbg: "debug_fits dbg" and rows: "panel_rows rows" and h: "bp_height \<le> hv_height hv" and fuel: "bp_height < fuel"
  shows "\<exists>cmds. draw_body dbg hv rows fuel = Inr cmds"
proof (rule draw_body_loops [OF cur pl wf shown])
  fix cow marks bs
  let ?len = "length (buf_data buf)"
  let ?s = "hv_start_offset hv" and ?k = "row_count hv ?len" and ?bp = "\<lparr>bp_data = bs, bp_line = 0\<rparr>"
  assume cow: "length cow = min ?len (snd (visible_range hv ?len)) - ?s"
    and marks: "length marks = snd (visible_range hv ?len) - ?s"
    and eq: "\<And>dbg rows fuel. draw_body dbg hv rows fuel =
      and_then (draw_each dbg hv rows ?s ?len cow marks ?bp (map (\<lambda>k. ?s + 16 * k) [0..<?k])) (\<lambda>(cmds, bp).
      and_then (draw_rest dbg hv (?s + 16 * ?k) bp fuel) (\<lambda>cmds'. Inr (cmds @ cmds')))"
  obtain cmds bp where each: "draw_each dbg hv rows ?s ?len cow marks ?bp (map (\<lambda>k. ?s + 16 * k) [0..<?k]) = Inr (cmds, bp)"
    "min bp_height ?k \<le> bp_line bp"
    using draw_each_ok [OF pl dbg rows cow marks overflow_cursor_style_ok [OF cur wf], of 0 ?bp] by auto
  have "?k + (bp_height - bp_line bp) \<le> hv_height hv"
    using each(2) h row_count_bounds(2) [OF pl] by linarith
  then obtain cmds' where "draw_rest dbg hv (?s + 16 * ?k) bp fuel = Inr cmds'"
    using draw_rest_ok [OF pl dbg, of bp fuel ?k] fuel by (meson diff_le_self order_le_less_trans)
  with each(1) show ?thesis by (simp add: eq)
qed

section \<open>Drawing\<close>

text \<open>The current buffer has no file, or a file that can be read.\<close>

definition readable :: "'w io \<Rightarrow> 'w \<Rightarrow> 'd buffer \<Rightarrow> bool" where
  "readable io w buf \<longleftrightarrow> (\<forall>p. buf_path buf = Some p \<longrightarrow> (\<exists>contents. reads_file io w p contents))"

lemma load_next_chunk_result:
  assumes "xi_rope X" "readable io w buf"
  shows "\<exists>bs. load_next_chunk X io w n buf = (Inr (bs \<noteq> []), buf\<lparr>buf_data := buf_data buf @ bs\<rparr>) \<and> length bs \<le> n"
proof (cases "buf_path buf")
  case (Some p)
  with assms(2) obtain contents where "reads_file io w p contents" by (auto simp: readable_def)
  then obtain k where k: "k \<le> n" "io_read_at io w p (length (buf_data buf)) n = Inr (take k (drop (length (buf_data buf)) contents))"
    unfolding reads_file_def by blast
  let ?bs = "take k (drop (length (buf_data buf)) contents)"
  show ?thesis
  proof (cases "?bs = []")
    case True
    with k(2) Some show ?thesis by (intro exI [of _ "[]"]) (simp add: load_next_chunk_def)
  next
    case False
    from load_next_chunk_appends [OF assms(1) Some k(2) False] False k(1) show ?thesis
      by (intro exI [of _ ?bs]) simp
  qed
qed (simp add: load_next_chunk_def exI [of _ "[]"])

lemma hv_current_set [simp]: "hv_current hv = Inr buf \<Longrightarrow> hv_current (hv_set_current buf' hv) = Inr buf'"
  by (auto simp: hv_current_def hv_set_current_def current_def set_current_def split: if_splits)

lemma hv_set_current_simps [simp]:
  "hv_size (hv_set_current buf hv) = hv_size hv" "hv_bytes_per_line (hv_set_current buf hv) = hv_bytes_per_line hv"
  "hv_start_offset (hv_set_current buf hv) = hv_start_offset hv" "hv_mode (hv_set_current buf hv) = hv_mode hv"
  "hv_info (hv_set_current buf hv) = hv_info hv" "visible_range (hv_set_current buf hv) n = visible_range hv n"
  "placed (hv_set_current buf hv) n = placed hv n"
  "hv_last_visible_prompt_col (hv_set_current buf hv) = hv_last_visible_prompt_col hv"
  by (simp_all add: hv_set_current_def visible_range_def placed_def)

lemma hv_set_current_same: "hv_current hv = Inr buf \<Longrightarrow> hv_set_current buf hv = hv"
  by (auto simp: hv_current_def hv_set_current_def current_def set_current_def split: if_splits)

lemma ensure_visible_data_ok:
  assumes "xi_rope X" "hv_current hv = Inr buf" "readable io w buf"
  shows "\<exists>bs. ensure_visible_data X io w hv = Inr (hv_set_current (buf\<lparr>buf_data := buf_data buf @ bs\<rparr>) hv) \<and> length bs \<le> 64"
proof (cases "snd (visible_range hv (length (buf_data buf))) > length (buf_data buf)")
  case True
  with load_next_chunk_result [OF assms(1,3), of 64] assms(2) show ?thesis by (auto simp: ensure_visible_data_def)
next
  case False
  with assms(2) show ?thesis
    by (intro exI [of _ "[]"]) (simp add: ensure_visible_data_def hv_set_current_same)
qed

text \<open>More data never takes a visible byte off the screen.\<close>

lemma visible_range_mono: "n \<le> m \<Longrightarrow> snd (visible_range hv n) \<le> snd (visible_range hv m)"
  by (simp add: visible_range_def min.coboundedI1)

lemma main_caret_shown_more:
  "main_caret_shown hv buf \<Longrightarrow> main_caret_shown (hv_set_current buf' hv) (buf\<lparr>buf_data := buf_data buf @ bs\<rparr>)"
  using visible_range_mono [of "length (buf_data buf)" "length (buf_data buf) + length bs" hv]
  by (fastforce simp: main_caret_shown_def)

definition plain_mode :: "mode \<Rightarrow> bool" where
  "plain_mode m \<longleftrightarrow> (case m of Search _ _ _ _ _ \<Rightarrow> False | Command _ _ \<Rightarrow> False | _ \<Rightarrow> True)"

lemma main_cursor_offset_ok:
  "wf_selection s \<Longrightarrow> main_cursor_offset s = Inr (caret (regions s ! main_selection s))"
  by (simp add: main_cursor_offset_def main_region_def wf_selection_def)

lemma draw_statusline_ok:
  assumes "hv_current hv = Inr buf" "wf_selection (buf_selection buf)" "plain_mode (hv_mode hv)"
  shows "\<exists>cmds. draw_statusline hv = Inr (cmds, hv)"
proof -
  obtain t where "offset_text buf = Inr t" using assms(2) by (cases "buf_data buf = []") (auto simp: offset_text_def main_cursor_offset_ok)
  moreover have "prompt hv = Inr ([], hv_last_visible_prompt_col hv)"
    using assms(3) by (simp add: prompt_def plain_mode_def Let_def split: mode.splits)
  ultimately show ?thesis
    using assms(1) by (simp add: draw_statusline_def calculate_powerline_length_def draw_statusline_here_def Let_def)
qed

text \<open>The whole of what \<open>draw\<close> needs of the state, and what it does.\<close>

definition drawable :: "('d, 's, 'b, 'w) host \<Rightarrow> 'w \<Rightarrow> 'd hex_view \<Rightarrow> 'd buffer \<Rightarrow> bool" where
  "drawable H w hv buf \<longleftrightarrow> xi_rope (host_xi H) \<and> debug_fits (host_char_debug H) \<and> readable (host_io H) w buf \<and>
     hv_current hv = Inr buf \<and> wf_selection (buf_selection buf) \<and> plain_mode (hv_mode hv) \<and>
     bp_height \<le> hv_height hv \<and> placed hv (length (buf_data buf) + 64)"

lemma placed_less: "placed hv n \<Longrightarrow> hv_start_offset hv \<le> m \<Longrightarrow> m \<le> n \<Longrightarrow> placed hv m"
  by (simp add: placed_def)

lemma draw_ok:
  assumes "drawable H w hv buf" "hv_start_offset hv \<le> length (buf_data buf)" "main_caret_shown hv buf"
  shows "\<exists>cmds bs rows. draw H w hv =
      Inr (cmds, (hv_set_current (buf\<lparr>buf_data := buf_data buf @ bs\<rparr>) hv)\<lparr>hv_last_visible_rows := rows\<rparr>) \<and> length bs \<le> 64"
proof -
  obtain bs where bs: "ensure_visible_data (host_xi H) (host_io H) w hv =
      Inr (hv_set_current (buf\<lparr>buf_data := buf_data buf @ bs\<rparr>) hv)" "length bs \<le> 64"
    using ensure_visible_data_ok [of "host_xi H" hv buf "host_io H" w] assms(1) unfolding drawable_def by blast
  let ?buf = "buf\<lparr>buf_data := buf_data buf @ bs\<rparr>"
  let ?hv = "hv_set_current ?buf hv"
  have cur: "hv_current ?hv = Inr ?buf" using assms(1) by (simp add: drawable_def)
  have pl: "placed ?hv (length (buf_data ?buf))"
    using assms(1,2) bs(2) by (auto simp: drawable_def intro: placed_less)
  have rest: "wf_selection (buf_selection ?buf)" "debug_fits (host_char_debug H)" "panel_rows None"
    "bp_height \<le> hv_height ?hv" "plain_mode (hv_mode ?hv)"
    using assms(1) by (simp_all add: drawable_def panel_rows_def)
  have "bp_height < rest_fuel ?hv" by (simp add: rest_fuel_def)
  then obtain cmds where cmds: "draw_body (host_char_debug H) ?hv None (rest_fuel ?hv) = Inr cmds"
    using draw_body_ok [OF cur pl rest(1) main_caret_shown_more [OF assms(3)] rest(2,3,4)] by blast
  have cur': "hv_current (?hv\<lparr>hv_last_visible_rows := rows\<rparr>) = Inr ?buf" for rows
    using cur by (simp add: hv_current_def)
  have "\<exists>cmds. draw_statusline (?hv\<lparr>hv_last_visible_rows := rows\<rparr>) = Inr (cmds, ?hv\<lparr>hv_last_visible_rows := rows\<rparr>)" for rows
    by (rule draw_statusline_ok [OF cur' rest(1)]) (use rest(5) in simp)
  then obtain line where line: "\<And>rows. draw_statusline (?hv\<lparr>hv_last_visible_rows := rows\<rparr>) = Inr (line rows, ?hv\<lparr>hv_last_visible_rows := rows\<rparr>)"
    by metis
  show ?thesis using bs cmds cur line by (auto simp: draw_def visible_bytes_def Let_def)
qed

section \<open>Keeping the main caret on the screen\<close>

lemma offset_for_shows:
  assumes "hv_bytes_per_line hv = 16" "2 \<le> hv_height hv" "hv_height hv < 65536" "16 dvd hv_start_offset hv"
    and "pos \<le> len" "len + 64 \<le> isize_max" "hv_start_offset hv \<le> isize_max"
  shows "\<exists>start. offset_for hv len pos = Inr start \<and> 16 dvd start \<and> start \<le> pos \<and>
    pos < snd (visible_range (hv\<lparr>hv_start_offset := start\<rparr>) len)"
proof -
  let ?b = "(hv_height hv - 1) * 16"
  have b: "16 \<le> ?b" "?b < 1048576" using assms(2,3) by linarith+
  have ranges: "visible_range (hv\<lparr>hv_start_offset := start\<rparr>) len = (start, min (len + 1) (start + ?b))"
    if "start \<le> isize_max" for start
    using that b assms(1,2) by (simp add: visible_range_def u16_sub_def usize_add_def usize_mul_def usize_modulus_def isize_max_def)
  have here: "visible_range hv len = (hv_start_offset hv, min (len + 1) (hv_start_offset hv + ?b))"
    using ranges [OF assms(7)] by simp
  have row: "16 dvd pos - pos mod 16" "pos - pos mod 16 \<le> pos" "pos < pos - pos mod 16 + 16"
    by simp_all
  consider "pos < hv_start_offset hv" | "hv_start_offset hv \<le> pos" "pos \<ge> snd (visible_range hv len)"
    | "hv_start_offset hv \<le> pos" "pos < snd (visible_range hv len)" by linarith
  then show ?thesis
  proof cases
    case 1
    then have "offset_for hv len pos = Inr (pos - pos mod 16)"
      using assms(1) by (simp add: offset_for_def here)
    with row b assms(5,6) ranges [of "pos - pos mod 16"] show ?thesis by auto
  next
    case 2
    let ?start = "pos - pos mod 16 + 16 - ?b"
    have "usize_mul (usize_sub (hv_height hv) 1) 16 = ?b" "usize_add (pos - pos mod 16) 16 = pos - pos mod 16 + 16"
      using assms(2,5,6) b by (simp_all add: usize_mul_def usize_sub_def usize_add_def usize_modulus_def isize_max_def)
    with 2 have eq: "offset_for hv len pos = Inr ?start"
      using assms(1) by (auto simp: offset_for_def here)
    have "?start \<le> pos" "pos < ?start + ?b" "?start \<le> isize_max" using row b assms(5,6) by linarith+
    moreover have "16 dvd ?start" using row(1) by (metis dvd_add dvd_diff_nat dvd_refl dvd_triv_right)
    ultimately show ?thesis using eq assms(5) ranges [of ?start] by auto
  next
    case 3
    then have "offset_for hv len pos = Inr (hv_start_offset hv)" by (auto simp: offset_for_def here Let_def)
    with 3 assms(4) show ?thesis by auto
  qed
qed


text \<open>The invariant of the view: a sound selection with one main region, a mode without a prompt, a screen of
  at least five rows whose first byte starts a line, and a file, if any, that can be read.\<close>

definition view_ok :: "('d, 's, 'b, 'w) host \<Rightarrow> 'w \<Rightarrow> 'd hex_view \<Rightarrow> 'd buffer \<Rightarrow> bool" where
  "view_ok H w hv buf \<longleftrightarrow> xi_rope (host_xi H) \<and> debug_fits (host_char_debug H) \<and> readable (host_io H) w buf \<and>
     hv_current hv = Inr buf \<and> sel_ok (length (buf_data buf)) (buf_selection buf) \<and> main_flags (buf_selection buf) \<and>
     plain_mode (hv_mode hv) \<and> hv_bytes_per_line hv = 16 \<and> bp_height \<le> hv_height hv \<and> hv_height hv < 65536 \<and>
     16 dvd hv_start_offset hv \<and> hv_start_offset hv \<le> isize_max \<and> length (buf_data buf) + 64 \<le> isize_max"

lemma view_ok_drawable:
  "view_ok H w hv buf \<Longrightarrow> hv_start_offset hv \<le> length (buf_data buf) \<Longrightarrow> drawable H w hv buf"
  by (auto simp: view_ok_def drawable_def sel_ok_def placed_def bp_height_def)

lemma view_ok_caret:
  assumes "view_ok H w hv buf"
  shows "main_cursor_offset (buf_selection buf) = Inr (caret (regions (buf_selection buf) ! main_selection (buf_selection buf)))"
    and "caret (regions (buf_selection buf) ! main_selection (buf_selection buf)) \<le> length (buf_data buf)"
    and "main r \<Longrightarrow> r \<in> set (regions (buf_selection buf)) \<Longrightarrow> r = regions (buf_selection buf) ! main_selection (buf_selection buf)"
proof -
  let ?s = "buf_selection buf"
  have s: "wf_selection ?s" "in_bounds (length (buf_data buf)) ?s" "main_flags ?s"
    using assms by (simp_all add: view_ok_def sel_ok_def)
  show "main_cursor_offset ?s = Inr (caret (regions ?s ! main_selection ?s))" by (rule main_cursor_offset_ok [OF s(1)])
  show "caret (regions ?s ! main_selection ?s) \<le> length (buf_data buf)"
    using s(1,2) by (simp add: wf_selection_def in_bounds_def)
  show "r = regions ?s ! main_selection ?s" if "main r" "r \<in> set (regions ?s)"
    using s(3) that by (auto simp: main_flags_def in_set_conv_nth)
qed

lemma view_ok_start: "view_ok H w hv buf \<Longrightarrow> 16 dvd start \<Longrightarrow> start \<le> isize_max \<Longrightarrow> view_ok H w (hv\<lparr>hv_start_offset := start\<rparr>) buf"
  by (simp add: view_ok_def hv_current_def)

text \<open>Loading keeps the invariant as long as there is room for another chunk.\<close>

lemma view_ok_more:
  assumes "view_ok H w hv buf" "length (buf_data buf) + length bs + 64 \<le> isize_max"
  shows "view_ok H w ((hv_set_current (buf\<lparr>buf_data := buf_data buf @ bs\<rparr>) hv)\<lparr>hv_last_visible_rows := rows\<rparr>)
    (buf\<lparr>buf_data := buf_data buf @ bs\<rparr>)"
proof -
  have "hv_current hv = Inr buf" using assms(1) by (simp add: view_ok_def)
  from hv_current_set [OF this] assms show ?thesis
    by (auto simp: view_ok_def readable_def sel_ok_def in_bounds_def hv_current_def)
qed

lemma redraw_ok:
  assumes "view_ok H w hv buf"
  shows "\<exists>cmds start bs rows. maybe_update_offset_and_draw H w hv = Inr (cmds,
        (hv_set_current (buf\<lparr>buf_data := buf_data buf @ bs\<rparr>) (hv\<lparr>hv_start_offset := start\<rparr>))\<lparr>hv_last_visible_rows := rows\<rparr>) \<and>
      length bs \<le> 64 \<and> 16 dvd start \<and> main_caret_shown (hv\<lparr>hv_start_offset := start\<rparr>) buf"
proof -
  let ?c = "caret (regions (buf_selection buf) ! main_selection (buf_selection buf))"
  note c = view_ok_caret [OF assms]
  obtain start where start: "offset_for hv (length (buf_data buf)) ?c = Inr start" "16 dvd start" "start \<le> ?c"
    "?c < snd (visible_range (hv\<lparr>hv_start_offset := start\<rparr>) (length (buf_data buf)))"
    using offset_for_shows [of hv ?c "length (buf_data buf)"] assms c(2) by (auto simp: view_ok_def bp_height_def)
  let ?hv = "hv\<lparr>hv_start_offset := start\<rparr>"
  have shown: "main_caret_shown ?hv buf" using c(3) start(3,4) by (auto simp: main_caret_shown_def)
  have le: "start \<le> length (buf_data buf)" using start(3) c(2) by linarith
  then have "view_ok H w ?hv buf" using assms by (intro view_ok_start start(2)) (simp_all add: view_ok_def)
  then have "drawable H w ?hv buf" using le by (intro view_ok_drawable) simp_all
  from draw_ok [OF this _ shown] le obtain cmds bs rows where "draw H w ?hv =
      Inr (cmds, (hv_set_current (buf\<lparr>buf_data := buf_data buf @ bs\<rparr>) ?hv)\<lparr>hv_last_visible_rows := rows\<rparr>)" "length bs \<le> 64"
    by auto
  moreover have "hv_current hv = Inr buf" using assms by (simp add: view_ok_def)
  ultimately show ?thesis using c(1) start(1,2) shown by (auto simp: maybe_update_offset_and_draw_def)
qed

section \<open>Drawing that does not return\<close>

lemma draw_row_line: "draw_row dbg hv bs off marks end_cmd bp = Inr (cmds, bp') \<Longrightarrow> bp_line bp' \<le> Suc (bp_line bp)"
  by (auto simp: draw_row_def draw_line_def and_then_eq_Inr split: option.splits)

lemma draw_each_line:
  "draw_each dbg hv rows s len cow marks bp is = Inr (cmds, bp') \<Longrightarrow> bp_line bp' \<le> bp_line bp + length is"
proof (induction "is" arbitrary: bp cmds)
  case (Cons i "is")
  from Cons.prems show ?case
    by (auto simp: and_then_eq_Inr Let_def split: if_splits dest!: Cons.IH draw_row_line)
qed simp

text \<open>With fewer rows than the panel has lines, the loop after the rows goes below the screen, where
  nothing is printed any more until the offset has gone once around the range of \<open>usize\<close>.\<close>

lemma off_screen:
  assumes pl: "placed hv len" and k: "hv_height hv \<le> k" "k < 2 ^ 60"
  shows "offset_to_row ((hv_start_offset hv + 16 * k) mod usize_modulus) hv = Inr None"
proof (cases "hv_start_offset hv + 16 * k < usize_modulus")
  case True
  then show ?thesis using pl k(1) by (simp add: offset_to_row_def placed_def)
next
  case False
  moreover have "16 * k < usize_modulus" "hv_start_offset hv < usize_modulus"
    using k(2) pl by (simp_all add: usize_modulus_def placed_def isize_max_def)
  ultimately have "(hv_start_offset hv + 16 * k) mod usize_modulus < hv_start_offset hv"
    by (simp add: mod_nat_eqI [of "hv_start_offset hv + 16 * k - usize_modulus"])
  then show ?thesis by (simp add: offset_to_row_def)
qed

lemma draw_rest_hangs:
  assumes pl: "placed hv len" and dbg: "debug_fits dbg" and h: "hv_height hv < bp_height"
  shows "bp_line bp \<le> min k (hv_height hv) \<Longrightarrow> k + fuel \<le> 2 ^ 60 \<Longrightarrow>
    draw_rest dbg hv ((hv_start_offset hv + 16 * k) mod usize_modulus) bp fuel = Inl NoReturn"
proof (induction fuel arbitrary: k bp)
  case (Suc fuel)
  let ?off = "(hv_start_offset hv + 16 * k) mod usize_modulus"
  have unfinished: "\<not> are_all_printed bp" using Suc.prems h by (simp add: are_all_printed_def bp_height_def)
  have "\<exists>cmds bp'. draw_row dbg hv [] ?off [] None bp = Inr (cmds, bp') \<and> bp_line bp' \<le> min (Suc k) (hv_height hv)"
  proof (cases "k < hv_height hv")
    case True
    then have "?off = hv_start_offset hv + 16 * k" using pl by (simp add: placed_def isize_max_def usize_modulus_def)
    then show ?thesis using draw_row_ok [OF pl dbg True, of "[]" None "[]" bp] Suc.prems True by force
  next
    case False
    then show ?thesis using Suc.prems off_screen [OF pl, of k] by (auto simp: draw_row_def)
  qed
  then obtain cmds bp' where row: "draw_row dbg hv [] ?off [] None bp = Inr (cmds, bp')"
    "bp_line bp' \<le> min (Suc k) (hv_height hv)" by blast
  have "usize_add ?off 16 = (hv_start_offset hv + 16 * Suc k) mod usize_modulus"
    by (simp add: usize_add_def mod_simps algebra_simps)
  moreover have "hv_bytes_per_line hv = 16" using pl by (simp add: placed_def)
  ultimately show ?case using row(1) unfinished Suc.IH [OF row(2)] Suc.prems(2) by simp
qed simp


lemma draw_body_hangs:
  assumes cur: "hv_current hv = Inr buf" and pl: "placed hv (length (buf_data buf))"
    and wf: "wf_selection (buf_selection buf)" and shown: "main_caret_shown hv buf"
    and dbg: "debug_fits dbg" and h: "hv_height hv < bp_height"
    and fuel: "fuel + hv_height hv \<le> 2 ^ 60"
  shows "draw_body dbg hv None fuel = Inl NoReturn"
proof (rule draw_body_loops [OF cur pl wf shown])
  fix cow marks bs
  let ?len = "length (buf_data buf)"
  let ?s = "hv_start_offset hv" and ?k = "row_count hv ?len" and ?bp = "\<lparr>bp_data = bs, bp_line = 0\<rparr>"
  assume cow: "length cow = min ?len (snd (visible_range hv ?len)) - ?s"
    and marks: "length marks = snd (visible_range hv ?len) - ?s"
    and eq: "\<And>dbg rows fuel. draw_body dbg hv rows fuel =
      and_then (draw_each dbg hv rows ?s ?len cow marks ?bp (map (\<lambda>k. ?s + 16 * k) [0..<?k])) (\<lambda>(cmds, bp).
      and_then (draw_rest dbg hv (?s + 16 * ?k) bp fuel) (\<lambda>cmds'. Inr (cmds @ cmds')))"
  obtain cmds bp where each: "draw_each dbg hv None ?s ?len cow marks ?bp (map (\<lambda>k. ?s + 16 * k) [0..<?k]) = Inr (cmds, bp)"
    using draw_each_ok [OF pl dbg _ cow marks overflow_cursor_style_ok [OF cur wf], of None 0 ?bp] by (auto simp: panel_rows_def)
  have "bp_line bp \<le> min ?k (hv_height hv)"
    using draw_each_line [OF each] row_count_bounds(2) [OF pl] by simp
  moreover have "?k + fuel \<le> 2 ^ 60" using fuel row_count_bounds(2) [OF pl] by linarith
  moreover have "?k < 65536" "?s \<le> isize_max" using row_count_bounds(2) [OF pl] pl by (auto simp: placed_def)
  then have "?s + 16 * ?k < usize_modulus" by (simp add: isize_max_def usize_modulus_def)
  ultimately show ?thesis using draw_rest_hangs [OF pl dbg h, of bp ?k fuel] each by (simp add: eq)
qed

end
