(* ===== verification/View_Props.thy ===== *)
theory View_Props
  imports View_Safe Search_Safe
begin

text \<open>Properties of the view.\<close>

section \<open>Styles and rows\<close>

text \<open>C22: The loop of \<open>mark_commands\<close>, which walks over the visible bytes with the remaining regions and a
  stack of styles, equals a direct definition: every byte gets the mark determined by the one region
  that contains it and by its column, for every sorted selection.\<close>

theorem mark_commands_exact:
  assumes "hv_current hv = Inr buf" "wf_selection (buf_selection buf)" "0 < hv_bytes_per_line hv" "a \<le> b"
  shows "mark_commands hv (a, b) =
    Inr (map (mark_of (has_half_cursor (hv_mode hv)) (hv_bytes_per_line hv) (regions (buf_selection buf))) [a..<b])"
  by (rule mark_commands_of [OF assms])

definition ref_host :: "(ref_delta, bool list, ref_builder, path \<rightharpoonup> bytes) host" where
  "ref_host = \<lparr>host_xi = ref_xi, host_matcher = naive_matcher, host_io = map_io, host_char_debug = (\<lambda>c. [c]),
     host_term_size = Some (80, 24)\<rparr>"

definition abc_view :: "ref_delta hex_view" where
  "abc_view = \<lparr>hv_buffers = with_current_buffer abc_buffer, hv_size = (80, 24), hv_bytes_per_line = 16,
     hv_start_offset = 0, hv_last_visible_rows = 0, hv_last_visible_prompt_col = 0, hv_mode = normal_new, hv_info = None\<rparr>"

lemma ref_host_ok: "xi_rope (host_xi ref_host)" "debug_fits (host_char_debug ref_host)"
  using ref.xi_rope_axioms by (simp_all add: ref_host_def debug_fits_def utf8_len_def len_utf8_def)

lemma abc_view_simps [simp]:
  "hv_current abc_view = Inr abc_buffer" "hv_bytes_per_line abc_view = 16" "hv_mode abc_view = normal_new"
  "hv_size abc_view = (80, 24)" "hv_start_offset abc_view = 0"
  by (simp_all add: abc_view_def hv_current_def current_def with_current_buffer_def)

lemma abc_buffer_simps [simp]:
  "buf_data abc_buffer = abcdef" "buf_selection abc_buffer = two_carets" "buf_path abc_buffer = None"
  by (simp_all add: abc_buffer_def from_data_and_path_def)

theorem mark_commands_exact_witness:
  "mark_commands abc_view (0, 7) = Inr (map (mark_of False 16 (regions two_carets)) [0..<7])"
  using mark_commands_exact [OF abc_view_simps(1), of 0 7] two_carets_ok
  by (simp add: normal_new_def has_half_cursor_def)

text \<open>C29: The columns of a row: whatever the bytes, at most a line of them, and with or without a cursor past the
  end, a drawn row prints a blank, the bytes in hexadecimal padded to three columns per byte of a full
  line, a separator, the bytes as text padded to one column per byte and one blank, a separator and the
  panel. So the columns of all rows line up.\<close>

theorem row_layout:
  assumes "0 < hv_bytes_per_line hv" "hv_bytes_per_line hv \<le> 16" "length bs \<le> hv_bytes_per_line hv"
    and "end_cmd \<noteq> None \<Longrightarrow> length bs < hv_bytes_per_line hv" "length marks = length bs"
  shows "\<exists>cmds. row_commands hv row bs marks end_cmd panel = Inr cmds \<and>
    printed cmds = str '' '' @
      concat (map (\<lambda>b. hex2 b @ str '' '') bs) @ replicate (3 * (hv_bytes_per_line hv - length bs)) (ch (CHR '' '')) @
      [0x2502, ch (CHR '' '')] @
      concat (map byte_ascii_repr bs) @ replicate (hv_bytes_per_line hv - length bs + 1) (ch (CHR '' '')) @
      [0x2502, ch (CHR '' '')] @ printed panel"
proof -
  let ?bpl = "hv_bytes_per_line hv"
  let ?g = "?bpl - length bs" and ?sp = "ch (CHR '' '')"
  have "usize_sub ?bpl (length bs) mod ?bpl = ?g" if "bs \<noteq> []"
    using that assms(1,3) by (simp add: usize_sub_def)
  then have gap: "(if bs = [] then ?bpl else usize_sub ?bpl (length bs) mod ?bpl) = ?g" by simp
  have pos: "0 < ?g" if "end_cmd \<noteq> None" using assms(4) [OF that] by simp
  have hex: "make_padding (case end_cmd of None \<Rightarrow> ?g * 3 | Some _ \<Rightarrow> usize_sub (?g * 3) 2) =
      Inr (replicate (3 * ?g - (if end_cmd = None then 0 else 2)) ?sp)"
    using assms(2) pos by (auto simp: make_padding_def usize_sub_def split: option.splits)
  have asc: "make_padding (case end_cmd of None \<Rightarrow> ?g + 1 | Some _ \<Rightarrow> usize_sub (?g + 1) 1) =
      Inr (replicate (?g + 1 - (if end_cmd = None then 0 else 1)) ?sp)"
    using assms(2) by (auto simp: make_padding_def usize_sub_def split: option.splits)
  have pads: "[?sp, ?sp] @ replicate (3 * ?g - 2) ?sp = replicate (3 * ?g) ?sp"
    "[?sp] @ replicate ?g ?sp = replicate (?g + 1) ?sp" if "end_cmd \<noteq> None"
  proof -
    have "3 * ?g = Suc (Suc (3 * ?g - 2))" using pos [OF that] by linarith
    then show "[?sp, ?sp] @ replicate (3 * ?g - 2) ?sp = replicate (3 * ?g) ?sp"
      by (metis append_Cons append_Nil replicate_Suc)
  qed simp
  have row: "printed (draw_hex_row (zip bs marks)) = concat (map (\<lambda>b. hex2 b @ str '' '') bs)"
    "printed (draw_ascii_row (zip bs marks)) = concat (map byte_ascii_repr bs)"
    using assms(5) by (induction bs marks rule: list_induct2') (auto simp: draw_hex_row_def draw_ascii_row_def hex2_def str_def)
  show ?thesis
    unfolding row_commands_def Let_def gap hex asc and_then_Inr
    using pads by (cases end_cmd) (auto simp: row draw_separator_def str_def)
qed

theorem row_layout_witness:
  "\<exists>cmds. row_commands abc_view 0 [65, 66] [styling_default, styling_default] (Some styling_default) [] = Inr cmds \<and>
    printed cmds = str '' 41 42 '' @ replicate 42 32 @ [0x2502, 32] @ str ''AB'' @ replicate 15 32 @ [0x2502, 32]"
proof -
  have "hex2 65 = str ''41''" "hex2 66 = str ''42''" "byte_ascii_repr 65 = str ''A''" "byte_ascii_repr 66 = str ''B''"
    "ch (CHR '' '') = 32" "str '' '' = [32]" "str '' 41 42 '' = 32 # str ''41'' @ 32 # str ''42'' @ [32]"
    "str ''AB'' = str ''A'' @ str ''B''"
    by code_simp+
  then show ?thesis
    using row_layout [of abc_view "[65, 66]" "Some styling_default" "[styling_default, styling_default]" 0 "[]"]
    by (simp add: printed.simps)
qed

section \<open>The panel\<close>

text \<open>An encoded character is decoded, however many bytes follow; a proper prefix of it never is.\<close>

lemma utf8_into_char_encoded:
  assumes "is_scalar c"
  shows "utf8_into_char (encode_utf8 c @ rest) = Inr (Inr c)"
proof -
  let ?d = "encode_utf8 c @ rest" and ?n = "length (encode_utf8 c)"
  have n: "0 < ?n" "?n \<le> 4" "?n = len_utf8 c" using length_encode_utf8 [of c] assms by (auto simp: len_utf8_def)
  have skip: "from_utf8 (take i ?d) = None" if "i \<in> set [1..<?n]" for i
  proof -
    have "take i ?d = take i (encode_utf8 c)" "take i (encode_utf8 c) \<noteq> []" using that n(1) by auto
    with utf8_prefix_incomplete [OF assms, of i] that n(3) show ?thesis by (subst from_utf8.simps) simp
  qed
  have hit: "from_utf8 (take ?n ?d) = Some [c]"
    using utf8_first_encode [OF assms, of "[]"] n(1) by (subst from_utf8.simps) (auto simp: from_utf8.simps [of "[]"])
  let ?m = "if length ?d < 4 then length ?d else 4"
  have "?n \<le> ?m" using n(2) by simp
  then have "[1..<Suc ?m] = [1..<?n] @ ?n # [Suc ?n..<Suc ?m]"
    using n(1) upt_append [of 1 ?n "Suc ?m"] upt_conv_Cons [of ?n "Suc ?m"] by (metis Suc_leI le_imp_less_Suc less_imp_le One_nat_def)
  then show ?thesis
    using utf8_from_lengths_skip [of "[1..<?n]" ?d] skip hit by (simp add: utf8_into_char_def Let_def)
qed

lemma utf8_into_char_cut:
  assumes "is_scalar c" "0 < k" "k < length (encode_utf8 c)"
  shows "utf8_into_char (take k (encode_utf8 c)) = Inr (Inl replacement_char)"
proof -
  let ?d = "take k (encode_utf8 c)"
  have n: "length (encode_utf8 c) \<le> 4" "length (encode_utf8 c) = len_utf8 c"
    using length_encode_utf8 [of c] assms(1) by (auto simp: len_utf8_def)
  have "from_utf8 (take i ?d) = None" if "i \<in> set [1..<Suc k]" for i
  proof -
    have "take i ?d = take i (encode_utf8 c)" "take i (encode_utf8 c) \<noteq> []" using that assms(3) by (auto simp: min_def)
    moreover have "0 < i" "i < len_utf8 c" using that assms(3) n(2) by auto
    ultimately show ?thesis using utf8_prefix_incomplete [OF assms(1)] by (subst from_utf8.simps) simp
  qed
  moreover have "(if length ?d < 4 then length ?d else 4) = k" using assms(3) n(1) by simp
  ultimately show ?thesis
    using utf8_from_lengths_skip [of "[1..<Suc k]" ?d "[]"] unfolding utf8_into_char_def Let_def by simp
qed

text \<open>The bytes the panel shows: up to four from the main caret on, cut at the end of what is visible.\<close>

lemma current_bytes_at:
  assumes pl: "placed hv (length (buf_data buf))" and wf: "wf_selection (buf_selection buf)" and flags: "main_flags (buf_selection buf)"
    and shown: "main_caret_shown hv buf" and r: "r \<in> set (regions (buf_selection buf))" "main r"
  defines "v \<equiv> visible_range hv (length (buf_data buf))"
  shows "slice_to_cow (buf_data buf) (fst v) (snd v) = Inr (take (snd v - fst v) (drop (fst v) (buf_data buf)))"
    "current_bytes (buf_selection buf) v (take (snd v - fst v) (drop (fst v) (buf_data buf))) =
      Inr (take (min 4 (snd v - caret r)) (drop (caret r) (buf_data buf)))"
proof -
  let ?s = "hv_start_offset hv" and ?sel = "buf_selection buf" and ?len = "length (buf_data buf)"
  have fst: "fst v = ?s" by (simp add: v_def visible_range_def)
  have c: "?s \<le> caret r" "caret r < snd v" using shown r by (auto simp: main_caret_shown_def v_def)
  have le: "snd v \<le> ?len + 1" using snd_visible_le [of hv ?len] by (simp add: v_def)
  have big: "?len \<le> isize_max" "?s \<le> ?len" using pl by (simp_all add: placed_def)
  show "slice_to_cow (buf_data buf) (fst v) (snd v) = Inr (take (snd v - fst v) (drop (fst v) (buf_data buf)))"
    using c big fst by (simp add: slice_to_cow_def)
  let ?regs = "filter (\<lambda>r. ?s \<le> region_max r \<and> region_min r \<le> snd v) (regions ?sel)"
  have "r \<in> set ?regs" using r(1) c by (auto simp: region_defs)
  moreover have "q = r" if "q \<in> set (regions ?sel)" "main q" for q
    using that flags r by (auto simp: main_flags_def in_set_conv_nth)
  ultimately have "find main ?regs = Some r" using r(2) by (intro find_unique) auto
  moreover have "usize_sub (caret r) ?s = caret r - ?s" "usize_add (caret r - ?s) 4 = caret r - ?s + 4"
    using c le big by (auto simp: usize_sub_def usize_add_def usize_modulus_def isize_max_def)
  ultimately show "current_bytes ?sel v (take (snd v - fst v) (drop (fst v) (buf_data buf))) =
      Inr (take (min 4 (snd v - caret r)) (drop (caret r) (buf_data buf)))"
    using regions_in_range_filter [OF wf, of ?s "snd v"] c le
    by (auto simp: current_bytes_def Let_def fst take_drop min_def add.commute [of 4])
qed

text \<open>C31: The panel decodes UTF-8: with the main caret on the screen, at the first byte of an encoded character, the
  last line of the panel shows that character when all its bytes are visible, and the red replacement character when the
  screen ends inside it. The bytes are the ones \<open>draw\<close> takes from the visible data.\<close>

theorem utf8_panel_roundtrip:
  assumes "is_scalar c" "debug_fits dbg" "placed hv (length (buf_data buf))" "wf_selection (buf_selection buf)"
    and "main_flags (buf_selection buf)" "main_caret_shown hv buf" "r \<in> set (regions (buf_selection buf))" "main r"
    and "take (length (encode_utf8 c)) (drop (caret r) (buf_data buf)) = encode_utf8 c"
  shows "\<exists>cow bs rest. let v = visible_range hv (length (buf_data buf)) in
    slice_to_cow (buf_data buf) (fst v) (snd v) = Inr cow \<and> current_bytes (buf_selection buf) v cow = Inr bs \<and>
    line_commands dbg bs 4 = Inr (draw_text (str '' utf-8: '') DEFAULT_STYLE @
      (if caret r + length (encode_utf8 c) \<le> snd v then draw_text (format_char dbg c) DEFAULT_VALUE_STYLE
       else draw_text [replacement_char] INVALID_DATA_STYLE) @ rest)"
proof -
  let ?v = "visible_range hv (length (buf_data buf))" and ?n = "length (encode_utf8 c)"
  let ?bs = "take (min 4 (snd ?v - caret r)) (drop (caret r) (buf_data buf))"
  note at = current_bytes_at [OF assms(3-8)]
  have n: "0 < ?n" "?n \<le> 4" using length_encode_utf8 [of c] assms(1) by (auto simp: len_utf8_def)
  have pos: "caret r < snd ?v" using assms(6-8) by (auto simp: main_caret_shown_def)
  have char: "utf8_into_char ?bs = Inr (if caret r + ?n \<le> snd ?v then Inr c else Inl replacement_char)"
  proof (cases "caret r + ?n \<le> snd ?v")
    case True
    then have "?n \<le> min 4 (snd ?v - caret r)" using n(2) by simp
    then have "?bs = encode_utf8 c @ take (min 4 (snd ?v - caret r) - ?n) (drop ?n (drop (caret r) (buf_data buf)))"
      by (metis assms(9) le_add_diff_inverse take_add)
    then show ?thesis using True utf8_into_char_encoded [OF assms(1)] by simp
  next
    case False
    then have "?bs = take (snd ?v - caret r) (encode_utf8 c)"
      using n(2) by (subst assms(9) [symmetric]) (simp add: min_def)
    then show ?thesis using False pos utf8_into_char_cut [OF assms(1), of "snd ?v - caret r"] by simp
  qed
  obtain r' where "utf16_into_char ?bs = Inr r'" using utf16_into_char_ok by blast
  moreover obtain pad where "make_padding (usize_sub 12 (snd (char_result dbg
      (if caret r + ?n \<le> snd ?v then Inr c else Inl replacement_char)))) = Inr pad"
    using padding_12 [OF char_result_fits [OF assms(2)]] by blast
  ultimately have "\<exists>rest. line_commands dbg ?bs 4 = Inr (draw_text (str '' utf-8: '') DEFAULT_STYLE @
      (if caret r + ?n \<le> snd ?v then draw_text (format_char dbg c) DEFAULT_VALUE_STYLE
       else draw_text [replacement_char] INVALID_DATA_STYLE) @ rest)"
    using char by (auto simp: line_commands_def char_result_def Let_def split: if_splits)
  with at show ?thesis by (auto simp: Let_def)
qed

text \<open>The euro sign at the caret.\<close>

definition euro_buffer :: "ref_delta buffer" where
  "euro_buffer = (from_data_and_path [0x41, 0xE2, 0x82, 0xAC] None)\<lparr>buf_selection :=
     \<lparr>regions = [\<lparr>caret = 1, tail = 1, main = True\<rparr>], main_selection = 0\<rparr>\<rparr>"

theorem utf8_panel_roundtrip_witness:
  "\<exists>bs rest. current_bytes (buf_selection euro_buffer) (visible_range abc_view 4) [0x41, 0xE2, 0x82, 0xAC] = Inr bs \<and>
    line_commands (host_char_debug ref_host) bs 4 = Inr (draw_text (str '' utf-8: '') DEFAULT_STYLE @
      draw_text (format_char (host_char_debug ref_host) 0x20AC) DEFAULT_VALUE_STYLE @ rest)"
proof -
  have enc: "encode_utf8 0x20AC = [0xE2, 0x82, 0xAC]" "is_scalar 0x20AC" by (simp_all add: encode_utf8_def is_scalar_def)
  let ?r = "\<lparr>caret = 1, tail = 1, main = True\<rparr>"
  have buf: "buf_data euro_buffer = [0x41, 0xE2, 0x82, 0xAC]"
    "buf_selection euro_buffer = \<lparr>regions = [?r], main_selection = 0\<rparr>"
    by (simp_all add: euro_buffer_def from_data_and_path_def)
  have len: "length (buf_data euro_buffer) = 4" by (simp add: buf(1))
  have pl: "placed abc_view (length (buf_data euro_buffer))" by (simp add: placed_def len isize_max_def)
  have range: "visible_range abc_view 4 = (0, 5)" using placed_range [OF pl] by (simp add: len)
  have sel: "wf_selection (buf_selection euro_buffer)" "main_flags (buf_selection euro_buffer)" "main_caret_shown abc_view euro_buffer"
    using range by (simp_all add: buf(2) len wf_selection_def main_flags_def main_caret_shown_def)
  have "?r \<in> set (regions (buf_selection euro_buffer))" "main ?r"
    "take (length (encode_utf8 0x20AC)) (drop (caret ?r) (buf_data euro_buffer)) = encode_utf8 0x20AC" by (simp_all add: buf enc)
  from utf8_panel_roundtrip [OF enc(2) _ pl sel this, of "host_char_debug ref_host"] ref_host_ok show ?thesis
    by (simp add: len range enc) (simp add: buf slice_to_cow_def)
qed

section \<open>Drawing\<close>

text \<open>C19: After a change of the document the view repaints with the main caret on the screen: in a sound state of a
  mode without a prompt, on a terminal of at least five rows and with a readable file, repainting
  returns (no panic, and the loop that prints the panel ends), loads at most 64 bytes at the end of the
  data, and the main caret is among the visible bytes, the first of which starts a line.\<close>

theorem redraw_shows_caret:
  assumes "view_ok H w hv buf"
  shows "\<exists>cmds hv' bs start. maybe_update_offset_and_draw H w hv = Inr (cmds, hv') \<and>
    hv_current hv' = Inr (buf\<lparr>buf_data := buf_data buf @ bs\<rparr>) \<and> length bs \<le> 64 \<and>
    hv_start_offset hv' = start \<and> 16 dvd start \<and>
    start \<le> caret (regions (buf_selection buf) ! main_selection (buf_selection buf)) \<and>
    caret (regions (buf_selection buf) ! main_selection (buf_selection buf)) <
      snd (visible_range hv' (length (buf_data buf @ bs)))"
proof -
  let ?c = "caret (regions (buf_selection buf) ! main_selection (buf_selection buf))"
  obtain cmds start bs rows where red: "maybe_update_offset_and_draw H w hv = Inr (cmds,
        (hv_set_current (buf\<lparr>buf_data := buf_data buf @ bs\<rparr>) (hv\<lparr>hv_start_offset := start\<rparr>))\<lparr>hv_last_visible_rows := rows\<rparr>)"
    "length bs \<le> 64" "16 dvd start" "main_caret_shown (hv\<lparr>hv_start_offset := start\<rparr>) buf"
    using redraw_ok [OF assms] by blast
  let ?hv = "hv_set_current (buf\<lparr>buf_data := buf_data buf @ bs\<rparr>) (hv\<lparr>hv_start_offset := start\<rparr>)"
  have cur: "hv_current (hv\<lparr>hv_start_offset := start\<rparr>) = Inr buf" and s: "wf_selection (buf_selection buf)"
    "main_flags (buf_selection buf)"
    using assms by (simp_all add: view_ok_def hv_current_def sel_ok_def)
  have "start \<le> ?c" "?c < snd (visible_range (hv\<lparr>hv_start_offset := start\<rparr>) (length (buf_data buf)))"
    using red(4) s by (simp_all add: main_caret_shown_def wf_selection_def main_flags_def)
  moreover have "snd (visible_range (hv\<lparr>hv_start_offset := start\<rparr>) (length (buf_data buf))) \<le>
      snd (visible_range (?hv\<lparr>hv_last_visible_rows := rows\<rparr>) (length (buf_data buf @ bs)))"
    using visible_range_mono [of "length (buf_data buf)" "length (buf_data buf @ bs)" "hv\<lparr>hv_start_offset := start\<rparr>"]
    by (simp add: visible_range_def hv_set_current_def)
  moreover have "hv_current (?hv\<lparr>hv_last_visible_rows := rows\<rparr>) = Inr (buf\<lparr>buf_data := buf_data buf @ bs\<rparr>)"
    using hv_current_set [OF cur] by (simp add: hv_current_def)
  ultimately show ?thesis using red(1,2,3) by (intro exI conjI) (assumption | simp | linarith)+
qed

lemma abc_view_ok: "view_ok ref_host w abc_view abc_buffer"
  using ref_host_ok two_carets_ok
  by (auto simp: view_ok_def readable_def sel_ok_def main_flags_def two_carets_def abcdef_def plain_mode_def normal_new_def
      bp_height_def isize_max_def less_Suc_eq nth_Cons')

theorem redraw_shows_caret_witness:
  "\<exists>cmds hv'. maybe_update_offset_and_draw ref_host Map.empty abc_view = Inr (cmds, hv')"
  using redraw_shows_caret [OF abc_view_ok] by blast

text \<open>C38: On a terminal of two to four rows drawing hangs: the loop that prints the five lines of the panel runs
  off the screen, where \<open>draw_row\<close> returns without printing, and it is still running after any number of rounds
  up to \<open>2 ^ 60\<close> less the rows of the terminal. The row offset has then gone through the whole range of \<open>usize\<close>
  (in a build without overflow checks; with them the addition panics before).\<close>

theorem small_terminal_hangs:
  assumes "xi_rope (host_xi H)" "debug_fits (host_char_debug H)" "readable (host_io H) w buf" "hv_current hv = Inr buf"
    and "wf_selection (buf_selection buf)" "placed hv (length (buf_data buf) + 64)" "hv_start_offset hv \<le> length (buf_data buf)"
    and "main_caret_shown hv buf" "hv_height hv < 5"
  shows "\<exists>hv'. ensure_visible_data (host_xi H) (host_io H) w hv = Inr hv' \<and>
    (\<forall>fuel\<le>2 ^ 60 - hv_height hv. draw_body (host_char_debug H) hv' None fuel = Inl NoReturn)"
proof -
  obtain bs where bs: "ensure_visible_data (host_xi H) (host_io H) w hv =
      Inr (hv_set_current (buf\<lparr>buf_data := buf_data buf @ bs\<rparr>) hv)" "length bs \<le> 64"
    using ensure_visible_data_ok [OF assms(1,4,3)] by blast
  let ?buf = "buf\<lparr>buf_data := buf_data buf @ bs\<rparr>"
  have "placed hv (length (buf_data buf) + length bs)" using assms(6,7) bs(2) by (auto intro: placed_less)
  then have "draw_body (host_char_debug H) (hv_set_current ?buf hv) None fuel = Inl NoReturn"
    if "fuel \<le> 2 ^ 60 - hv_height hv" for fuel
    by (intro draw_body_hangs [of _ ?buf] main_caret_shown_more)
      (use assms hv_current_set [OF assms(4)] that in \<open>simp_all add: bp_height_def\<close>)
  with bs(1) show ?thesis by blast
qed

theorem small_terminal_hangs_witness:
  "\<exists>hv'. ensure_visible_data ref_xi map_io Map.empty (abc_view\<lparr>hv_size := (80, 4)\<rparr>) = Inr hv' \<and>
    (\<forall>fuel\<le>2 ^ 60 - 4. draw_body (host_char_debug ref_host) hv' None fuel = Inl NoReturn)"
proof -
  let ?hv = "abc_view\<lparr>hv_size := (80, 4)\<rparr>"
  have "hv_current ?hv = Inr abc_buffer" using abc_view_simps(1) by (simp add: hv_current_def)
  moreover have "placed ?hv (length abcdef + 64)" by (simp add: placed_def abcdef_def isize_max_def)
  moreover from this have "placed ?hv (length abcdef)" by (rule placed_less) simp_all
  then have "main_caret_shown ?hv abc_buffer"
    by (auto simp: main_caret_shown_def placed_range two_carets_def abcdef_def)
  ultimately show ?thesis
    using small_terminal_hangs [of ref_host Map.empty abc_buffer ?hv] ref_host_ok two_carets_ok
    by (simp add: readable_def ref_host_def)
qed

text \<open>C39: A \<open>Resize\<close> event repaints without moving the view: when the main region begins at or above the first byte below the
  new last drawn row and its caret is beyond that byte, drawing slices the visible bytes beyond their end and panics.\<close>

theorem resize_panics:
  assumes "hv_current hv = Inr buf" "sel_ok (length (buf_data buf)) (buf_selection buf)" "main_flags (buf_selection buf)"
    and "placed (hv\<lparr>hv_size := (x, y)\<rparr>) (length (buf_data buf))" "r \<in> set (regions (buf_selection buf))" "main r"
    and "hv_start_offset hv + (y - 1) * 16 < caret r" "tail r \<le> hv_start_offset hv + (y - 1) * 16"
  shows "handle_event_default H w (Resize x y) hv = Inl IndexOutOfBounds"
proof -
  let ?hv = "hv\<lparr>hv_size := (x, y)\<rparr>" and ?len = "length (buf_data buf)" and ?s = "hv_start_offset hv"
  let ?e = "?s + (y - 1) * 16" and ?sel = "buf_selection buf"
  have wf: "wf_selection ?sel" and c: "caret r \<le> ?len" using assms(2,5) by (auto simp: sel_ok_def in_bounds_def)
  have v: "visible_range ?hv ?len = (?s, ?e)" using placed_range [OF assms(4)] c assms(7) by simp
  have cur: "hv_current ?hv = Inr buf" using assms(1) by (simp add: hv_current_def)
  have load: "ensure_visible_data X io w ?hv = Inr ?hv" for X io
    using cur v c assms(7) by (simp add: ensure_visible_data_def)
  have bpl: "hv_bytes_per_line hv = 16" and se: "?s < ?e" and big: "?len \<le> isize_max"
    using assms(4) by (auto simp: placed_def)
  let ?regs = "filter (\<lambda>r. ?s \<le> region_max r \<and> region_min r \<le> ?e) (regions ?sel)"
  have "r \<in> set ?regs" using assms(5,7,8) by (auto simp: region_defs)
  moreover have "q = r" if "q \<in> set (regions ?sel)" "main q" for q
    using that assms(3,5,6) by (auto simp: main_flags_def in_set_conv_nth)
  ultimately have found: "find main ?regs = Some r"
    using assms(6) by (intro find_unique) auto
  have sub: "usize_sub (caret r) ?s = caret r - ?s" "usize_add (caret r - ?s) 4 = caret r - ?s + 4"
    using assms(7) c big by (auto simp: usize_sub_def usize_add_def usize_modulus_def isize_max_def)
  have "mark_commands ?hv (?s, ?e) = Inr (map (mark_of (has_half_cursor (hv_mode ?hv)) 16 (regions ?sel)) [?s..<?e])"
    using mark_commands_of [OF cur wf _ less_imp_le [OF se]] bpl by simp
  moreover have "current_bytes ?sel (?s, ?e) (take (?e - ?s) (drop ?s (buf_data buf))) = Inl IndexOutOfBounds"
    using regions_in_range_filter [OF wf less_imp_le [OF se]] found sub c assms(7)
    by (simp add: current_bytes_def Let_def) linarith
  ultimately have "draw_body dbg ?hv None fuel = Inl IndexOutOfBounds" for dbg fuel
    using cur v se c assms(7) by (simp add: draw_body_def slice_to_cow_def)
  then show ?thesis by (simp add: handle_event_default_def draw_def load)
qed

definition long_view :: "ref_delta hex_view" where
  "long_view = abc_view\<lparr>hv_buffers := with_current_buffer (abc_buffer\<lparr>buf_data := replicate 200 0,
     buf_selection := \<lparr>regions = [\<lparr>caret = 150, tail = 0, main = True\<rparr>], main_selection = 0\<rparr>\<rparr>)\<rparr>"

theorem resize_panics_witness: "handle_event_default ref_host Map.empty (Resize 80 6) long_view = Inl IndexOutOfBounds"
proof -
  let ?r = "\<lparr>caret = 150, tail = 0, main = True\<rparr>"
  let ?buf = "abc_buffer\<lparr>buf_data := replicate 200 0, buf_selection := \<lparr>regions = [?r], main_selection = 0\<rparr>\<rparr>"
  have "hv_current long_view = Inr ?buf" by (simp add: long_view_def hv_current_def current_def with_current_buffer_def)
  moreover have "placed (long_view\<lparr>hv_size := (80, 6)\<rparr>) 200" "hv_start_offset long_view = 0"
    by (simp_all add: placed_def long_view_def isize_max_def)
  moreover have "sel_ok 200 \<lparr>regions = [?r], main_selection = 0\<rparr>" "main_flags \<lparr>regions = [?r], main_selection = 0\<rparr>"
    by (simp_all add: sel_ok_def wf_selection_def in_bounds_def main_flags_def)
  ultimately show ?thesis using resize_panics [of long_view ?buf 80 6 ?r] by simp
qed


section \<open>The window of the file\<close>

lemma trim_buffer_top_drops:
  assumes "hv_current hv = Inr buf" "0 < c" "2 * c < length (buf_data buf)" "length (buf_data buf) \<le> isize_max"
  shows "trim_buffer_top c hv = Inr ((hv_set_current (buf\<lparr>buf_data := drop c (buf_data buf)\<rparr>) hv)
    \<lparr>hv_start_offset := hv_start_offset hv - c\<rparr>)"
  using assms
  by (simp add: trim_buffer_top_def slice_to_cow_def usize_mul_def usize_modulus_def isize_max_def mult.commute Let_def)

text \<open>C37: Trimming the front of the buffer breaks the correspondence with the file. The next chunk is read from the
  file at the offset given by the length of the data, which trimming made shorter: for a buffer holding
  the first \<open>n\<close> bytes, the load after trimming \<open>c\<close> bytes appends again the bytes of the file from \<open>n - c\<close> on,
  which the buffer already has. The selection keeps its offsets, which now mean other bytes.\<close>

theorem trim_repeats_bytes:
  assumes "xi_rope X" "hv_current hv = Inr buf" "buf_path buf = Some p" "reads_file io w p contents"
    and "buf_data buf = take n contents" "n \<le> length contents" "n \<le> isize_max" "0 < c" "2 * c < n" "0 < m"
  shows "\<exists>hv1 buf1 k. trim_buffer_top c hv = Inr hv1 \<and> hv_current hv1 = Inr buf1 \<and>
    buf_data buf1 = drop c (take n contents) \<and> buf_selection buf1 = buf_selection buf \<and> 0 < k \<and> k \<le> m \<and>
    load_next_chunk X io w m buf1 = (Inr True, buf1\<lparr>buf_data := drop c (take n contents) @ take k (drop (n - c) contents)\<rparr>)"
proof -
  let ?buf1 = "buf\<lparr>buf_data := drop c (take n contents)\<rparr>"
  let ?hv1 = "(hv_set_current ?buf1 hv)\<lparr>hv_start_offset := hv_start_offset hv - c\<rparr>"
  have trim: "trim_buffer_top c hv = Inr ?hv1"
    using trim_buffer_top_drops [OF assms(2,8)] assms(5,6,7,9) by simp
  have cur: "hv_current ?hv1 = Inr ?buf1" using hv_current_set [OF assms(2)] by (simp add: hv_current_def)
  have len: "length (buf_data ?buf1) = n - c" "n - c < length contents" using assms(6,8,9) by simp_all
  obtain k where k: "k \<le> m" "io_read_at io w p (n - c) m = Inr (take k (drop (n - c) contents))" "0 < k"
    using assms(4,10) len(2) unfolding reads_file_def by blast
  have "load_next_chunk X io w m ?buf1 = (Inr True, ?buf1\<lparr>buf_data := buf_data ?buf1 @ take k (drop (n - c) contents)\<rparr>)"
    by (rule load_next_chunk_appends [OF assms(1), of _ p]) (use assms(3) k len in simp_all)
  with trim cur k show ?thesis by (intro exI [of _ ?hv1] exI [of _ ?buf1] exI [of _ k]) simp
qed

definition file_view :: "bytes \<Rightarrow> ref_delta hex_view" where
  "file_view bs = abc_view\<lparr>hv_buffers := with_current_buffer (from_data_and_path bs (Some [102]))\<rparr>"

lemma file_view_simps [simp]:
  "hv_current (file_view bs) = Inr (from_data_and_path bs (Some [102]))" "hv_size (file_view bs) = (80, 24)"
  "hv_bytes_per_line (file_view bs) = 16" "hv_start_offset (file_view bs) = 0"
  by (simp_all add: file_view_def hv_current_def current_def with_current_buffer_def)

theorem trim_repeats_bytes_witness:
  "\<exists>hv1 buf1 k. trim_buffer_top 2 (file_view [1, 2, 3, 4, 5]) = Inr hv1 \<and> hv_current hv1 = Inr buf1 \<and> 0 < k \<and>
    load_next_chunk ref_xi map_io [[102] \<mapsto> [1, 2, 3, 4, 5, 6, 7]] 4 buf1 =
      (Inr True, buf1\<lparr>buf_data := [3, 4, 5] @ take k [4, 5, 6, 7]\<rparr>)"
  using trim_repeats_bytes [OF ref.xi_rope_axioms, of "file_view [1, 2, 3, 4, 5]" "from_data_and_path [1, 2, 3, 4, 5] (Some [102])"
      "[102]" map_io "[[102] \<mapsto> [1, 2, 3, 4, 5, 6, 7]]" "[1, 2, 3, 4, 5, 6, 7]" 5 2 4]
    map_io_reads [of "[[102] \<mapsto> [1, 2, 3, 4, 5, 6, 7]]" "[102]" "[1, 2, 3, 4, 5, 6, 7]"]
  by (auto simp: from_data_and_path_def isize_max_def)

text \<open>Scrolling down over a trim skips bytes: \<open>scroll_down\<close> goes to the position it computed before trimming, so
  what it shows first is not the next line but a chunk further, and selection and history still speak
  of the old positions.\<close>

theorem scroll_trim_skips:
  assumes "hv_current hv = Inr buf" "load_next_chunk (host_xi H) (host_io H) w 64 buf = (Inr True, buf')"
    and "chunk_size_for (host_term_size H) = c" "0 < c" "3 * c < length (buf_data buf')" "length (buf_data buf') \<le> isize_max"
    and "usize_add pos (usize_mul (hv_height hv) (hv_bytes_per_line hv)) > length (buf_data buf)"
  shows "\<exists>hv1 buf1. scroll_load H w pos hv = Inr (Some hv1) \<and> hv_current hv1 = Inr buf1 \<and>
    drop pos (buf_data buf1) = drop (pos + c) (buf_data buf') \<and>
    buf_selection buf1 = buf_selection buf \<and> buf_history buf1 = buf_history buf"
proof -
  let ?hv = "hv_set_current buf' hv"
  let ?buf1 = "buf'\<lparr>buf_data := drop c (buf_data buf')\<rparr>"
  let ?hv1 = "(hv_set_current ?buf1 ?hv)\<lparr>hv_start_offset := hv_start_offset ?hv - c\<rparr>"
  have cur: "hv_current ?hv = Inr buf'" by (rule hv_current_set [OF assms(1)])
  have "should_trim_buffer (host_term_size H) ?hv = Inr True"
    using cur assms(3,5,6) by (simp add: should_trim_buffer_def usize_mul_def usize_modulus_def isize_max_def mult.commute)
  moreover have "trim_buffer_top c ?hv = Inr ?hv1"
    using trim_buffer_top_drops [OF cur assms(4)] assms(5,6) by simp
  ultimately have "scroll_load H w pos hv = Inr (Some ?hv1)"
    using assms(1,2,3,4,7) by (simp add: scroll_load_def Let_def)
  moreover have "hv_current ?hv1 = Inr ?buf1" using hv_current_set [OF cur] by (simp add: hv_current_def)
  moreover have "buf_selection buf' = buf_selection buf" "buf_history buf' = buf_history buf"
    using assms(2) by (auto simp: load_next_chunk_def Let_def split: option.splits sum.splits if_splits)
  ultimately show ?thesis by (intro exI [of _ ?hv1] exI [of _ ?buf1]) (simp add: add.commute)
qed

theorem scroll_trim_skips_witness:
  "\<exists>hv1 buf1. scroll_load (ref_host\<lparr>host_term_size := Some (80, 2)\<rparr>) [[102] \<mapsto> replicate 60 1 @ replicate 40 2] 16
      (file_view (replicate 60 1)) = Inr (Some hv1) \<and>
    hv_current hv1 = Inr buf1 \<and> drop 16 (buf_data buf1) = replicate 28 1 @ replicate 40 2"
proof -
  let ?H = "ref_host\<lparr>host_term_size := Some (80, 2)\<rparr>" and ?w = "[[102] \<mapsto> replicate 60 1 @ replicate 40 2] :: path \<rightharpoonup> bytes"
  let ?b = "from_data_and_path (replicate 60 1) (Some [102]) :: ref_delta buffer"
  have load: "load_next_chunk (host_xi ?H) (host_io ?H) ?w 64 ?b = (Inr True, ?b\<lparr>buf_data := buf_data ?b @ replicate 40 2\<rparr>)"
    unfolding ref_host_def host.simps
    by (rule load_next_chunk_appends [OF ref.xi_rope_axioms, of _ "[102]"]) (simp_all add: from_data_and_path_def map_io_def)
  have "chunk_size_for (host_term_size ?H) = 16"
    by (simp add: chunk_size_for_def usize_mul_def usize_sub_def usize_modulus_def)
  moreover have "usize_add 16 (usize_mul 24 16) = 400" by (simp add: usize_add_def usize_mul_def usize_modulus_def)
  ultimately show ?thesis
    using scroll_trim_skips [OF _ load, of "file_view (replicate 60 1)" 16 16]
    by (auto simp: from_data_and_path_def isize_max_def)
qed

end
