(* ===== verification/File_Props.thy ===== *)
theory File_Props
  imports View_Props
begin

text \<open>Properties that span the command line, the buffers and the file system.\<close>

section \<open>Saving\<close>

text \<open>Which file a path names is up to the file system: two paths may name one file (\<open>a\<close> and \<open>./a\<close>, links). A
  successful \<open>fs::write\<close> is seen through every path of the file that was written and through no other path.\<close>

definition writes_files :: "'w io \<Rightarrow> (path \<Rightarrow> 'f) \<Rightarrow> bool" where
  "writes_files io file \<longleftrightarrow>
     (\<forall>w p bs q.
        (file q = file p \<longrightarrow> (\<forall>w'. io_write io w p bs = (Inr (), w') \<longrightarrow> io_read_all io w' q = Inr bs)) \<and>
        (file q \<noteq> file p \<longrightarrow> io_read_all io (snd (io_write io w p bs)) q = io_read_all io w q))"

lemma map_io_writes_files: "writes_files map_io (\<lambda>p. p)"
  by (simp add: writes_files_def map_io_def)

definition on_file :: "(path \<Rightarrow> 'f) \<Rightarrow> path \<Rightarrow> 'd buffer \<Rightarrow> bool" where
  "on_file file q buf \<longleftrightarrow> (case buf_path buf of Some p \<Rightarrow> file p = file q | None \<Rightarrow> False)"

lemma on_file_simps [simp]:
  "buf_path buf = None \<Longrightarrow> \<not> on_file file q buf" "buf_path buf = Some p \<Longrightarrow> on_file file q buf \<longleftrightarrow> file p = file q"
  by (simp_all add: on_file_def)

lemma slice_whole: "slice_to_cow bs 0 (length bs) = Inr bs"
  by (simp add: slice_to_cow_def)

lemma write_bufs_reads:
  assumes "writes_files io file" "write_bufs io w bufs = Inr (None, bufs', w')"
  shows "io_read_all io w' q =
    (if filter (on_file file q) bufs = [] then io_read_all io w q else Inr (buf_data (last (filter (on_file file q) bufs))))"
  using assms(2)
proof (induction bufs arbitrary: w bufs')
  case (Cons buf bufs)
  show ?case
  proof (cases "buf_path buf")
    case None
    with Cons.prems obtain bufs1 where "write_bufs io w bufs = Inr (None, bufs1, w')" by (auto simp: and_then_eq_Inr)
    from Cons.IH [OF this] None show ?thesis by simp
  next
    case (Some p)
    obtain r w1 where w1: "io_write io w p (buf_data buf) = (r, w1)" by force
    with Cons.prems Some obtain bufs1 where r: "r = Inr ()" "write_bufs io w1 bufs = Inr (None, bufs1, w')"
      by (cases r) (auto simp: slice_whole and_then_eq_Inr)
    have "io_read_all io w1 q = (if file p = file q then Inr (buf_data buf) else io_read_all io w q)"
      using assms(1) w1 r(1) unfolding writes_files_def by (metis snd_conv)
    with Cons.IH [OF r(2)] Some show ?thesis by simp
  qed
qed simp

lemma write_bufs_clean:
  assumes "write_bufs io w bufs = Inr (None, bufs', w')"
  shows "(\<forall>buf\<in>set bufs'. buf_path buf = None \<or> \<not> buf_dirty buf) \<and> map buf_data bufs' = map buf_data bufs"
  using assms
proof (induction bufs arbitrary: w bufs')
  case (Cons buf bufs)
  show ?case
  proof (cases "buf_path buf")
    case None
    with Cons.prems obtain bufs1 where "write_bufs io w bufs = Inr (None, bufs1, w')" "bufs' = buf # bufs1"
      by (auto simp: and_then_eq_Inr)
    with Cons.IH None show ?thesis by simp
  next
    case (Some p)
    obtain r w1 where w1: "io_write io w p (buf_data buf) = (r, w1)" by force
    with Cons.prems Some obtain bufs1 where "write_bufs io w1 bufs = Inr (None, bufs1, w')" "bufs' = buf\<lparr>buf_dirty := False\<rparr> # bufs1"
      by (cases r) (auto simp: slice_whole and_then_eq_Inr)
    with Cons.IH show ?thesis by simp
  qed
qed simp

text \<open>C24: \<open>:wq\<close> quits only when everything is saved: if it leads to quitting, no buffer with a path is dirty any
  more, the buffers' bytes are unchanged, and the path of every buffer reads as the bytes of the last buffer of the list
  whose path names that file. So a buffer is saved unless a later one is on the same file, whose bytes then win.\<close>

theorem write_quit_saves:
  assumes "writes_files io file" "write_quit io w bc = Inr ((NewMode Quitting, bc'), w')"
  shows "(\<forall>buf\<in>set (buf_list bc). \<forall>p. buf_path buf = Some p \<longrightarrow>
      io_read_all io w' p = Inr (buf_data (last (filter (on_file file p) (buf_list bc))))) \<and>
    (\<forall>buf\<in>set (buf_list bc'). buf_path buf = None \<or> \<not> buf_dirty buf) \<and>
    map buf_data (buf_list bc') = map buf_data (buf_list bc)"
proof -
  obtain e bufs' where "write_bufs io w (buf_list bc) = Inr (e, bufs', w')" "bc' = bc\<lparr>buf_list := bufs'\<rparr>"
    "(case e of Some err \<Rightarrow> write_failed err | None \<Rightarrow> NewMode Quitting) = NewMode Quitting"
    using assms(2) by (auto simp: write_quit_def and_then_eq_Inr)
  moreover have "write_failed err \<noteq> NewMode Quitting" for err
    by (cases err) (simp add: write_failed_def)
  ultimately have w: "write_bufs io w (buf_list bc) = Inr (None, bufs', w')" "bc' = bc\<lparr>buf_list := bufs'\<rparr>"
    by (auto split: option.splits)
  have "filter (on_file file p) (buf_list bc) \<noteq> []" if "buf \<in> set (buf_list bc)" "buf_path buf = Some p" for buf p
    using that by (force simp: filter_empty_conv)
  with write_bufs_reads [OF assms(1) w(1)] write_bufs_clean [OF w(1)] w(2) show ?thesis by auto
qed

text \<open>Two buffers on the file \<open>f\<close> and one on \<open>g\<close>: only the second one is found in \<open>f\<close> afterwards.\<close>

definition three_files :: "ref_delta buffr_collection" where
  "three_files = (with_current_buffer (from_data_and_path [1, 2] (Some [102])))\<lparr>buf_list :=
     [from_data_and_path [1, 2] (Some [102]), from_data_and_path [3] (Some [103]), from_data_and_path [4] (Some [102])]\<rparr>"

theorem write_quit_saves_witness:
  "\<exists>bc' w'. write_quit map_io [[102] \<mapsto> abcdef] three_files = Inr ((NewMode Quitting, bc'), w') \<and>
     io_read_all map_io w' [102] = Inr [4] \<and> io_read_all map_io w' [103] = Inr [3]"
proof -
  obtain bc' w' where w: "write_quit map_io [[102] \<mapsto> abcdef] three_files = Inr ((NewMode Quitting, bc'), w')"
    by (simp add: write_quit_def three_files_def from_data_and_path_def map_io_def slice_to_cow_def)
  from write_quit_saves [OF map_io_writes_files w] w show ?thesis
    by (auto simp: three_files_def from_data_and_path_def on_file_def)
qed

section \<open>A file longer than the first chunk\<close>

lemma finish_write: "finish io w (str ''w'') bc = write_current io w [] bc"
proof -
  have w: "takeWhile (\<lambda>c. c \<noteq> ch (CHR '' '')) (str ''w'') = str ''w''"
    "map_of default_commands (str ''w'') = Some HWrite" "drop (length (str ''w'')) (str ''w'') = []"
    by code_simp+
  show ?thesis unfolding finish_def Let_def w by (simp add: w(2) handle_command_def)
qed

lemma write_fresh:
  assumes "write_current io w [] (with_current_buffer (from_data_and_path bs (Some p))) = Inr ((NewMode normal_new, bc'), w')"
  shows "io_write io w p bs = (Inr (), w')"
  using assms
  by (auto simp: write_current_def current_def with_current_buffer_def from_data_and_path_def slice_whole
      write_failed_def split: prod.splits sum.splits io_error.splits)

lemma draw_buffers:
  assumes "draw H w hv = Inr (cmds, hv')"
  shows "\<exists>hv1. ensure_visible_data (host_xi H) (host_io H) w hv = Inr hv1 \<and> hv_buffers hv' = hv_buffers hv1"
  using assms by (auto simp: draw_def draw_statusline_def and_then_eq_Inr Let_def)

lemma ensure_visible_data_prefix:
  fixes hv :: "'d hex_view"
  assumes "xi_rope X" "reads_file io w p contents"
    and "hv_buffers hv = with_current_buffer (from_data_and_path (take k contents) (Some p))"
    and "ensure_visible_data X io w hv = Inr hv1"
  shows "\<exists>k'\<le>k + 64. hv_buffers hv1 = with_current_buffer (from_data_and_path (take k' contents) (Some p))"
proof -
  let ?b = "from_data_and_path (take k contents) (Some p) :: 'd buffer"
  let ?n = "length (take k contents)"
  have cur: "hv_current hv = Inr ?b" by (simp add: hv_current_def assms(3) current_def with_current_buffer_def)
  have b: "buf_path ?b = Some p" "buf_data ?b = take k contents" by (simp_all add: from_data_and_path_def)
  have keep: "\<exists>k'\<le>k + 64. hv_buffers hv = with_current_buffer (from_data_and_path (take k' contents) (Some p))"
    using assms(3) by (intro exI [of _ k]) simp
  obtain j where j: "j \<le> 64" "io_read_at io w p ?n 64 = Inr (take j (drop ?n contents))"
    using assms(2) unfolding reads_file_def by blast
  have app: "take k contents @ take j (drop ?n contents) = take (?n + j) contents"
    by (metis append_eq_conv_conj append_take_drop_id take_add)
  show ?thesis
  proof (cases "snd (visible_range hv ?n) > ?n \<and> take j (drop ?n contents) \<noteq> []")
    case True
    have load: "load_next_chunk X io w 64 ?b = (Inr True, ?b\<lparr>buf_data := buf_data ?b @ take j (drop ?n contents)\<rparr>)"
      by (rule load_next_chunk_appends [OF assms(1) b(1)]) (use True j(2) b(2) in simp_all)
    have "hv1 = hv_set_current (from_data_and_path (take (?n + j) contents) (Some p)) hv"
      using assms(4) cur True load b(2) app by (auto simp: ensure_visible_data_def from_data_and_path_def)
    then have "hv_buffers hv1 = with_current_buffer (from_data_and_path (take (?n + j) contents) (Some p))"
      by (simp add: hv_set_current_def assms(3) set_current_def with_current_buffer_def)
    moreover have "?n + j \<le> k + 64" using j(1) by (simp add: add_mono)
    ultimately show ?thesis by blast
  next
    case False
    have "load_next_chunk X io w 64 ?b = (Inr False, ?b)" if "take j (drop ?n contents) = []"
      using that j(2) b by (auto simp: load_next_chunk_def)
    with False assms(4) cur b(2) have "hv1 = hv"
      using hv_set_current_same [OF cur] by (auto simp: ensure_visible_data_def split: if_splits simp del: length_take)
    then show ?thesis using keep by simp
  qed
qed

text \<open>C36: Opening a file more than 64 bytes longer than the first chunk and saving it without scrolling truncates it: the editor
  starts with the first chunk, drawing the first screen loads at most 64 bytes more, and \<open>:w\<close> writes
  just these bytes back.\<close>

theorem open_then_write_truncates:
  assumes "xi_rope (host_xi H)" "reads_file (host_io H) w p contents" "write_stores (host_io H)"
    and "chunk_size_for (host_term_size H) + 64 < length contents"
    and "tofu_start H w (Some p) = Inr hv" "draw H w hv = Inr (cmds, hv')"
    and "finish (host_io H) w (str ''w'') (hv_buffers hv') = Inr ((NewMode normal_new, bc'), w')"
  shows "\<exists>k < length contents. io_read_all (host_io H) w' p = Inr (take k contents)"
proof -
  let ?c = "chunk_size_for (host_term_size H)"
  obtain k where k: "k \<le> ?c" "io_read_at (host_io H) w p 0 ?c = Inr (take k contents)"
    using assms(2) unfolding reads_file_def by (metis drop0)
  have "hv_buffers hv = with_current_buffer (from_data_and_path (take k contents) (Some p))"
    using assms(5) k(2) by (auto simp: tofu_start_def with_buffr_collection_def split: option.splits)
  moreover obtain hv1 where "ensure_visible_data (host_xi H) (host_io H) w hv = Inr hv1" "hv_buffers hv' = hv_buffers hv1"
    using draw_buffers [OF assms(6)] by blast
  ultimately obtain k' where k': "k' \<le> k + 64"
    "hv_buffers hv' = with_current_buffer (from_data_and_path (take k' contents) (Some p))"
    using ensure_visible_data_prefix [OF assms(1,2)] by metis
  have "write_current (host_io H) w [] (hv_buffers hv') = Inr ((NewMode normal_new, bc'), w')"
    using assms(7) by (simp add: finish_write)
  from write_fresh [OF this [unfolded k'(2)]] assms(3) have "io_read_all (host_io H) w' p = Inr (take k' contents)"
    by (auto simp: write_stores_def)
  moreover have "k' < length contents" using k(1) k'(1) assms(4) by linarith
  ultimately show ?thesis by blast
qed

theorem open_then_write_truncates_witness:
  "\<exists>hv cmds hv' bc' w' k. tofu_start (ref_host\<lparr>host_term_size := Some (80, 6)\<rparr>) [[102] \<mapsto> replicate 200 7] (Some [102]) = Inr hv \<and>
    draw (ref_host\<lparr>host_term_size := Some (80, 6)\<rparr>) [[102] \<mapsto> replicate 200 7] hv = Inr (cmds, hv') \<and>
    finish map_io [[102] \<mapsto> replicate 200 7] (str ''w'') (hv_buffers hv') = Inr ((NewMode normal_new, bc'), w') \<and>
    k < 200 \<and> io_read_all map_io w' [102] = Inr (replicate k 7)"
proof -
  let ?H = "ref_host\<lparr>host_term_size := Some (80, 6)\<rparr>" and ?w = "[[102] \<mapsto> replicate 200 7] :: path \<rightharpoonup> bytes"
  let ?b = "from_data_and_path (replicate 80 7) (Some [102]) :: ref_delta buffer"
  have c: "chunk_size_for (Some (80, 6)) = 80"
    by (simp add: chunk_size_for_def usize_mul_def usize_sub_def usize_modulus_def)
  have io: "host_io ?H = map_io" "host_xi ?H = ref_xi" by (simp_all add: ref_host_def)
  obtain hv where hv: "tofu_start ?H ?w (Some [102]) = Inr hv" "hv_buffers hv = with_current_buffer ?b"
    "hv_size hv = (80, 6)" "hv_bytes_per_line hv = 16" "hv_start_offset hv = 0" "hv_mode hv = normal_new"
    by (simp add: tofu_start_def c io map_io_def with_buffr_collection_def)
  have cur: "hv_current hv = Inr ?b" by (simp add: hv_current_def hv(2) current_def with_current_buffer_def)
  have "view_ok ?H ?w hv ?b"
    using ref_host_ok cur hv map_io_reads [of ?w "[102]"]
    by (auto simp: view_ok_def readable_def io from_data_and_path_def main_flags_def selection_new_def sel_ok_def
        wf_selection_def in_bounds_def plain_mode_def normal_new_def bp_height_def isize_max_def ref_host_def)
  then have "drawable ?H ?w hv ?b" using hv(5) by (intro view_ok_drawable) simp_all
  moreover have "main_caret_shown hv ?b"
    using hv(3,4,5) by (auto simp: main_caret_shown_def from_data_and_path_def selection_new_def visible_range_def
        u16_sub_def usize_add_def usize_mul_def usize_modulus_def region_new_def)
  ultimately obtain cmds hv' bs where d: "draw ?H ?w hv = Inr (cmds, hv')"
    "hv_buffers hv' = with_current_buffer (?b\<lparr>buf_data := buf_data ?b @ bs\<rparr>)"
    using draw_ok [of ?H ?w hv ?b] hv(2,5)
    by (auto simp: hv_set_current_def set_current_def with_current_buffer_def)
  obtain bc' w' where fin: "finish map_io ?w (str ''w'') (hv_buffers hv') = Inr ((NewMode normal_new, bc'), w')"
    by (simp add: finish_write d(2) write_current_def current_def with_current_buffer_def from_data_and_path_def
        slice_to_cow_def map_io_def)
  have "reads_file (host_io ?H) ?w [102] (replicate 200 7)" "write_stores (host_io ?H)" "xi_rope (host_xi ?H)"
    using map_io_reads [of ?w "[102]"] map_io_write_stores ref.xi_rope_axioms by (simp_all add: io)
  from open_then_write_truncates [OF this(3,1,2) _ hv(1) d(1), of bc' w'] c fin
  obtain k where "k < 200" "io_read_all map_io w' [102] = Inr (take k (replicate 200 7))" by (auto simp: io)
  with hv(1) d(1) fin show ?thesis
    by (intro exI [of _ hv] exI [of _ cmds] exI [of _ hv'] exI [of _ bc'] exI [of _ w'] exI [of _ k]) simp
qed

end
