(* ===== verification/Byte_Rope.thy ===== *)
theory Byte_Rope
  imports Current_Buffer Mode_Search
begin

text \<open>
  The rope of bytes (src/byte_rope.rs): the leaf type with its splitting rule, the metric, conversion
  from and to vectors, and reading by chunks. The balanced tree itself, its builder and its cursor
  belong to the xi-rope crate: a record \<open>T\<close> of their operations is an argument of the definitions, the
  locale \<open>rope_tree\<close> states what they do, and the other theories work with the bytes of a rope, which
  is justified by the refinement lemmas at the end.
\<close>

section \<open>Leaves\<close>

definition MIN_LEAF :: nat where "MIN_LEAF = 511"

definition MAX_LEAF :: nat where "MAX_LEAF = 1024"

definition leaf_len :: "bytes \<Rightarrow> nat" where
  "leaf_len b = length b"

definition is_ok_child :: "bytes \<Rightarrow> bool" where
  "is_ok_child b \<longleftrightarrow> length b \<ge> MIN_LEAF"

text \<open>The leaf itself after the call, and the leaf split off.\<close>

definition push_maybe_split :: "bytes \<Rightarrow> bytes \<Rightarrow> interval \<Rightarrow> (bytes \<times> bytes option) outcome" where
  "push_maybe_split self other iv =
     (if istart iv > iend iv \<or> iend iv > length other then Inl IndexOutOfBounds
      else
        let extended = self @ take (iend iv - istart iv) (drop (istart iv) other)
        in Inr (if length extended \<le> MAX_LEAF then (extended, None)
                else (take MAX_LEAF extended, Some (drop MAX_LEAF extended))))"

section \<open>The metric\<close>

definition measure_units :: "nat \<Rightarrow> nat" where "measure_units len = len"

definition to_base_units :: "bytes \<Rightarrow> nat \<Rightarrow> nat" where "to_base_units b in_measured_units = in_measured_units"

definition from_base_units :: "bytes \<Rightarrow> nat \<Rightarrow> nat" where "from_base_units b in_base_units = in_base_units"

definition is_boundary :: "bytes \<Rightarrow> nat \<Rightarrow> bool" where "is_boundary b offset \<longleftrightarrow> True"

definition metric_prev :: "bytes \<Rightarrow> nat \<Rightarrow> nat option" where
  "metric_prev b offset = (case offset of 0 \<Rightarrow> None | Suc o' \<Rightarrow> Some o')"

definition metric_next :: "bytes \<Rightarrow> nat \<Rightarrow> nat option" where
  "metric_next b offset = (if offset = length b then None else Some (usize_add offset 1))"

definition can_fragment :: bool where "can_fragment \<longleftrightarrow> False"

section \<open>The tree of the crate\<close>

record ('n, 'c, 't) tree =
  tree_builder_new :: 't
  push_leaf :: "'t \<Rightarrow> bytes \<Rightarrow> 't"
  tree_build :: "'t \<Rightarrow> 'n"
  node_len :: "'n \<Rightarrow> nat"
  cursor_new :: "'n \<Rightarrow> nat \<Rightarrow> 'c"
  cursor_pos :: "'c \<Rightarrow> nat"
  cursor_get_leaf :: "'c \<Rightarrow> (bytes \<times> nat) option"
  cursor_next_leaf :: "'c \<Rightarrow> 'c"

section \<open>Reading\<close>

record 'c chunk_iter =
  ci_cursor :: 'c
  ci_end :: nat

definition iter_chunks :: "('n, 'c, 't) tree \<Rightarrow> 'n \<Rightarrow> nat \<Rightarrow> nat \<Rightarrow> 'c chunk_iter" where
  "iter_chunks T rope start stop = \<lparr>ci_cursor = cursor_new T rope start, ci_end = stop\<rparr>"

definition chunk_next ::
    "('n, 'c, 't) tree \<Rightarrow> 'c chunk_iter \<Rightarrow> (bytes option \<times> 'c chunk_iter) outcome" where
  "chunk_next T it =
     (let pos = cursor_pos T (ci_cursor it)
      in if pos \<ge> ci_end it then Inr (None, it)
         else case cursor_get_leaf T (ci_cursor it) of
           None \<Rightarrow> Inr (None, it)
         | Some (leaf, start_pos) \<Rightarrow>
             (let len = min (ci_end it - pos) (usize_sub (length leaf) start_pos);
                  it' = it\<lparr>ci_cursor := cursor_next_leaf T (ci_cursor it)\<rparr>
              in if start_pos + len \<le> length leaf
                 then Inr (Some (take len (drop start_pos leaf)), it')
                 else Inl IndexOutOfBounds))"

text \<open>Running an iterator to its end, collecting the bytes.\<close>

fun rest_chunks :: "('n, 'c, 't) tree \<Rightarrow> nat \<Rightarrow> 'c chunk_iter \<Rightarrow> bytes outcome" where
  "rest_chunks T 0 it = Inl NoReturn"
| "rest_chunks T (Suc fuel) it =
     and_then (chunk_next T it) (\<lambda>(chunk, it').
       case chunk of
         None \<Rightarrow> Inr []
       | Some bs \<Rightarrow> and_then (rest_chunks T fuel it') (\<lambda>rest. Inr (bs @ rest)))"

definition rope_slice_to_cow :: "('n, 'c, 't) tree \<Rightarrow> nat \<Rightarrow> 'n \<Rightarrow> nat \<Rightarrow> nat \<Rightarrow> bytes outcome" where
  "rope_slice_to_cow T fuel rope start stop =
     and_then (chunk_next T (iter_chunks T rope start stop)) (\<lambda>(first, it1).
     and_then (chunk_next T it1) (\<lambda>(second, it2).
       case (first, second) of
         (None, None) \<Rightarrow> Inr []
       | (Some b, None) \<Rightarrow> Inr b
       | (Some one, Some two) \<Rightarrow> and_then (rest_chunks T fuel it2) (\<lambda>rest. Inr (one @ two @ rest))
       | (None, Some _) \<Rightarrow> Inl Unreachable))"

definition rope_is_empty :: "('n, 'c, 't) tree \<Rightarrow> 'n \<Rightarrow> bool" where
  "rope_is_empty T rope \<longleftrightarrow> node_len T rope = 0"

definition vec_from_rope :: "('n, 'c, 't) tree \<Rightarrow> nat \<Rightarrow> 'n \<Rightarrow> bytes outcome" where
  "vec_from_rope T fuel rope = rest_chunks T fuel (iter_chunks T rope 0 (node_len T rope))"

definition rope_display :: "('n, 'c, 't) tree \<Rightarrow> nat \<Rightarrow> 'n \<Rightarrow> rstring outcome" where
  "rope_display T fuel rope = and_then (vec_from_rope T fuel rope) (\<lambda>bs. Inr (concat (map hex2 bs)))"

definition rope_debug :: "('n, 'c, 't) tree \<Rightarrow> nat \<Rightarrow> bool \<Rightarrow> 'n \<Rightarrow> rstring outcome" where
  "rope_debug T fuel alternate rope =
     and_then (rope_display T fuel rope) (\<lambda>s.
       Inr (if alternate then s else str ''Rope('' @ s @ str '')''))"

section \<open>Building\<close>

function push_pieces :: "('n, 'c, 't) tree \<Rightarrow> 't \<Rightarrow> bytes \<Rightarrow> 't" where
  "push_pieces T b source =
     (if source = [] then b
      else let split_point = min (length source) MAX_LEAF
           in push_pieces T (push_leaf T b (take split_point source)) (drop split_point source))"
  by pat_completeness auto
termination
  by (relation "measure (\<lambda>(T, b, source). length source)") (auto simp: MAX_LEAF_def min_def)

declare push_pieces.simps [simp del]

definition rope_from_vec :: "('n, 'c, 't) tree \<Rightarrow> bytes \<Rightarrow> 'n" where
  "rope_from_vec T vec =
     (let b = tree_builder_new T
      in if length vec \<le> MAX_LEAF then tree_build T (if vec \<noteq> [] then push_leaf T b vec else b)
         else tree_build T (push_pieces T b vec))"

section \<open>What the tree does\<close>

text \<open>
  \<open>leaves\<close> are the leaves of a tree in order; \<open>given\<close> the bytes given to a builder; \<open>at\<close> where a cursor
  is: the leaves before its leaf, the leaf, the offset in it and the leaves after it, or nowhere after
  \<open>next_leaf\<close> at the last leaf. A position between two leaves may belong to either.
\<close>

locale rope_tree =
  fixes T :: "('n, 'c, 't) tree"
    and leaves :: "'n \<Rightarrow> bytes list"
    and given :: "'t \<Rightarrow> bytes"
    and at :: "'c \<Rightarrow> (bytes list \<times> bytes \<times> nat \<times> bytes list) option"
  assumes builder_new: "given (tree_builder_new T) = []"
    and builder_push: "given (push_leaf T b l) = given b @ l"
    and builder_build: "concat (leaves (tree_build T b)) = given b"
    and node_len: "node_len T n = length (concat (leaves n))"
    and cursor_start: "p \<le> length (concat (leaves n)) \<Longrightarrow>
      \<exists>ls l off rs. at (cursor_new T n p) = Some (ls, l, off, rs) \<and> leaves n = ls @ l # rs \<and> off \<le> length l \<and>
        length (concat ls) + off = p"
    and cursor_leaf: "cursor_get_leaf T c = map_option (\<lambda>(ls, l, off, rs). (l, off)) (at c)"
    and cursor_position: "at c = Some (ls, l, off, rs) \<Longrightarrow> cursor_pos T c = length (concat ls) + off"
    and cursor_next: "at c = Some (ls, l, off, r # rs) \<Longrightarrow> at (cursor_next_leaf T c) = Some (ls @ [l], r, 0, rs)"
    and cursor_last: "at c = Some (ls, l, off, []) \<Longrightarrow> at (cursor_next_leaf T c) = None"
begin

text \<open>What is still to be read from a place, up to \<open>stop\<close>.\<close>

definition remaining :: "nat \<Rightarrow> (bytes list \<times> bytes \<times> nat \<times> bytes list) option \<Rightarrow> bytes" where
  "remaining stop place =
     (case place of None \<Rightarrow> []
      | Some (ls, l, off, rs) \<Rightarrow> take (stop - (length (concat ls) + off)) (drop off l @ concat rs))"

definition place_ok :: "(bytes list \<times> bytes \<times> nat \<times> bytes list) option \<Rightarrow> bool" where
  "place_ok place \<longleftrightarrow> (case place of None \<Rightarrow> True | Some (ls, l, off, rs) \<Rightarrow> off \<le> length l)"

definition places_left :: "(bytes list \<times> bytes \<times> nat \<times> bytes list) option \<Rightarrow> nat" where
  "places_left place = (case place of None \<Rightarrow> 0 | Some (ls, l, off, rs) \<Rightarrow> Suc (length rs))"

lemma chunk_next_ok:
  assumes "place_ok (at (ci_cursor it))"
  shows "\<exists>chunk it'. chunk_next T it = Inr (chunk, it') \<and> ci_end it' = ci_end it \<and> place_ok (at (ci_cursor it')) \<and>
    (case chunk of
       None \<Rightarrow> it' = it \<and> remaining (ci_end it) (at (ci_cursor it)) = []
     | Some bs \<Rightarrow> remaining (ci_end it) (at (ci_cursor it)) = bs @ remaining (ci_end it) (at (ci_cursor it')) \<and>
         places_left (at (ci_cursor it')) < places_left (at (ci_cursor it)))"
proof (cases "at (ci_cursor it)")
  case None
  then show ?thesis
    by (intro exI [of _ None] exI [of _ it]) (simp add: chunk_next_def cursor_leaf remaining_def place_ok_def Let_def)
next
  case (Some place)
  obtain ls l off rs where place: "place = (ls, l, off, rs)" by (cases place) auto
  let ?pos = "length (concat ls) + off" and ?stop = "ci_end it"
  have off: "off \<le> length l" using assms Some place by (simp add: place_ok_def)
  have pos: "cursor_pos T (ci_cursor it) = ?pos" using cursor_position Some place by simp
  show ?thesis
  proof (cases "?stop \<le> ?pos")
    case True
    then show ?thesis using Some place off by (simp add: chunk_next_def pos remaining_def place_ok_def)
  next
    case False
    let ?len = "min (?stop - ?pos) (length l - off)"
    let ?it = "it\<lparr>ci_cursor := cursor_next_leaf T (ci_cursor it)\<rparr>"
    have eq: "chunk_next T it = Inr (Some (take ?len (drop off l)), ?it)"
      using False Some place off by (simp add: chunk_next_def pos cursor_leaf usize_sub_def Let_def)
    have "at (ci_cursor ?it) = (case rs of [] \<Rightarrow> None | r # rs' \<Rightarrow> Some (ls @ [l], r, 0, rs'))"
      using cursor_next cursor_last Some place by (auto split: list.splits)
    then show ?thesis
      using eq Some place off by (cases rs) (auto simp: remaining_def place_ok_def places_left_def min_def)
  qed
qed

lemma rest_chunks_ok:
  assumes "place_ok (at (ci_cursor it))" "places_left (at (ci_cursor it)) < fuel"
  shows "rest_chunks T fuel it = Inr (remaining (ci_end it) (at (ci_cursor it)))"
  using assms
proof (induction fuel arbitrary: it)
  case (Suc fuel)
  from chunk_next_ok [OF Suc.prems(1)] obtain chunk it' where c:
    "chunk_next T it = Inr (chunk, it')" "ci_end it' = ci_end it" "place_ok (at (ci_cursor it'))"
    "case chunk of None \<Rightarrow> it' = it \<and> remaining (ci_end it) (at (ci_cursor it)) = []
     | Some bs \<Rightarrow> remaining (ci_end it) (at (ci_cursor it)) = bs @ remaining (ci_end it) (at (ci_cursor it')) \<and>
         places_left (at (ci_cursor it')) < places_left (at (ci_cursor it))" by blast
  show ?case
  proof (cases chunk)
    case (Some bs)
    then have "rest_chunks T fuel it' = Inr (remaining (ci_end it') (at (ci_cursor it')))"
      using c Suc.prems(2) by (intro Suc.IH) auto
    with Some c show ?thesis by simp
  qed (use c in simp)
qed simp

lemma iter_chunks_start:
  assumes "start \<le> length (concat (leaves n))"
  shows "place_ok (at (ci_cursor (iter_chunks T n start stop)))"
    "remaining stop (at (ci_cursor (iter_chunks T n start stop))) = take (stop - start) (drop start (concat (leaves n)))"
    "places_left (at (ci_cursor (iter_chunks T n start stop))) \<le> length (leaves n)"
proof -
  obtain ls l off rs where c: "at (cursor_new T n start) = Some (ls, l, off, rs)" "leaves n = ls @ l # rs" "off \<le> length l"
    "length (concat ls) + off = start"
    using cursor_start [OF assms] by blast
  show "place_ok (at (ci_cursor (iter_chunks T n start stop)))" using c by (simp add: iter_chunks_def place_ok_def)
  show "places_left (at (ci_cursor (iter_chunks T n start stop))) \<le> length (leaves n)"
    using c by (simp add: iter_chunks_def places_left_def)
  have "drop start (concat (leaves n)) = drop off l @ concat rs" using c(2,3) by (simp flip: c(4))
  then show "remaining stop (at (ci_cursor (iter_chunks T n start stop))) = take (stop - start) (drop start (concat (leaves n)))"
    using c by (simp add: iter_chunks_def remaining_def)
qed

text \<open>Reading a slice chunk by chunk gives the slice of the bytes.\<close>

lemma slice_to_cow_bytes:
  assumes "start \<le> length (concat (leaves n))" "length (leaves n) < fuel"
  shows "rope_slice_to_cow T fuel n start stop = slice_to_cow (concat (leaves n)) start stop"
proof -
  let ?it = "iter_chunks T n start stop"
  note s = iter_chunks_start [OF assms(1), of stop]
  have "ci_end ?it = stop" by (simp add: iter_chunks_def)
  with chunk_next_ok [OF s(1)] obtain chunk it1 where c1:
    "chunk_next T ?it = Inr (chunk, it1)" "ci_end it1 = stop" "place_ok (at (ci_cursor it1))"
    "case chunk of None \<Rightarrow> it1 = ?it \<and> remaining stop (at (ci_cursor ?it)) = []
     | Some bs \<Rightarrow> remaining stop (at (ci_cursor ?it)) = bs @ remaining stop (at (ci_cursor it1)) \<and>
         places_left (at (ci_cursor it1)) < places_left (at (ci_cursor ?it))" by metis
  from chunk_next_ok [OF c1(3)] c1(2) obtain chunk2 it2 where c2:
    "chunk_next T it1 = Inr (chunk2, it2)" "ci_end it2 = stop" "place_ok (at (ci_cursor it2))"
    "case chunk2 of None \<Rightarrow> it2 = it1 \<and> remaining stop (at (ci_cursor it1)) = []
     | Some bs \<Rightarrow> remaining stop (at (ci_cursor it1)) = bs @ remaining stop (at (ci_cursor it2)) \<and>
         places_left (at (ci_cursor it2)) < places_left (at (ci_cursor it1))" by metis
  have spec: "slice_to_cow (concat (leaves n)) start stop = Inr (remaining stop (at (ci_cursor ?it)))"
    using assms(1) s(2) by (simp add: slice_to_cow_def)
  show ?thesis
  proof (cases chunk)
    case None
    with c1 c2 show ?thesis by (auto simp: rope_slice_to_cow_def spec)
  next
    case (Some one)
    show ?thesis
    proof (cases chunk2)
      case None
      with Some c1 c2 show ?thesis by (simp add: rope_slice_to_cow_def spec)
    next
      case (Some two)
      have "rest_chunks T fuel it2 = Inr (remaining stop (at (ci_cursor it2)))"
        using rest_chunks_ok [OF c2(3)] c1(4) c2(2,4) s(3) assms(2) Some \<open>chunk = Some one\<close> by simp
      with Some \<open>chunk = Some one\<close> c1 c2 show ?thesis by (simp add: rope_slice_to_cow_def spec)
    qed
  qed
qed

lemma push_pieces_bytes: "given (push_pieces T b source) = given b @ source"
proof (induction source arbitrary: b rule: measure_induct_rule [of length])
  case (less source)
  show ?case
  proof (cases "source = []")
    case False
    then have "length (drop (min (length source) MAX_LEAF) source) < length source" by (simp add: MAX_LEAF_def)
    from less.IH [OF this] False show ?thesis by (subst push_pieces.simps) (simp add: Let_def builder_push)
  qed (subst push_pieces.simps, simp)
qed

lemma from_vec_bytes: "concat (leaves (rope_from_vec T vec)) = vec"
  by (simp add: rope_from_vec_def Let_def builder_build builder_push builder_new push_pieces_bytes)

lemma vec_from_rope_bytes:
  assumes "length (leaves n) < fuel"
  shows "vec_from_rope T fuel n = Inr (concat (leaves n))"
proof -
  note s = iter_chunks_start [of 0 n "node_len T n"]
  have "ci_end (iter_chunks T n 0 (node_len T n)) = node_len T n" by (simp add: iter_chunks_def)
  then show ?thesis
    using rest_chunks_ok [of "iter_chunks T n 0 (node_len T n)" fuel] s assms
    by (simp add: vec_from_rope_def node_len)
qed

end


section \<open>A tree\<close>

text \<open>Trees that meet the contract: lists of leaves, with a cursor that is its place.\<close>

fun zip_to :: "bytes list \<Rightarrow> bytes list \<Rightarrow> nat \<Rightarrow> bytes list \<times> bytes \<times> nat \<times> bytes list" where
  "zip_to ls [] p = (ls, [], p, [])"
| "zip_to ls (l # rs) p =
     (if p \<le> length l \<or> rs = [] then (ls, l, p, rs) else zip_to (ls @ [l]) rs (p - length l))"

text \<open>A tree is never without a leaf.\<close>

definition list_leaves :: "bytes list \<Rightarrow> bytes list" where
  "list_leaves n = (if n = [] then [[]] else n)"

type_synonym list_cursor = "nat \<times> (bytes list \<times> bytes \<times> nat \<times> bytes list) option"

definition list_tree :: "(bytes list, list_cursor, bytes list) tree" where
  "list_tree = \<lparr>tree_builder_new = [], push_leaf = (\<lambda>b l. b @ [l]), tree_build = (\<lambda>b. b),
     node_len = (\<lambda>n. length (concat n)), cursor_new = (\<lambda>n p. (p, Some (zip_to [] (list_leaves n) p))),
     cursor_pos = (\<lambda>(p, place). case place of None \<Rightarrow> p | Some (ls, l, off, rs) \<Rightarrow> length (concat ls) + off),
     cursor_get_leaf = (\<lambda>(p, place). map_option (\<lambda>(ls, l, off, rs). (l, off)) place),
     cursor_next_leaf = (\<lambda>(p, place). case place of
         Some (ls, l, off, r # rs) \<Rightarrow> (p, Some (ls @ [l], r, 0, rs))
       | Some (ls, l, off, []) \<Rightarrow> (length (concat ls) + length l, None)
       | None \<Rightarrow> (p, None))\<rparr>"

lemma zip_to_place:
  assumes "zip_to ls n p = (ls', l, off, rs)" "n \<noteq> []" "p \<le> length (concat n)"
  shows "ls @ n = ls' @ l # rs \<and> off \<le> length l \<and> length (concat ls') + off = length (concat ls) + p"
  using assms
proof (induction ls n p rule: zip_to.induct)
  case (2 ls m ms p)
  then show ?case by (auto split: if_splits)
qed simp

interpretation lt: rope_tree list_tree list_leaves concat snd
proof unfold_locales
  fix n :: "bytes list" and p
  assume p: "p \<le> length (concat (list_leaves n))"
  obtain ls l off rs where z: "zip_to [] (list_leaves n) p = (ls, l, off, rs)" by (metis prod_cases4)
  from zip_to_place [OF z] p show "\<exists>ls l off rs. snd (cursor_new list_tree n p) = Some (ls, l, off, rs) \<and>
      list_leaves n = ls @ l # rs \<and> off \<le> length l \<and> length (concat ls) + off = p"
    using z by (auto simp: list_tree_def list_leaves_def)
qed (auto simp: list_tree_def list_leaves_def split: option.splits)

section \<open>The leaf rule\<close>

text \<open>Nothing is lost or reordered, and leaves stay within the maximum.\<close>

lemma push_maybe_split_exact:
  assumes "istart iv \<le> iend iv" "iend iv \<le> length other" "length self \<le> MAX_LEAF" "length other \<le> MAX_LEAF"
  shows "\<exists>l r. push_maybe_split self other iv = Inr (l, r) \<and>
    l @ (case r of None \<Rightarrow> [] | Some x \<Rightarrow> x) = self @ take (iend iv - istart iv) (drop (istart iv) other) \<and>
    length l \<le> MAX_LEAF \<and> (\<forall>x. r = Some x \<longrightarrow> length l = MAX_LEAF \<and> x \<noteq> [] \<and> length x \<le> MAX_LEAF)"
proof -
  define e where "e = self @ take (iend iv - istart iv) (drop (istart iv) other)"
  have "push_maybe_split self other iv =
      Inr (if length e \<le> MAX_LEAF then (e, None) else (take MAX_LEAF e, Some (drop MAX_LEAF e)))"
    using assms(1,2) by (simp add: push_maybe_split_def Let_def e_def)
  moreover have "length e \<le> MAX_LEAF + MAX_LEAF" using assms by (simp add: e_def)
  ultimately show ?thesis unfolding e_def [symmetric] by (cases "length e \<le> MAX_LEAF") auto
qed

text \<open>A full leaf that takes one more byte splits off a leaf of one byte, which is not acceptable as a
  child although its sibling is: the split is always at the maximum, never in the middle.\<close>

lemma push_maybe_split_undersized:
  assumes "length self = MAX_LEAF"
  shows "push_maybe_split self [b] \<lparr>istart = 0, iend = 1\<rparr> = Inr (self, Some [b]) \<and> is_ok_child self \<and> \<not> is_ok_child [b]"
  using assms by (simp add: push_maybe_split_def Let_def is_ok_child_def MAX_LEAF_def MIN_LEAF_def)

section \<open>Properties\<close>

text \<open>C20: Reading a slice through the chunk iterator (\<open>Rope::slice_to_cow\<close> over a tree of leaves) is the slice of
  the bytes the rope holds, with which the rest of the development works: for every tree that meets the
  contract of the crate, every start within the rope and every end.\<close>

theorem rope_slice_refines:
  assumes "rope_tree T leaves given at" "start \<le> length (concat (leaves n))" "length (leaves n) < fuel"
  shows "rope_slice_to_cow T fuel n start stop = slice_to_cow (concat (leaves n)) start stop"
  by (rule rope_tree.slice_to_cow_bytes [OF assms])

theorem rope_slice_refines_witness:
  "rope_slice_to_cow list_tree 4 [[1, 2], [3], [4, 5]] 1 4 = slice_to_cow [1, 2, 3, 4, 5] 1 4"
  using rope_slice_refines [OF lt.rope_tree_axioms, of 1 "[[1, 2], [3], [4, 5]]" 4 4] by (simp add: list_leaves_def)

text \<open>C25: A vector turned into a rope and back is the same vector: the loop that cuts it into leaves ends, and
  with enough rounds the chunks of the rope are all its bytes in order.\<close>

theorem rope_vec_roundtrip:
  assumes "rope_tree T leaves given at"
  shows "\<exists>rounds. \<forall>fuel\<ge>rounds. vec_from_rope T fuel (rope_from_vec T vec) = Inr vec"
proof (intro exI allI impI)
  fix fuel
  assume "Suc (length (leaves (rope_from_vec T vec))) \<le> fuel"
  then show "vec_from_rope T fuel (rope_from_vec T vec) = Inr vec"
    using rope_tree.vec_from_rope_bytes [OF assms] rope_tree.from_vec_bytes [OF assms, of vec] by (simp add: Suc_le_eq)
qed

theorem rope_vec_roundtrip_witness:
  "\<exists>rounds. \<forall>fuel\<ge>rounds. vec_from_rope list_tree fuel (rope_from_vec list_tree (replicate 3000 7)) = Inr (replicate 3000 7)"
  by (rule rope_vec_roundtrip [OF lt.rope_tree_axioms])

end
