(* ===== verification/View_Scroll.thy ===== *)
theory View_Scroll
  imports View_Safe
begin

text \<open>
  Scrolling and repainting in place, for a buffer with nothing left to load (a scratch buffer, or a file
  that is loaded to its end): every step returns, leaves the buffer alone and puts the main caret on
  the screen.
\<close>

definition fully_loaded :: "'w io \<Rightarrow> 'w \<Rightarrow> 'd buffer \<Rightarrow> bool" where
  "fully_loaded io w buf \<longleftrightarrow>
     (\<forall>p n. buf_path buf = Some p \<longrightarrow> io_read_at io w p (length (buf_data buf)) n = Inr [])"

lemma fully_loaded_no_load: "fully_loaded io w buf \<Longrightarrow> load_next_chunk X io w n buf = (Inr False, buf)"
  by (auto simp: fully_loaded_def load_next_chunk_def split: option.splits)

lemma ensure_visible_data_loaded:
  "hv_current hv = Inr buf \<Longrightarrow> fully_loaded io w buf \<Longrightarrow> ensure_visible_data X io w hv = Inr hv"
  by (simp add: ensure_visible_data_def fully_loaded_no_load hv_set_current_same)

text \<open>The state of a view that may repaint: the invariant, and the first row inside the data. Rows are counted
  in \<open>u16\<close>, so the screen is kept a little below that.\<close>

definition scrollable :: "('d, 's, 'b, 'w) host \<Rightarrow> 'w \<Rightarrow> 'd hex_view \<Rightarrow> 'd buffer \<Rightarrow> bool" where
  "scrollable H w hv buf \<longleftrightarrow> view_ok H w hv buf \<and> fully_loaded (host_io H) w buf \<and>
     hv_start_offset hv \<le> length (buf_data buf) \<and> hv_height hv \<le> 65000"

lemma scrollable_start:
  assumes "scrollable H w hv buf" "16 dvd s" "s \<le> length (buf_data buf)"
  shows "scrollable H w (hv\<lparr>hv_start_offset := s\<rparr>) buf"
proof -
  have "s \<le> isize_max" using assms by (simp add: scrollable_def view_ok_def)
  then show ?thesis using assms by (auto simp: scrollable_def intro: view_ok_start)
qed

lemma scrollable_simps:
  assumes "scrollable H w hv buf"
  shows "hv_current hv = Inr buf" "hv_bytes_per_line hv = 16" "5 \<le> hv_height hv" "hv_height hv \<le> 65000"
    "16 dvd hv_start_offset hv" "hv_start_offset hv \<le> length (buf_data buf)" "length (buf_data buf) + 64 \<le> isize_max"
    "placed hv (length (buf_data buf))"
  using assms by (auto simp: scrollable_def view_ok_def placed_def bp_height_def)

abbreviation main_caret :: "'d buffer \<Rightarrow> nat" where
  "main_caret buf \<equiv> caret (regions (buf_selection buf) ! main_selection (buf_selection buf))"

lemma scrollable_shown:
  assumes "scrollable H w hv buf" "hv_start_offset hv \<le> main_caret buf"
    "main_caret buf < hv_start_offset hv + (hv_height hv - 1) * 16"
  shows "main_caret_shown hv buf"
proof -
  have v: "view_ok H w hv buf" using assms(1) by (simp add: scrollable_def)
  have "main_caret buf < snd (visible_range hv (length (buf_data buf)))"
    using placed_range [OF scrollable_simps(8) [OF assms(1)]] view_ok_caret(2) [OF v] assms(3) by simp
  with view_ok_caret(3) [OF v] assms(2) show ?thesis by (auto simp: main_caret_shown_def)
qed

lemma draw_rows_loaded:
  assumes "scrollable H w hv buf" "main_caret_shown hv buf" "{0..<bp_height} \<subseteq> set rows"
  shows "\<exists>cmds. draw_rows H w rows hv = Inr (cmds, hv)"
proof -
  note s = scrollable_simps [OF assms(1)]
  have "\<exists>cmds. draw_body (host_char_debug H) hv (Some rows) (rest_fuel hv) = Inr cmds"
    by (rule draw_body_ok [OF s(1,8) _ assms(2)])
      (use assms s in \<open>auto simp: scrollable_def view_ok_def sel_ok_def panel_rows_def rest_fuel_def\<close>)
  moreover have "ensure_visible_data (host_xi H) (host_io H) w hv = Inr hv"
    using assms(1) s(1) by (intro ensure_visible_data_loaded) (auto simp: scrollable_def)
  ultimately show ?thesis by (auto simp: draw_rows_def)
qed

lemma draw_loaded:
  assumes "scrollable H w hv buf" "main_caret_shown hv buf"
  shows "\<exists>cmds rows. draw H w hv = Inr (cmds, hv\<lparr>hv_last_visible_rows := rows\<rparr>)"
proof -
  note s = scrollable_simps [OF assms(1)]
  have load: "ensure_visible_data (host_xi H) (host_io H) w hv = Inr hv"
    using assms(1) s(1) by (intro ensure_visible_data_loaded) (auto simp: scrollable_def)
  obtain cmds where body: "draw_body (host_char_debug H) hv None (rest_fuel hv) = Inr cmds"
    using draw_body_ok [OF s(1,8) _ assms(2), of "host_char_debug H" None "rest_fuel hv"] assms(1) s
    by (auto simp: scrollable_def view_ok_def sel_ok_def panel_rows_def rest_fuel_def)
  have "\<exists>cmds. draw_statusline (hv\<lparr>hv_last_visible_rows := rows\<rparr>) = Inr (cmds, hv\<lparr>hv_last_visible_rows := rows\<rparr>)" for rows
    by (rule draw_statusline_ok [of _ buf])
      (use assms(1) s in \<open>auto simp: hv_current_def scrollable_def view_ok_def sel_ok_def\<close>)
  then obtain line where "\<And>rows. draw_statusline (hv\<lparr>hv_last_visible_rows := rows\<rparr>) = Inr (line rows, hv\<lparr>hv_last_visible_rows := rows\<rparr>)"
    by metis
  then show ?thesis using load body s(1) by (auto simp: draw_def visible_bytes_def Let_def)
qed

section \<open>Scrolling\<close>

text \<open>What a scroll to \<open>s\<close> gives: the same view from another row (and the number of rows noted by \<open>draw\<close>).\<close>

definition scrolled :: "'d hex_view \<Rightarrow> nat \<Rightarrow> 'd drawing \<Rightarrow> bool" where
  "scrolled hv s r \<longleftrightarrow> (\<exists>cmds rows. r = Inr (cmds, hv\<lparr>hv_start_offset := s, hv_last_visible_rows := rows\<rparr>))"

lemma scrolled_draw:
  assumes "scrollable H w (hv\<lparr>hv_start_offset := s\<rparr>) buf" "main_caret_shown (hv\<lparr>hv_start_offset := s\<rparr>) buf"
  shows "scrolled hv s (draw H w (hv\<lparr>hv_start_offset := s\<rparr>))"
  using draw_loaded [OF assms] by (auto simp: scrolled_def)

lemma scrolled_rows:
  assumes "scrollable H w (hv\<lparr>hv_start_offset := s\<rparr>) buf" "main_caret_shown (hv\<lparr>hv_start_offset := s\<rparr>) buf"
    "{0..<bp_height} \<subseteq> set rows"
  shows "scrolled hv s (and_draw (Inr (cmds, hv\<lparr>hv_start_offset := s\<rparr>)) (draw_rows H w rows))"
proof -
  obtain cmds' where "draw_rows H w rows (hv\<lparr>hv_start_offset := s\<rparr>) = Inr (cmds', hv\<lparr>hv_start_offset := s\<rparr>)"
    using draw_rows_loaded [OF assms] by blast
  then show ?thesis
    by (auto simp: scrolled_def and_draw_def intro!: exI [of _ "hv_last_visible_rows hv"])
qed

lemma scroll_up_ok:
  assumes "scrollable H w hv buf" "16 * n \<le> hv_start_offset hv"
    and "main_caret_shown (hv\<lparr>hv_start_offset := hv_start_offset hv - 16 * n\<rparr>) buf"
  shows "scrolled hv (hv_start_offset hv - 16 * n) (scroll_up H w n hv)"
proof -
  note s = scrollable_simps [OF assms(1)]
  let ?s = "hv_start_offset hv - 16 * n"
  have mul: "usize_mul 16 n = 16 * n" using assms(2) s(6,7) by (simp add: usize_mul_def usize_modulus_def isize_max_def)
  have ok: "scrollable H w (hv\<lparr>hv_start_offset := ?s\<rparr>) buf"
    using assms(1,2) s(5,6) by (intro scrollable_start) (auto intro: dvd_diff_nat)
  show ?thesis
  proof (cases "n > u16_sub (hv_height hv) 1")
    case True
    then show ?thesis using scrolled_draw [OF ok assms(3)] assms(2) by (simp add: scroll_up_def mul Let_def)
  next
    case False
    then have "n \<le> 65000" using s(3,4) by (simp add: u16_sub_def)
    then have "as_u16 (usize_add n bp_height) = n + 5"
      by (simp add: as_u16_def usize_add_def usize_modulus_def bp_height_def)
    then have "{0..<bp_height} \<subseteq> set [0..<as_u16 (usize_add n bp_height)]" by (simp add: bp_height_def)
    from scrolled_rows [OF ok assms(3) this] False assms(2) show ?thesis by (simp add: scroll_up_def mul Let_def)
  qed
qed

lemma scroll_down_ok:
  assumes "scrollable H w hv buf" "hv_start_offset hv + 16 * n < length (buf_data buf)"
    and "main_caret_shown (hv\<lparr>hv_start_offset := hv_start_offset hv + 16 * n\<rparr>) buf"
  shows "scrolled hv (hv_start_offset hv + 16 * n) (scroll_down H w n hv)"
proof -
  note s = scrollable_simps [OF assms(1)]
  let ?s = "hv_start_offset hv + 16 * n"
  have pos: "usize_add (hv_start_offset hv) (usize_mul n 16) = ?s"
    using assms(2) s(7) by (simp add: usize_mul_def usize_add_def usize_modulus_def isize_max_def)
  have ok: "scrollable H w (hv\<lparr>hv_start_offset := ?s\<rparr>) buf"
    using assms(1,2) s(5) by (intro scrollable_start) auto
  have "load_next_chunk (host_xi H) (host_io H) w 64 buf = (Inr False, buf)"
    using assms(1) by (intro fully_loaded_no_load) (simp add: scrollable_def)
  then have load: "scroll_load H w ?s hv = Inr (Some hv)"
    using s(1) assms(2) by (simp add: scroll_load_def hv_set_current_same Let_def)
  have rows: "{0..<bp_height} \<subseteq> set (xs @ [0..<bp_height])" for xs by auto
  show ?thesis
    using scrolled_draw [OF ok assms(3)] scrolled_rows [OF ok assms(3) rows] assms(2) s(1)
    by (simp add: scroll_down_def pos load Let_def)
qed


section \<open>Following the main caret\<close>

text \<open>The signed computation of the number of lines is the distance divided by the line length, rounded up.\<close>

lemma lines_up:
  assumes "c < start" "start + 16 \<le> isize_max"
  shows "as_usize \<bar>isize_div (isize_wrap (isize_wrap (as_isize c - as_isize start) - as_isize 16 + 1)) (as_isize 16)\<bar> = (start - c + 15) div 16"
proof -
  have conv: "as_isize c = int c" "as_isize start = int start" "as_isize 16 = 16"
    using assms by (simp_all add: as_isize_def isize_max_def)
  have "isize_wrap (int c - int start) = int c - int start" "isize_wrap (int c - int start - 16 + 1) = - int (start - c + 15)"
    using assms by (simp_all add: isize_wrap_id isize_max_def of_nat_diff)
  then have "isize_div (isize_wrap (isize_wrap (int c - int start) - 16 + 1)) 16 = - (int (start - c + 15) div 16)"
    by (simp add: isize_div_def)
  also have "int (start - c + 15) div 16 = int ((start - c + 15) div 16)" by (simp only: zdiv_int of_nat_numeral)
  finally have "\<bar>isize_div (isize_wrap (isize_wrap (int c - int start) - 16 + 1)) 16\<bar> = int ((start - c + 15) div 16)" by simp
  moreover have "(start - c + 15) div 16 < usize_modulus" using assms(2) by (simp add: usize_modulus_def isize_max_def)
  ultimately show ?thesis by (simp add: conv as_usize_def)
qed

lemma lines_down:
  assumes "stop \<le> c" "0 < stop" "c + 16 \<le> isize_max"
  shows "as_usize (isize_div (isize_wrap (isize_wrap (as_isize c - (as_isize stop - 1)) + as_isize 16 - 1)) (as_isize 16)) = (c + 1 - stop + 15) div 16"
    "\<not> isize_wrap (as_isize c - (as_isize stop - 1)) < 0"
proof -
  have conv: "as_isize c = int c" "as_isize stop = int stop" "as_isize 16 = 16"
    using assms by (simp_all add: as_isize_def isize_max_def)
  have w: "isize_wrap (int c - (int stop - 1)) = int (c + 1 - stop)"
    "isize_wrap (int (c + 1 - stop) + 16 - 1) = int (c + 1 - stop + 15)"
    using assms by (simp_all add: isize_wrap_id isize_max_def of_nat_diff)
  have "isize_div (int (c + 1 - stop + 15)) 16 = int ((c + 1 - stop + 15) div 16)"
    unfolding isize_div_def by (simp only: zdiv_int of_nat_numeral) simp
  moreover have "(c + 1 - stop + 15) div 16 < usize_modulus" using assms(3) by (simp add: usize_modulus_def isize_max_def)
  ultimately show "as_usize (isize_div (isize_wrap (isize_wrap (as_isize c - (as_isize stop - 1)) + as_isize 16 - 1)) (as_isize 16)) = (c + 1 - stop + 15) div 16"
    unfolding conv w by (simp only: as_usize_def) simp
  show "\<not> isize_wrap (as_isize c - (as_isize stop - 1)) < 0" unfolding conv w by simp
qed

lemma round_up_16: "d \<le> 16 * ((d + 15) div 16)" "16 * ((d + 15) div 16) \<le> d + 15" for d :: nat
proof -
  obtain a b where "(d + 15) div 16 = a" "(d + 15) mod 16 = b" "d + 15 = 16 * a + b" "b < 16"
    by (metis mod_less_divisor mult_div_mod_eq zero_less_numeral)
  then show "d \<le> 16 * ((d + 15) div 16)" "16 * ((d + 15) div 16) \<le> d + 15" by simp_all
qed

lemma update_offset_up:
  assumes "scrollable H w hv buf" "main_caret buf < hv_start_offset hv" "n = (hv_start_offset hv - main_caret buf + 15) div 16"
  shows "scrolled hv (hv_start_offset hv - 16 * n) (scroll_up H w n hv)"
    "main_caret_shown (hv\<lparr>hv_start_offset := hv_start_offset hv - 16 * n\<rparr>) buf"
proof -
  note s = scrollable_simps [OF assms(1)]
  let ?c = "main_caret buf" and ?st = "hv_start_offset hv"
  have n: "?st - ?c \<le> 16 * n" "16 * n \<le> ?st - ?c + 15" using round_up_16 [of "?st - ?c"] assms(3) by simp_all
  obtain q where q: "?st = 16 * q" using s(5) by auto
  have le: "16 * n \<le> ?st"
  proof -
    have "n < q + 1" using n(2) q assms(2) by linarith
    then show ?thesis using q by simp
  qed
  have ok: "scrollable H w (hv\<lparr>hv_start_offset := ?st - 16 * n\<rparr>) buf"
    using s(5,6) by (intro scrollable_start assms(1)) (auto intro: dvd_diff_nat)
  show shown: "main_caret_shown (hv\<lparr>hv_start_offset := ?st - 16 * n\<rparr>) buf"
    by (rule scrollable_shown [OF ok]) (use n le s(3) assms(2) in simp_all, linarith?)
  show "scrolled hv (?st - 16 * n) (scroll_up H w n hv)" by (rule scroll_up_ok [OF assms(1) le shown])
qed

lemma update_offset_down:
  assumes "scrollable H w hv buf" "stop = hv_start_offset hv + (hv_height hv - 1) * 16" "stop \<le> main_caret buf"
    "n = (main_caret buf + 1 - stop + 15) div 16"
  shows "scrolled hv (hv_start_offset hv + 16 * n) (scroll_down H w n hv)"
    "main_caret_shown (hv\<lparr>hv_start_offset := hv_start_offset hv + 16 * n\<rparr>) buf"
    "hv_start_offset hv + 16 * n \<le> length (buf_data buf)"
proof -
  note s = scrollable_simps [OF assms(1)]
  let ?c = "main_caret buf" and ?st = "hv_start_offset hv"
  have c: "?c \<le> length (buf_data buf)" using assms(1) view_ok_caret(2) by (auto simp: scrollable_def)
  have n: "?c + 1 - stop \<le> 16 * n" "16 * n \<le> ?c + 1 - stop + 15" using round_up_16 [of "?c + 1 - stop"] assms(4) by simp_all
  have h: "64 \<le> (hv_height hv - 1) * 16" using s(3) by linarith
  have lt: "?st + 16 * n < length (buf_data buf)" using n(2) h assms(2,3) c by linarith
  then show "?st + 16 * n \<le> length (buf_data buf)" by simp
  have ok: "scrollable H w (hv\<lparr>hv_start_offset := ?st + 16 * n\<rparr>) buf"
    using s(5) lt by (intro scrollable_start assms(1)) auto
  have "?st + 16 * n \<le> ?c" "?c < ?st + 16 * n + (hv_height hv - 1) * 16" using n h assms(2,3) by linarith+
  then show shown: "main_caret_shown (hv\<lparr>hv_start_offset := ?st + 16 * n\<rparr>) buf"
    by (intro scrollable_shown [OF ok]) simp_all
  show "scrolled hv (?st + 16 * n) (scroll_down H w n hv)" by (rule scroll_down_ok [OF assms(1) lt shown])
qed

lemma maybe_update_offset_ok:
  assumes "scrollable H w hv buf"
  shows "\<exists>s. scrolled hv s (maybe_update_offset H w hv) \<and> 16 dvd s \<and> s \<le> length (buf_data buf) \<and>
    main_caret_shown (hv\<lparr>hv_start_offset := s\<rparr>) buf"
proof -
  note s = scrollable_simps [OF assms]
  let ?c = "main_caret buf" and ?st = "hv_start_offset hv" and ?len = "length (buf_data buf)"
  have v: "view_ok H w hv buf" using assms by (simp add: scrollable_def)
  note c = view_ok_caret(1,2) [OF v]
  let ?stop = "?st + (hv_height hv - 1) * 16"
  have range: "visible_range hv ?len = (?st, min (?len + 1) ?stop)" by (rule placed_range [OF s(8)])
  have h: "64 \<le> (hv_height hv - 1) * 16" using s(3) by linarith
  have stay: "scrolled hv ?st (Inr ([], hv))" by (auto simp: scrolled_def intro!: exI [of _ "hv_last_visible_rows hv"])
  consider (empty) "buf_data buf = []" | (up) "buf_data buf \<noteq> []" "?c < ?st"
    | (down) "buf_data buf \<noteq> []" "?stop \<le> ?c" | (here) "buf_data buf \<noteq> []" "?st \<le> ?c" "?c < ?stop" by linarith
  then show ?thesis
  proof cases
    case empty
    have "scrolled hv 0 (Inr ([], hv\<lparr>hv_start_offset := 0\<rparr>))"
      by (auto simp: scrolled_def intro!: exI [of _ "hv_last_visible_rows hv"])
    moreover have "main_caret_shown (hv\<lparr>hv_start_offset := 0\<rparr>) buf"
      by (rule scrollable_shown [OF scrollable_start [OF assms]]) (use empty c(2) h in simp_all)
    ultimately show ?thesis using empty s(1) by (intro exI [of _ 0]) (simp add: maybe_update_offset_def)
  next
    case up
    let ?n = "(?st - ?c + 15) div 16"
    have "maybe_update_offset H w hv = scroll_up H w ?n hv"
    proof -
      have "isize_wrap (as_isize ?c - as_isize ?st) < 0"
        using up(2) s(6,7) by (simp add: as_isize_def isize_wrap_id isize_max_def)
      then show ?thesis
        using up s c(1) lines_up [OF up(2)] by (simp add: maybe_update_offset_def range Let_def as_isize_def isize_max_def)
    qed
    with update_offset_up [OF assms up(2) refl] s(5,6) show ?thesis
      by (intro exI [of _ "?st - 16 * ?n"]) (auto intro: dvd_diff_nat)
  next
    case down
    let ?n = "(?c + 1 - ?stop + 15) div 16"
    have m: "min (?len + 1) ?stop = ?stop" using down(2) c(2) by simp
    have "maybe_update_offset H w hv = scroll_down H w ?n hv"
      using down s c lines_down [OF down(2)] h
      by (simp add: maybe_update_offset_def range m Let_def as_isize_def isize_max_def)
    with update_offset_down [OF assms refl down(2) refl] s(5) show ?thesis
      by (intro exI [of _ "?st + 16 * ?n"]) auto
  next
    case here
    then have "\<not> ?c < ?st" "\<not> min (?len + 1) ?stop \<le> ?c" using c(2) by simp_all
    then have "maybe_update_offset H w hv = Inr ([], hv)"
      using s(1) c(1) here(1) unfolding maybe_update_offset_def by (simp only: and_then_Inr Let_def range fst_conv snd_conv if_False)
    moreover have "main_caret_shown hv buf" by (rule scrollable_shown [OF assms here(2,3)])
    ultimately show ?thesis using stay s(5,6) by (intro exI [of _ ?st]) simp
  qed
qed

end
