(* ===== verification/Main_Flags.thy ===== *)
theory Main_Flags
  imports Buffer_Maps Mode_Edit Mode_Normal
begin

text \<open>
  Exactly the main region carries the flag \<open>main\<close>: the drawing code finds the main caret by the flag, the
  rest of the editor by the index, so every operation has to keep the two together. The lemmas of this
  theory say of each operation that, when it returns, the flag is where the index says, in the selection
  and in every selection the history will bring back; \<open>flags_ok\<close> is that invariant of a buffer.
\<close>

section \<open>Mapping closures\<close>

lemma merge_region_main: "merge_region a b = Inr m \<Longrightarrow> main m \<longleftrightarrow> main a \<or> main b"
  by (auto simp: merge_region_def Let_def and_then_eq_Inr split: if_splits)

text \<open>A closure that gives one region and no new flag.\<close>

definition flag_free :: "('s \<Rightarrow> sel_region \<Rightarrow> (sel_region list \<times> 's) outcome) \<Rightarrow> bool" where
  "flag_free f \<longleftrightarrow> (\<forall>st r new st'. f st r = Inr (new, st') \<longrightarrow> (\<exists>q. new = [q] \<and> (main q \<longrightarrow> main r)))"

lemma flag_freeD: "flag_free f \<Longrightarrow> f st r = Inr (new, st') \<Longrightarrow> \<exists>q. new = [q] \<and> (main q \<longrightarrow> main r)"
  unfolding flag_free_def by blast

lemma push_region_flags:
  assumes "push_region out r = Inr out'"
  shows "out' \<noteq> []" "length out \<le> length out'" "\<not> main r \<Longrightarrow> flags out' = flags out"
    "flags out = {} \<Longrightarrow> flags out' \<subseteq> {length out' - 1}"
proof -
  have "out' \<noteq> [] \<and> length out \<le> length out' \<and> (\<not> main r \<longrightarrow> flags out' = flags out) \<and>
    (flags out = {} \<longrightarrow> flags out' \<subseteq> {length out' - 1})"
  proof (cases "out = [] \<or> \<not> overlaps (last out) r")
    case True
    with assms have "out' = out @ [r]" by (simp add: push_region_def)
    then show ?thesis by (auto simp: flags_snoc split: if_splits)
  next
    case False
    then obtain ys y where out: "out = ys @ [y]" by (cases out rule: rev_cases) auto
    with False assms obtain m where "merge_region y r = Inr m" "out' = ys @ [m]"
      by (auto simp: push_region_def and_then_eq_Inr)
    with merge_region_main [of y r m] out show ?thesis by (auto simp: flags_snoc split: if_splits)
  qed
  then show "out' \<noteq> []" "length out \<le> length out'" "\<not> main r \<Longrightarrow> flags out' = flags out"
    "flags out = {} \<Longrightarrow> flags out' \<subseteq> {length out' - 1}" by blast+
qed

lemma map_loop_after_main:
  assumes "map_loop f m i rs st out nm = Inr ((out', nm'), st')" "flag_free f" "flags rs = {}" "m < i" "nm < length out"
  shows "nm' = nm \<and> flags out' = flags out \<and> nm < length out'"
  using assms
proof (induction rs arbitrary: i st out)
  case (Cons r rs)
  from Cons.prems(1,4) obtain new st1 out1 where l: "f st r = Inr (new, st1)" "push_regions out new = Inr out1"
    "map_loop f m (Suc i) rs st1 out1 nm = Inr ((out', nm'), st')"
    by (auto simp: and_then_eq_Inr)
  have none: "\<not> main r" "flags rs = {}"
    using Cons.prems(3) flags_empty [of "r # rs" r] flags_Cons(2) [of _ r rs] by auto
  then obtain q where q: "new = [q]" "\<not> main q" using flag_freeD [OF Cons.prems(2) l(1)] by blast
  then have "push_region out q = Inr out1" using l(2) by (simp add: and_then_eq_Inr)
  note out1 = push_region_flags(2,3) [OF this]
  have "nm' = nm \<and> flags out' = flags out1 \<and> nm < length out'"
    by (rule Cons.IH [OF l(3) Cons.prems(2) none(2)]) (use Cons.prems(4,5) out1 in auto)
  with out1 q show ?case by simp
qed simp

lemma map_loop_flags:
  assumes "map_loop f (i + k) i rs st out nm = Inr ((out', nm'), st')" "flag_free f" "flags rs = {k}" "flags out = {}"
  shows "flags out' = {nm'} \<and> nm' < length out'"
  using assms
proof (induction rs arbitrary: i k st out)
  case (Cons r rs)
  from Cons.prems(1) obtain new st1 out1 where l: "f st r = Inr (new, st1)" "push_regions out new = Inr out1"
    by (auto simp: and_then_eq_Inr)
  obtain q where q: "new = [q]" "main q \<longrightarrow> main r" using flag_freeD [OF Cons.prems(2) l(1)] by blast
  then have "push_region out q = Inr out1" using l(2) by (simp add: and_then_eq_Inr)
  note out1 = push_region_flags [OF this]
  show ?case
  proof (cases k)
    case 0
    let ?out = "butlast out1 @ [(last out1)\<lparr>main := True\<rparr>]"
    have rest: "map_loop f i (Suc i) rs st1 ?out (length out1 - 1) = Inr ((out', nm'), st')"
      using Cons.prems(1) l out1(1) by (simp add: 0)
    have "flags ?out = {length out1 - 1}" by (rule flags_mark_last [OF out1(1) out1(4) [OF Cons.prems(4)]])
    moreover have "flags rs = {}" using Cons.prems(3) flags_Cons_zero by (simp add: 0)
    then have "nm' = length out1 - 1 \<and> flags out' = flags ?out \<and> length out1 - 1 < length out'"
      by (rule map_loop_after_main [OF rest Cons.prems(2)]) simp_all
    ultimately show ?thesis by simp
  next
    case (Suc k')
    from flags_Cons_Suc [of r rs k'] Cons.prems(3) have none: "\<not> main r" "flags rs = {k'}" by (simp_all add: Suc)
    have rest: "map_loop f (Suc i + k') (Suc i) rs st1 out1 nm = Inr ((out', nm'), st')"
      using Cons.prems(1) l by (simp add: Suc)
    show ?thesis by (rule Cons.IH [OF rest Cons.prems(2) none(2)]) (use out1(3) q none(1) Cons.prems(4) in blast)
  qed
qed simp

lemma map_selections_flags:
  assumes "map_selections f st s = Inr (s', st')" "flag_free f" "wf_selection s" "main_flags s"
  shows "main_flags s'"
proof -
  obtain out nm where l: "map_loop f (0 + main_selection s) 0 (regions s) st [] 0 = Inr ((out, nm), st')"
    and s': "s' = \<lparr>regions = out, main_selection = nm\<rparr>"
    using assms(1) by (auto simp: map_selections_def and_then_eq_Inr)
  have "main_selection s < length (regions s)" using assms(3) by (simp add: wf_selection_def)
  then have "flags (regions s) = {main_selection s}" using assms(4) main_flags_iff by blast
  from map_loop_flags [OF l assms(2) this] show ?thesis by (simp add: s' main_flags_iff)
qed

lemma single_flag_free: "(\<And>r. main (g r) \<Longrightarrow> main r) \<Longrightarrow> flag_free (single g)"
  by (auto simp: flag_free_def single_def)

lemma one_region_flag_free: "(\<And>r r'. g r = Inr r' \<Longrightarrow> main r' \<Longrightarrow> main r) \<Longrightarrow> flag_free (one_region g)"
  by (auto simp: flag_free_def one_region_def and_then_eq_Inr)

lemma selection_delta_flags:
  assumes "wf_selection s" "main_flags s"
  shows "selection_apply_delta X d n s = Inr s' \<Longrightarrow> main_flags s'"
    and "selection_apply_delta_offset_carets X d c t n s = Inr s' \<Longrightarrow> main_flags s'"
proof -
  have "main_flags (clear s)" by (simp add: clear_def main_flags_def)
  moreover have "flag_free (single (\<lambda>r. region_new (c r) (t r)))" for c t by (rule single_flag_free) simp
  ultimately show "selection_apply_delta X d n s = Inr s' \<Longrightarrow> main_flags s'"
    "selection_apply_delta_offset_carets X d c t n s = Inr s' \<Longrightarrow> main_flags s'"
    using map_selections_flags assms
    by (fastforce simp: selection_apply_delta_def selection_apply_delta_offset_carets_def Let_def and_then_eq_Inr
        split: if_splits)+
qed

section \<open>Choosing among the regions\<close>

lemma switch_flags:
  assumes "main_flags s" "set_main (regions s) (main_selection s) False = Inr rs" "set_main rs m True = Inr rs'"
  shows "main_flags \<lparr>regions = rs', main_selection = m\<rparr>"
  using assms by (auto simp: set_main_def main_flags_def nth_list_update split: if_splits)

lemma select_flags:
  "main_flags s \<Longrightarrow> select_next k s = Inr s' \<Longrightarrow> main_flags s'"
  "main_flags s \<Longrightarrow> select_prev k s = Inr s' \<Longrightarrow> main_flags s'"
  by (auto simp: select_next_def select_prev_def and_then_eq_Inr Let_def intro: switch_flags)

lemma retain_flags: "retain i s = Inr s' \<Longrightarrow> main_flags s'"
  by (auto simp: retain_def main_flags_def split: if_splits)

text \<open>Removing the main region; removing one in front of it would leave its flag behind.\<close>

lemma remove_main_flags:
  assumes "main_flags s" "remove (main_selection s) s = Inr s'"
  shows "main_flags s'"
proof (cases "length (regions s) = 1")
  case True
  with assms show ?thesis by (simp add: remove_def)
next
  case False
  let ?rs = "take (main_selection s) (regions s) @ drop (Suc (main_selection s)) (regions s)"
  have none: "\<not> main (?rs ! j)" if "j < length ?rs" for j
    using assms(1) that by (auto simp: main_flags_def nth_append)
  from False assms(2) obtain rs' m where s': "set_main ?rs m True = Inr rs'" "s' = \<lparr>regions = rs', main_selection = m\<rparr>"
    by (auto simp: remove_def and_then_eq_Inr Let_def split: if_splits)
  then have "rs' = ?rs[m := (?rs ! m)\<lparr>main := True\<rparr>]" "m < length ?rs" by (auto simp: set_main_def split: if_splits)
  with none show ?thesis unfolding s'(2) main_flags_def by (auto simp: nth_list_update simp del: length_append)
qed

lemma select_all_flags: "main_flags (select_all n s)"
  by (simp add: select_all_def clear_def main_flags_def)

section \<open>Buffers\<close>

definition history_selections :: "'d history \<Rightarrow> selection set" where
  "history_selections h = snd ` set (undo_stack h) \<union> snd ` set (redo_stack h) \<union> snd ` set_option (partial h)"

definition flags_ok :: "'d buffer \<Rightarrow> bool" where
  "flags_ok buf \<longleftrightarrow> main_flags (buf_selection buf) \<and> (\<forall>s\<in>history_selections (buf_history buf). main_flags s)"

lemma flags_ok_new: "flags_ok (from_data_and_path bs p)"
  by (simp add: flags_ok_def from_data_and_path_def history_new_def history_selections_def selection_new_def main_flags_def)

lemma flags_ok_selection: "flags_ok buf \<Longrightarrow> main_flags s \<Longrightarrow> flags_ok (buf\<lparr>buf_selection := s\<rparr>)"
  by (simp add: flags_ok_def)

lemma performed_flags:
  assumes "flags_ok buf" "main_flags s"
  shows "flags_ok ((apply_delta_to_current_buffer X d b buf)\<lparr>buf_selection := s\<rparr>)"
  using assms by (cases b) (auto simp: flags_ok_def history_selections_def apply_delta_to_current_buffer_def
      perform_final_def perform_partial_def Let_def split: option.splits)

lemma commit_flags: "flags_ok buf \<Longrightarrow> flags_ok (commit_delta buf)"
  by (auto simp: flags_ok_def history_selections_def commit_delta_def commit_partial_def split: option.splits)

lemma undo_flags:
  assumes "flags_ok buf" "perform_undo X buf = (r, buf')"
  shows "flags_ok buf'"
proof (cases "undo_stack (buf_history buf)" rule: rev_cases)
  case Nil
  with assms show ?thesis by (auto simp: perform_undo_def undo_def)
next
  case (snoc ys y)
  with assms show ?thesis
    by (cases y) (fastforce simp: flags_ok_def history_selections_def perform_undo_def undo_def)
qed

lemma redo_flags:
  assumes "flags_ok buf" "perform_redo X buf = (r, buf')"
  shows "flags_ok buf'"
proof (cases "redo_stack (buf_history buf)" rule: rev_cases)
  case Nil
  with assms show ?thesis by (auto simp: perform_redo_def redo_def)
next
  case (snoc ys y)
  with assms show ?thesis
    by (cases y) (fastforce simp: flags_ok_def history_selections_def perform_redo_def redo_def)
qed

end
