(* ===== verification/Reports.thy ===== *)
theory Reports
  imports Main_Flags Insert_Safe Region_Moves
begin

text \<open>
  What a handler tells the view. The view repaints by the report alone: without one it repaints nothing,
  on \<open>ChangeInPlace\<close> it repaints ranges and keeps its first row, on \<open>ChangeLength\<close> it repaints everything.
  \<open>honest\<close> says that the report covers what happened: no report means that neither bytes nor selection
  changed, and an in-place report that the data did not get shorter (so that the first row is still inside it).
\<close>

definition reported :: "mode_transition \<Rightarrow> dirty_bytes option" where
  "reported t = (case t of DirtyBytes d \<Rightarrow> Some d | ModeAndDirtyBytes _ d \<Rightarrow> Some d | _ \<Rightarrow> None)"

definition covers :: "dirty_bytes option \<Rightarrow> 'd buffer \<Rightarrow> 'd buffer \<Rightarrow> bool" where
  "covers rep buf buf' \<longleftrightarrow> buf_path buf' = buf_path buf \<and>
     (case rep of
        None \<Rightarrow> buf_data buf' = buf_data buf \<and> buf_selection buf' = buf_selection buf
      | Some (ChangeInPlace _) \<Rightarrow> length (buf_data buf) \<le> length (buf_data buf')
      | Some ChangeLength \<Rightarrow> True)"

definition honest :: "'d buffer \<Rightarrow> (mode_transition \<times> 'd buffer) outcome \<Rightarrow> bool" where
  "honest buf out \<longleftrightarrow> (\<forall>t buf'. out = Inr (t, buf') \<longrightarrow> flags_ok buf' \<and> covers (reported t) buf buf')"

definition honest_change :: "'d buffer \<Rightarrow> (dirty_bytes \<times> 'd buffer) outcome \<Rightarrow> bool" where
  "honest_change buf out \<longleftrightarrow> (\<forall>d buf'. out = Inr (d, buf') \<longrightarrow> flags_ok buf' \<and> covers (Some d) buf buf')"

lemma reported_simps [simp]:
  "reported TNone = None" "reported (NewMode m) = None" "reported (ModeAndInfo m i) = None"
  "reported (DirtyBytes d) = Some d" "reported (ModeAndDirtyBytes m d) = Some d"
  by (simp_all add: reported_def)

lemma honest_panic [simp]: "honest buf (Inl p)" "honest_change buf (Inl p)"
  by (simp_all add: honest_def honest_change_def)

lemma honest_same [simp]:
  "reported t = None \<Longrightarrow> honest buf (Inr (t, buf)) \<longleftrightarrow> flags_ok buf"
  by (simp add: honest_def covers_def)

lemma honest_then:
  assumes "honest_change buf out" "\<And>d. reported (t d) = Some d"
  shows "honest buf (and_then out (\<lambda>(d, buf'). Inr (t d, buf')))"
  using assms by (auto simp: honest_def honest_change_def and_then_eq_Inr)

lemma honest_new_mode [simp]: "honest_change buf out \<Longrightarrow> honest buf (and_new_mode m out)"
  and honest_dirty [simp]: "honest_change buf out \<Longrightarrow> honest buf (and_dirty out)"
  unfolding and_new_mode_def and_dirty_def by (auto intro: honest_then)

lemma covers_like:
  assumes "buf_path b = buf_path buf" "buf_data b = buf_data buf" "buf_selection b = buf_selection buf"
  shows "covers r b buf' = covers r buf buf'"
  by (simp only: covers_def assms)

lemma honest_registers [simp]:
  "honest (buf\<lparr>buf_registers := g\<rparr>) out = honest buf out"
  "honest_change (buf\<lparr>buf_registers := g\<rparr>) out' = honest_change buf out'"
  "flags_ok (buf\<lparr>buf_registers := g\<rparr>) = flags_ok buf"
  by (simp_all add: honest_def honest_change_def covers_like [of "buf\<lparr>buf_registers := g\<rparr>" buf] flags_ok_def)

lemma honest_yanked [simp]:
  "reported t = None \<Longrightarrow> honest buf (Inr (t, buf\<lparr>buf_registers := g\<rparr>)) \<longleftrightarrow> flags_ok buf"
  by (simp add: honest_def covers_def)

lemma yanked: "yank_selections reg buf = Inr buf1 \<Longrightarrow> \<exists>g. buf1 = buf\<lparr>buf_registers := g\<rparr>"
  by (auto simp: yank_selections_def and_then_eq_Inr split: if_splits)

section \<open>The operations of a buffer\<close>

lemma map_honest:
  assumes "flags_ok buf" "wf_selection (buf_selection buf)" "flag_free f"
  shows "honest_change buf (buffer_map_selections X f st buf)"
  using assms
  by (auto simp: honest_change_def covers_def buffer_map_selections_eq and_then_eq_Inr flags_ok_def
      intro: map_selections_flags)

lemma covers_path: "covers r buf buf' \<Longrightarrow> buf_path buf' = buf_path buf"
  by (simp add: covers_def)

lemma map_honest_after:
  assumes "honest_change buf1 (buffer_map_selections X f st buf1)" "buf_path buf1 = buf_path buf"
    "length (buf_data buf) \<le> length (buf_data buf1)"
  shows "honest_change buf (buffer_map_selections X f st buf1)"
proof (cases "map_selections f st (buf_selection buf1)")
  case (Inr p)
  then obtain ivs s where out: "buffer_map_selections X f st buf1 = Inr (ChangeInPlace ivs, buf1\<lparr>buf_selection := s\<rparr>)"
    by (cases p) (simp add: buffer_map_selections_eq)
  from assms show ?thesis unfolding out by (simp add: honest_change_def covers_def)
qed (simp add: buffer_map_selections_eq)

lemma apply_honest:
  assumes "flags_ok buf" "wf_selection (buf_selection buf)"
  shows "honest_change buf (buffer_apply_delta X d buf)" "honest_change buf (apply_incomplete_delta X d buf)"
    "honest_change buf (apply_incomplete_delta_offset_carets X d c t buf)"
proof -
  have "main_flags (buf_selection buf)" using assms(1) by (simp add: flags_ok_def)
  note flags = selection_delta_flags [OF assms(2) this]
  show "honest_change buf (buffer_apply_delta X d buf)" "honest_change buf (apply_incomplete_delta X d buf)"
    "honest_change buf (apply_incomplete_delta_offset_carets X d c t buf)"
    by (auto simp: honest_change_def covers_def buffer_apply_delta_def apply_incomplete_delta_def
        apply_incomplete_delta_offset_carets_def and_then_eq_Inr
        intro!: performed_flags [OF assms(1)] dest: flags)
qed

lemma pick_honest:
  assumes "flags_ok buf" "\<And>s'. f (buf_selection buf) = Inr s' \<Longrightarrow> main_flags s'"
  shows "honest_change buf (modify_sels_in_place X f buf)" "honest_change buf (switch_main_sel X f buf)"
  using assms
  by (auto simp: honest_change_def covers_def modify_sels_in_place_def switch_main_sel_def and_then_eq_Inr
      intro: flags_ok_selection)

lemma undo_honest:
  assumes "flags_ok buf"
  shows "honest buf (case perform_undo X buf of
      (None, buf') \<Rightarrow> Inr (ModeAndInfo m i, buf') | (Some changed, buf') \<Rightarrow> Inr (ModeAndDirtyBytes m changed, buf'))"
    and "honest buf (case perform_redo X buf of
      (None, buf') \<Rightarrow> Inr (ModeAndInfo m i, buf') | (Some changed, buf') \<Rightarrow> Inr (ModeAndDirtyBytes m changed, buf'))"
  using undo_flags [OF assms, of X] redo_flags [OF assms, of X]
  by (auto simp: honest_def covers_def perform_undo_def perform_redo_def undo_def redo_def
      split: prod.splits option.splits if_splits)

section \<open>Handlers\<close>

lemma moves_flag_free:
  "flag_free (single (\<lambda>r. simple_move r d b n k))" "flag_free (single (\<lambda>r. simple_extend r d b n k))"
  "flag_free (single swap_caret)" "flag_free (single collapse)" "flag_free (single to_backward)"
  "flag_free (single (append_region b n))" "flag_free (single (\<lambda>r. jump_to r k))" "flag_free (single (\<lambda>r. extend_to r k))"
  "flag_free (single (insert_move_closure d b n hf))"
  by (auto intro!: single_flag_free simp: simple_move_def simple_extend_def swap_caret_def collapse_def
      to_backward_def to_forward_def append_region_def jump_to_def extend_to_def insert_move_closure_def Let_def split: if_splits)

lemma boundary_flag_free:
  "flag_free (one_region (\<lambda>r. if ext then extend_to_boundary r d b n else jump_to_boundary r d b n))"
  by (rule one_region_flag_free)
    (auto simp: extend_to_boundary_def jump_to_boundary_def and_then_eq_Inr split: if_splits)

lemma honest_and_then: "(\<And>x. r = Inr x \<Longrightarrow> honest buf (f x)) \<Longrightarrow> honest buf (and_then r f)"
  by (cases r) simp_all

lemma choose_honest:
  assumes flags: "flags_ok buf" and wf: "wf_selection (buf_selection buf)"
  shows "honest buf (normal_remove_main X NoCount buf)" "honest buf (normal_retain_main X st buf)"
    "honest_change buf (buffer_select_next X k buf)" "honest_change buf (buffer_select_prev X k buf)"
    "honest buf (normal_select_all buf)"
proof -
  have main: "main_flags (buf_selection buf)" using flags by (simp add: flags_ok_def)
  have "index_mod (main_selection (buf_selection buf)) (buf_selection buf) = Inr (main_selection (buf_selection buf))"
    using wf by (auto simp: index_mod_def wf_selection_def)
  then have "honest_change buf (remove_selection X (main_selection (buf_selection buf)) buf)"
    unfolding remove_selection_def
    by (intro pick_honest(1) [OF flags]) (use main remove_main_flags in auto)
  then show "honest buf (normal_remove_main X NoCount buf)" by (simp add: normal_remove_main_def)
  have "honest_change buf (retain_selection X k buf)" for k
    unfolding retain_selection_def by (intro pick_honest(1) [OF flags]) (auto simp: and_then_eq_Inr intro: retain_flags)
  then show "honest buf (normal_retain_main X st buf)" by (simp add: normal_retain_main_def split: count_state.split)
  show "honest_change buf (buffer_select_next X k buf)" "honest_change buf (buffer_select_prev X k buf)"
    unfolding buffer_select_next_def buffer_select_prev_def
    by (rule pick_honest(2) [OF flags select_flags(1) [OF main]] pick_honest(2) [OF flags select_flags(2) [OF main]]; assumption)+
  show "honest buf (normal_select_all buf)"
    using flags by (simp add: normal_select_all_def honest_def covers_def flags_ok_def select_all_flags)
qed

lemma yank_honest:
  assumes flags: "flags_ok buf" and wf: "wf_selection (buf_selection buf)"
  shows "honest buf (normal_action_transition X st (Delete reg) bpl buf)" "honest buf (normal_action_transition X st (Change hex reg) bpl buf)"
    "honest buf (normal_action_transition X st (Yank reg) bpl buf)"
proof -
  have "honest_change buf (buffer_apply_delta X d (buf\<lparr>buf_registers := g\<rparr>))" for d g
    using apply_honest(1) [of "buf\<lparr>buf_registers := g\<rparr>"] flags wf by simp
  then show "honest buf (normal_action_transition X st (Delete reg) bpl buf)" "honest buf (normal_action_transition X st (Change hex reg) bpl buf)"
    "honest buf (normal_action_transition X st (Yank reg) bpl buf)"
    using flags by (auto simp: normal_action_transition_def intro!: honest_and_then dest!: yanked)
qed

text \<open>A count in front of the key that removes the main region removes another region instead, after which the
  flag may be on the wrong one; every other action reports honestly.\<close>

theorem normal_action_honest:
  assumes flags: "flags_ok buf" and wf: "wf_selection (buf_selection buf)" and st: "act = RemoveMain \<Longrightarrow> st = NoCount"
  shows "honest buf (normal_action_transition X st act bpl buf)"
proof (cases act)
  case (Paste after reg)
  with apply_honest(1) [OF flags wf, where X = X] show ?thesis
    by (auto simp: normal_action_transition_def intro!: honest_and_then)
next
  case Measure
  with flags show ?thesis by (auto simp: normal_action_defs intro!: honest_and_then)
qed (use flags st yank_honest [OF flags wf, where X = X] choose_honest(1-4) [OF flags wf, where X = X] choose_honest(5) [OF flags wf] undo_honest [OF flags, where X = X]
      moves_flag_free [THEN map_honest [OF flags wf, where X = X]] in
      \<open>simp_all add: normal_action_transition_def normal_undo_def normal_redo_def Let_def split: count_state.split\<close>)

text \<open>Handlers that may leave an event to the view, which then finds the buffer as it was.\<close>

definition honest_answer :: "'d buffer \<Rightarrow> (mode_transition option \<times> 'd buffer) outcome \<Rightarrow> bool" where
  "honest_answer buf out \<longleftrightarrow>
     (\<forall>t buf'. out = Inr (Some t, buf') \<longrightarrow> honest buf (Inr (t, buf'))) \<and> (\<forall>buf'. out = Inr (None, buf') \<longrightarrow> buf' = buf)"

lemma honest_answer_simps [simp]:
  "honest_answer buf (Inl p)" "honest_answer buf (Inr (None, buf))"
  "honest_answer buf (Inr (Some t, buf')) = honest buf (Inr (t, buf'))"
  "honest_answer buf (and_then out (\<lambda>(t, buf'). Inr (Some t, buf'))) = honest buf out"
  by (auto simp: honest_answer_def honest_def and_then_eq_Inr)

lemma honest_answer_then:
  assumes "honest_change buf out" "\<And>d. reported (t d) = Some d"
  shows "honest_answer buf (and_then out (\<lambda>(d, buf'). Inr (Some (t d), buf')))"
  using assms by (auto simp: honest_answer_def honest_def honest_change_def and_then_eq_Inr)

lemma honest_answer_and_then: "(\<And>x. r = Inr x \<Longrightarrow> honest_answer buf (f x)) \<Longrightarrow> honest_answer buf (and_then r f)"
  by (cases r) simp_all

lemma honest_answer_edit:
  assumes "\<And>d. honest_change buf (g d)" "\<And>d. reported (t d) = Some d"
  shows "honest_answer buf (and_then r (\<lambda>d. and_then (g d) (\<lambda>(c, buf'). Inr (Some (t c), buf'))))"
    and "honest buf (and_then r (\<lambda>d. and_then (g d) (\<lambda>(c, buf'). Inr (t c, buf'))))"
  using assms by (auto intro: honest_answer_and_then honest_and_then honest_answer_then honest_then)

lemma replace_honest:
  assumes "flags_ok buf" "wf_selection (buf_selection buf)"
  shows "honest_answer buf (replace_transition X hex half evt buf)"
proof -
  have "honest_answer buf (replace_with X c buf)" for c
    unfolding replace_with_def by (intro honest_answer_edit apply_honest assms) simp
  with assms(1) show ?thesis
    by (auto simp: replace_transition_def intro!: honest_answer_and_then
        split: event.split key_code.split option.split replace_action.split)
qed

lemma jumpto_honest:
  assumes "flags_ok buf" "wf_selection (buf_selection buf)"
  shows "honest_answer buf (jumpto_transition X ext evt bpl buf)"
proof -
  have "honest_answer buf (and_then (buffer_map_selections X
      (one_region (\<lambda>r. if ext then extend_to_boundary r d bpl n else jump_to_boundary r d bpl n)) () buf)
      (\<lambda>(changed, buf'). Inr (Some (ModeAndDirtyBytes normal_new changed), buf')))" for d n
    by (intro honest_answer_then map_honest boundary_flag_free assms) simp
  with assms(1) show ?thesis
    by (auto simp: jumpto_transition_def Let_def split: event.split option.split)
qed

lemma ascii_honest:
  assumes "flags_ok buf" "wf_selection (buf_selection buf)"
  shows "honest buf (transition_ascii_insertion X key im buf)"
  unfolding transition_ascii_insertion_def Let_def
  by (intro honest_answer_edit apply_honest assms) simp

lemma hex_honest:
  assumes "flags_ok buf" "wf_selection (buf_selection buf)"
  shows "honest_answer buf (transition_hex_insertion X key im half buf)"
  using apply_honest [OF assms, where X = X]
  by (cases half) (auto simp: transition_hex_insertion_def Let_def honest_answer_edit intro!: honest_answer_and_then [of "to_digit key"])

context xi_rope
begin

text \<open>A cursor key after the first half of a byte fills in the second half and only then moves: the report is the one
  of the move, which is enough because the byte is filled in place.\<close>

lemma insert_action_honest:
  assumes ok: "buffer_ok X buf" and flags: "flags_ok buf" and b: "half \<noteq> None \<Longrightarrow> all_backward (buf_selection buf)"
  shows "honest buf (insert_action_transition X im hex half act bpl buf)"
proof -
  have wf: "wf_selection (buf_selection buf)" by (rule buffer_sel_ok(1) [OF ok])
  note honest = apply_honest(2) [OF flags wf, where X = X]
  show ?thesis
  proof (cases act)
    case (Move d)
    show ?thesis
    proof (cases half)
      case None
      with Move map_honest [OF flags wf moves_flag_free(9), where X = X] show ?thesis
        by (simp add: insert_action_transition_def Let_def honest_then)
    next
      case (Some h)
      have "is_ascii_hexdigit (ch (CHR ''0''))" by (simp add: is_ascii_hexdigit_def ch_def)
      then obtain t buf1 where b1: "transition_hex_insertion X (ch (CHR ''0'')) im (Some h) buf = Inr (Some t, buf1)"
        "buffer_ok X buf1" "length (buf_data buf) \<le> length (buf_data buf1)"
        using hex_second [OF ok b] Some by (metis option.distinct(1))
      have f1: "flags_ok buf1" "covers (reported t) buf buf1"
        using hex_honest [OF flags wf, where X = X and half = "Some h" and key = "ch (CHR ''0'')" and im = im] b1(1)
        by (simp_all add: honest_def)
      let ?out = "buffer_map_selections X (single (insert_move_closure d bpl (length (buf_data buf1)) True)) () buf1"
      have "honest_change buf1 ?out" by (rule map_honest [OF f1(1) buffer_sel_ok(1) [OF b1(2)] moves_flag_free(9)])
      then have "honest_change buf ?out"
        by (rule map_honest_after [OF _ covers_path [OF f1(2)] b1(3)])
      with Move Some b1(1) show ?thesis by (simp add: insert_action_transition_def Let_def honest_then)
    qed
  next
    case Exit
    have "honest buf (Inr (NewMode normal_new, commit_delta buf))"
      using commit_flags [OF flags] by (simp add: honest_def covers_def) (simp add: commit_delta_def)
    with Exit show ?thesis by (simp add: insert_action_transition_def)
  qed (cases half; use flags honest in \<open>simp add: insert_action_transition_def Let_def honest_answer_edit\<close>)+
qed

lemma insert_honest:
  assumes ok: "buffer_ok X buf" and flags: "flags_ok buf" and b: "half \<noteq> None \<Longrightarrow> all_backward (buf_selection buf)"
  shows "honest_answer buf (insert_transition X im hex half evt bpl buf)"
  using insert_action_honest [OF assms] ascii_honest [OF flags buffer_sel_ok(1) [OF ok], where X = X]
    hex_honest [OF flags buffer_sel_ok(1) [OF ok], where X = X]
  by (auto simp: insert_transition_def split: option.split event.split key_code.split)

end

end
