(* ===== verification/Session.thy ===== *)
theory Session
  imports View_Scroll Reports Insert_Session
begin

text \<open>
  The event loop over a mode and the view together. \<open>key_contract\<close> is the interface between the two: what the
  handlers of a class of keys have to guarantee so that the view can show what they did. Its lemmas carry one
  step and a run of the event loop; the first class of keys is navigation in normal mode.
\<close>

section \<open>Repainting what a mode reports\<close>

lemma scrollable_fields:
  assumes "hv_buffers hv' = hv_buffers hv" "hv_size hv' = hv_size hv" "hv_bytes_per_line hv' = hv_bytes_per_line hv"
    "hv_start_offset hv' = hv_start_offset hv" "hv_mode hv' = hv_mode hv"
  shows "scrollable H w hv' buf = scrollable H w hv buf" "main_caret_shown hv' buf = main_caret_shown hv buf"
  using assms by (simp_all add: scrollable_def view_ok_def hv_current_def main_caret_shown_def visible_range_def)

text \<open>The view after a repaint that may have scrolled: the same up to the first row and the number of rows.\<close>

definition repainted :: "('d, 's, 'b, 'w) host \<Rightarrow> 'w \<Rightarrow> 'd buffer \<Rightarrow> 'd hex_view \<Rightarrow> 'd hex_view \<Rightarrow> bool" where
  "repainted H w buf hv hv' \<longleftrightarrow> scrollable H w hv' buf \<and> main_caret_shown hv' buf \<and>
     hv_mode hv' = hv_mode hv \<and> hv_size hv' = hv_size hv"

lemma in_place_ok:
  assumes "scrollable H w hv buf"
  shows "\<exists>cmds hv'. transition_dirty_bytes H w (ChangeInPlace ivs) hv = Inr (cmds, hv') \<and> repainted H w buf hv hv'"
proof -
  obtain s where s: "scrolled hv s (maybe_update_offset H w hv)" "16 dvd s" "s \<le> length (buf_data buf)"
    "main_caret_shown (hv\<lparr>hv_start_offset := s\<rparr>) buf"
    using maybe_update_offset_ok [OF assms] by blast
  then obtain cmds rows where up: "maybe_update_offset H w hv =
      Inr (cmds, hv\<lparr>hv_start_offset := s, hv_last_visible_rows := rows\<rparr>)" by (auto simp: scrolled_def)
  let ?hv = "hv\<lparr>hv_start_offset := s, hv_last_visible_rows := rows\<rparr>"
  have ok: "scrollable H w ?hv buf" "main_caret_shown ?hv buf"
    using scrollable_start [OF assms s(2,3)] s(4)
      scrollable_fields(1) [of ?hv "hv\<lparr>hv_start_offset := s\<rparr>" H w buf]
      scrollable_fields(2) [of ?hv "hv\<lparr>hv_start_offset := s\<rparr>" buf] by simp_all
  have cur: "hv_current ?hv = Inr buf" by (rule scrollable_simps(1) [OF ok(1)])
  have "{0..<bp_height} \<subseteq> set (xs @ [0..<bp_height])" for xs by auto
  from draw_rows_loaded [OF ok this] have "\<exists>cmds. draw_rows H w (xs @ [0..<bp_height]) ?hv = Inr (cmds, ?hv)" for xs .
  then obtain paint where "\<And>xs. draw_rows H w (xs @ [0..<bp_height]) ?hv = Inr (paint xs, ?hv)" by metis
  with up cur ok show ?thesis
    by (simp add: transition_dirty_bytes_def and_draw_def visible_bytes_def repainted_def)
qed

text \<open>After a change of length the view is redrawn from a row that shows the main caret, wherever the first row was.\<close>

lemma redraw_loaded:
  assumes v: "view_ok H w hv buf" and loaded: "fully_loaded (host_io H) w buf" and h: "hv_height hv \<le> 65000"
  shows "\<exists>cmds hv'. transition_dirty_bytes H w ChangeLength hv = Inr (cmds, hv') \<and> repainted H w buf hv hv'"
proof -
  note c = view_ok_caret [OF v]
  obtain s where s: "offset_for hv (length (buf_data buf)) (main_caret buf) = Inr s" "16 dvd s" "s \<le> main_caret buf"
    "main_caret buf < snd (visible_range (hv\<lparr>hv_start_offset := s\<rparr>) (length (buf_data buf)))"
    using offset_for_shows [of hv "main_caret buf" "length (buf_data buf)"] v c(2) by (auto simp: view_ok_def bp_height_def)
  let ?hv = "hv\<lparr>hv_start_offset := s\<rparr>"
  have le: "s \<le> length (buf_data buf)" using s(3) c(2) by linarith
  then have "view_ok H w ?hv buf" using v by (intro view_ok_start s(2)) (simp_all add: view_ok_def)
  then have ok: "scrollable H w ?hv buf" using loaded h le by (simp add: scrollable_def)
  have shown: "main_caret_shown ?hv buf" using c(3) s(3,4) by (auto simp: main_caret_shown_def)
  obtain cmds rows where d: "draw H w ?hv = Inr (cmds, ?hv\<lparr>hv_last_visible_rows := rows\<rparr>)"
    using draw_loaded [OF ok shown] by blast
  let ?hv' = "?hv\<lparr>hv_last_visible_rows := rows\<rparr>"
  have "repainted H w buf hv ?hv'"
    using ok shown scrollable_fields(1) [of ?hv' ?hv H w buf] scrollable_fields(2) [of ?hv' ?hv buf] by (simp add: repainted_def)
  moreover have "hv_current hv = Inr buf" using v by (simp add: view_ok_def)
  ultimately show ?thesis
    using c(1) s(1) d by (auto simp: transition_dirty_bytes_def maybe_update_offset_and_draw_def)
qed

lemma statusline_same:
  assumes "scrollable H w hv buf"
  shows "\<exists>cmds. draw_statusline hv = Inr (cmds, hv)"
  by (rule draw_statusline_ok [OF scrollable_simps(1) [OF assms]])
    (use assms in \<open>auto simp: scrollable_def view_ok_def sel_ok_def\<close>)

text \<open>A buffer the view can show, and a view that shows it.\<close>

definition viewable :: "('d, 's, 'b, 'w) host \<Rightarrow> 'w \<Rightarrow> 'd buffer \<Rightarrow> bool" where
  "viewable H w buf \<longleftrightarrow> readable (host_io H) w buf \<and> fully_loaded (host_io H) w buf \<and>
     sel_ok (length (buf_data buf)) (buf_selection buf) \<and> main_flags (buf_selection buf) \<and> length (buf_data buf) + 64 \<le> isize_max"

definition showing :: "('d, 's, 'b, 'w) host \<Rightarrow> 'w \<Rightarrow> 'd hex_view \<Rightarrow> 'd buffer \<Rightarrow> bool" where
  "showing H w hv buf \<longleftrightarrow> scrollable H w hv buf \<and> main_caret_shown hv buf"

lemma showing_viewable: "showing H w hv buf \<Longrightarrow> viewable H w buf"
  by (auto simp: showing_def viewable_def scrollable_def view_ok_def)

text \<open>The view repaints what an honest report asks for, and then shows the new buffer.\<close>

lemma report_shown:
  assumes sh: "showing H w hv buf" and new: "viewable H w buf'" and m: "plain_mode (next_mode (hv_mode hv) t)"
    and cov: "covers (reported t) buf buf'"
  shows "\<exists>cmds hv'. view_transition H w t (hv_set_current buf' hv) = Inr (cmds, hv') \<and> showing H w hv' buf' \<and>
    hv_mode hv' = next_mode (hv_mode hv) t"
proof -
  have sc: "scrollable H w hv buf" and caret: "main_caret_shown hv buf" using sh by (simp_all add: showing_def)
  note s = scrollable_simps [OF sc]
  have loaded: "fully_loaded (host_io H) w buf'" using new by (simp add: viewable_def)
  let ?hv = "\<lambda>info. (hv_set_current buf' hv)\<lparr>hv_info := info, hv_mode := next_mode (hv_mode hv) t\<rparr>"
  have v: "view_ok H w (?hv info) buf'" for info
    using sc hv_current_set [OF s(1), of buf'] new m
    by (auto simp: scrollable_def view_ok_def viewable_def hv_current_def hv_set_current_def)
  have h: "hv_height (?hv info) \<le> 65000" for info using s(4) by (simp add: hv_set_current_def)
  have stay: "scrollable H w (?hv info) buf'" if "length (buf_data buf) \<le> length (buf_data buf')" for info
    using v h that s(6) loaded by (auto simp: scrollable_def hv_set_current_def)
  show ?thesis
  proof (cases "reported t")
    case None
    then have eq: "buf_data buf' = buf_data buf" "buf_selection buf' = buf_selection buf" using cov by (simp_all add: covers_def)
    then have "main_caret_shown (?hv info) buf'" for info
      using caret by (simp add: main_caret_shown_def visible_range_def hv_set_current_def)
    with stay eq have ok: "showing H w (?hv info) buf'" for info by (simp add: showing_def)
    have swap: "v\<lparr>hv_mode := m', hv_info := i\<rparr> = v\<lparr>hv_info := i, hv_mode := m'\<rparr>" for v :: "'a hex_view" and m' i by simp
    show ?thesis
      using None ok [of None] ok by (cases t) (auto simp: view_transition_def Let_def hv_set_current_def swap)
  next
    case (Some d)
    obtain cmds hv' where d: "transition_dirty_bytes H w d (?hv None) = Inr (cmds, hv')" "repainted H w buf' (?hv None) hv'"
    proof (cases d)
      case (ChangeInPlace ivs)
      with Some cov have "length (buf_data buf) \<le> length (buf_data buf')" by (simp add: covers_def)
      from in_place_ok [OF stay [OF this], of ivs None] ChangeInPlace that show thesis by blast
    next
      case ChangeLength
      from redraw_loaded [OF v loaded h, of None] ChangeLength that show thesis by blast
    qed
    then have "view_transition H w t (hv_set_current buf' hv) = Inr (cmds, hv')"
      using Some by (cases t) (auto simp: view_transition_def Let_def hv_set_current_def)
    with d(2) show ?thesis by (auto simp: repainted_def showing_def)
  qed
qed

section \<open>The contract between the handlers and the event loop\<close>

text \<open>
  For a class of keys (\<open>allowed\<close> in a mode and a buffer): the handler of the mode returns, keeps an invariant of mode
  and buffer that makes the buffer viewable, and reports what it did; a key it leaves to the view is one the
  view ignores.
\<close>

locale key_contract =
  fixes H :: "('d, 's, 'b, 'w) host" and w :: 'w
    and inv :: "mode \<Rightarrow> 'd buffer \<Rightarrow> bool" and allowed :: "mode \<Rightarrow> 'd buffer \<Rightarrow> event \<Rightarrow> bool"
  assumes ready: "inv m buf \<Longrightarrow> plain_mode m \<and> takes_input m \<and> viewable H w buf"
    and ignorable: "allowed m buf e \<Longrightarrow> \<not> scroll_key e \<and> (case e of Resize _ _ \<Rightarrow> False | _ \<Rightarrow> True)"
    and handled: "inv m buf \<Longrightarrow> allowed m buf e \<Longrightarrow> current bc = Inr buf \<Longrightarrow>
      \<exists>t buf'. mode_handler (host_xi H) (host_matcher H) (host_io H) w 16 m e bc = Inr ((t, set_current buf' bc), w) \<and>
        (case t of None \<Rightarrow> buf' = buf | Some tr \<Rightarrow> inv (next_mode m tr) buf' \<and> covers (reported tr) buf buf')"
begin

lemma ignored:
  assumes "allowed m buf e"
  shows "handle_event_default H w e hv = Inr ([], hv)"
  using ignorable [OF assms] by (auto simp: handle_event_default_def scroll_key_def split: event.splits)

lemma step:
  assumes sh: "showing H w hv buf" and i: "inv (hv_mode hv) buf" and key: "allowed (hv_mode hv) buf e"
  shows "\<exists>cmds hv' buf'. event_step H e (w, hv) = Inr (cmds, w, hv') \<and> showing H w hv' buf' \<and> inv (hv_mode hv') buf'"
proof -
  have sc: "scrollable H w hv buf" using sh by (simp add: showing_def)
  note s = scrollable_simps [OF sc]
  have "current (hv_buffers hv) = Inr buf" using s(1) by (simp add: hv_current_def)
  from handled [OF i key this] obtain t buf' where
    h: "mode_handler (host_xi H) (host_matcher H) (host_io H) w 16 (hv_mode hv) e (hv_buffers hv) =
      Inr ((t, set_current buf' (hv_buffers hv)), w)"
    and t: "case t of None \<Rightarrow> buf' = buf | Some tr \<Rightarrow> inv (next_mode (hv_mode hv) tr) buf' \<and> covers (reported tr) buf buf'"
    by blast
  show ?thesis
  proof (cases t)
    case None
    obtain line where "draw_statusline hv = Inr (line, hv)" using statusline_same [OF sc] by blast
    then have "event_step H e (w, hv) = Inr (line, w, hv)"
      using h t None s(2) ignored [OF key, of hv] hv_set_current_same [OF s(1)]
      by (simp add: event_step_def and_draw_def hv_set_current_def)
    with sh i show ?thesis by blast
  next
    case (Some tr)
    with t have new: "inv (next_mode (hv_mode hv) tr) buf'" "covers (reported tr) buf buf'" by simp_all
    obtain cmds hv' where v: "view_transition H w tr (hv_set_current buf' hv) = Inr (cmds, hv')" "showing H w hv' buf'"
      "hv_mode hv' = next_mode (hv_mode hv) tr"
      using report_shown [OF sh _ _ new(2)] ready [OF new(1)] by blast
    then obtain line where "draw_statusline hv' = Inr (line, hv')"
      using statusline_same [of H w hv' buf'] by (auto simp: showing_def)
    then have "event_step H e (w, hv) = Inr (cmds @ line, w, hv')"
      using Some h s(2) v(1) by (simp add: event_step_def and_draw_def hv_set_current_def)
    with v new(1) show ?thesis by auto
  qed
qed

lemma run:
  assumes "showing H w hv buf" "inv (hv_mode hv) buf" "\<And>m buf e. inv m buf \<Longrightarrow> e \<in> set es \<Longrightarrow> allowed m buf e"
  shows "\<exists>cmds hv' buf'. run_events H es (w, hv) = Inr (cmds, w, hv') \<and> showing H w hv' buf' \<and> inv (hv_mode hv') buf'"
  using assms
proof (induction es arbitrary: hv buf)
  case (Cons e es)
  obtain cmds hv1 buf1 where s1: "event_step H e (w, hv) = Inr (cmds, w, hv1)" "showing H w hv1 buf1" "inv (hv_mode hv1) buf1"
    using step [OF Cons.prems(1,2)] Cons.prems(2,3) by (meson list.set_intros(1))
  moreover have "takes_input (hv_mode hv)" using ready [OF Cons.prems(2)] by blast
  moreover obtain cmds' hv' buf' where "run_events H es (w, hv1) = Inr (cmds', w, hv')" "showing H w hv' buf'" "inv (hv_mode hv') buf'"
    using Cons.IH [OF s1(2,3)] Cons.prems(3) by (meson list.set_intros(2))
  ultimately show ?case by auto
qed auto

text \<open>The loop draws the screen before it waits for the first key.\<close>

lemma loop:
  assumes "showing H w hv buf" "inv (hv_mode hv) buf" "\<And>m buf e. inv m buf \<Longrightarrow> e \<in> set es \<Longrightarrow> allowed m buf e"
  shows "\<exists>cmds hv' buf'. run_event_loop H es (w, hv) = Inr (cmds, w, hv') \<and> showing H w hv' buf' \<and> inv (hv_mode hv') buf'"
proof -
  obtain cmds rows where d: "draw H w hv = Inr (cmds, hv\<lparr>hv_last_visible_rows := rows\<rparr>)"
    using draw_loaded [of H w hv buf] assms(1) by (auto simp: showing_def)
  let ?hv = "hv\<lparr>hv_last_visible_rows := rows\<rparr>"
  have "showing H w ?hv buf"
    using assms(1) scrollable_fields(1) [of ?hv hv H w buf] scrollable_fields(2) [of ?hv hv buf] by (simp add: showing_def)
  moreover have "inv (hv_mode ?hv) buf" using assms(2) by simp
  ultimately obtain cmds' hv' buf' where "run_events H es (w, ?hv) = Inr (cmds', w, hv')" "showing H w hv' buf'" "inv (hv_mode hv') buf'"
    using run [of ?hv buf es] assms(3) by blast
  with d show ?thesis by (auto simp: run_event_loop_def)
qed

end

section \<open>Navigation\<close>

text \<open>Mapping a closure that the selection admits keeps the buffer's bytes and the invariant of the selection.\<close>

definition selection_moved :: "'d buffer \<Rightarrow> (dirty_bytes \<times> 'd buffer) outcome \<Rightarrow> bool" where
  "selection_moved buf out \<longleftrightarrow> (\<exists>ivs s'. out = Inr (ChangeInPlace ivs, buf\<lparr>buf_selection := s'\<rparr>) \<and>
     sel_ok (length (buf_data buf)) s' \<and> (main_flags (buf_selection buf) \<longrightarrow> main_flags s'))"

lemma selection_moved_map:
  assumes "region_map g P" "sel_ok (length (buf_data buf)) (buf_selection buf)" "\<forall>r\<in>set (regions (buf_selection buf)). P r"
    and "\<And>r. P r \<Longrightarrow> within (length (buf_data buf)) r \<Longrightarrow> within (length (buf_data buf)) (g r)"
  shows "selection_moved buf (buffer_map_selections X (single g) () buf)"
proof -
  let ?s = "buf_selection buf"
  have s: "wf_selection ?s" "in_bounds (length (buf_data buf)) ?s" using assms(2) by (simp_all add: sel_ok_def)
  obtain s' where m: "map_selections (single g) () ?s = Inr (s', ())" "wf_selection s'"
    "spans (regions s') = spans (map g (regions ?s))" "main_flags ?s \<longrightarrow> main_flags s'"
    using region_map.map_selections_keeps [OF assms(1) single_maps_to s(1) assms(3), of "()"] by auto
  have "span (g r) \<subseteq> {..length (buf_data buf)}" if "r \<in> set (regions ?s)" for r
    using that s(2) assms(3,4) by (simp add: in_bounds_within within_def span_bound)
  then have "in_bounds (length (buf_data buf)) s'" using m(3) by (simp add: in_bounds_spans spans_def UN_subset_iff)
  with m have "sel_ok (length (buf_data buf)) s' \<and> (main_flags ?s \<longrightarrow> main_flags s')" by (simp add: sel_ok_def)
  with m(1) show ?thesis unfolding selection_moved_def buffer_map_selections_eq by auto
qed

definition navigation_action :: "normal_action \<Rightarrow> bool" where
  "navigation_action act \<longleftrightarrow>
     (case act of NMove _ \<Rightarrow> True | NExtend _ \<Rightarrow> True | SwapCaret \<Rightarrow> True | CollapseSelection \<Rightarrow> True | _ \<Rightarrow> False)"

definition navigation_key :: "event \<Rightarrow> bool" where
  "navigation_key e \<longleftrightarrow> count_state_transition NoCount e = NotHandled \<and>
     (case event_to_action normal_default_maps e of Some act \<Rightarrow> navigation_action act | None \<Rightarrow> False)"

lemma navigation_moves:
  assumes "sel_ok (length (buf_data buf)) (buf_selection buf)" "length (buf_data buf) \<le> isize_max" "navigation_action act"
  shows "\<exists>out. selection_moved buf out \<and>
    normal_action_transition X NoCount act 16 buf \<in> {and_new_mode normal_new out, and_dirty out}"
proof -
  let ?n = "length (buf_data buf)"
  have in_b: "\<forall>r\<in>set (regions (buf_selection buf)). within ?n r"
    using assms(1) by (simp add: sel_ok_def in_bounds_within)
  then have mv: "\<forall>r\<in>set (regions (buf_selection buf)). move_ok ?n 16 1 r"
    using assms(2) by (simp add: move_ok_def moves_in_range_def isize_max_def)
  have one: "to_count NoCount = 1" by (simp add: to_count_def)
  show ?thesis
  proof (cases act)
    case (NMove d)
    have "selection_moved buf (buffer_map_selections X (single (\<lambda>r. simple_move r d 16 ?n 1)) () buf)"
      by (rule selection_moved_map [OF move_map.region_map_axioms assms(1) mv]) (simp add: simple_move_ends)
    with NMove one show ?thesis by (auto simp: normal_action_defs Let_def)
  next
    case (NExtend d)
    have "selection_moved buf (buffer_map_selections X (single (\<lambda>r. simple_extend r d 16 ?n 1)) () buf)"
      by (rule selection_moved_map [OF extend_map.region_map_axioms assms(1) mv]) (simp add: simple_extend_ends)
    with NExtend one show ?thesis by (auto simp: normal_action_defs Let_def)
  next
    case SwapCaret
    have "selection_moved buf (buffer_map_selections X (single swap_caret) () buf)"
      by (rule selection_moved_map [OF swap_map.region_map_axioms assms(1)]) (simp_all add: swap_collapse_within)
    with SwapCaret show ?thesis by (auto simp: normal_action_defs)
  next
    case CollapseSelection
    have "selection_moved buf (buffer_map_selections X (single collapse) () buf)"
      by (rule selection_moved_map [OF collapse_map.region_map_axioms assms(1)]) (simp_all add: swap_collapse_within)
    with CollapseSelection show ?thesis by (auto simp: normal_action_defs)
  qed (use assms(3) in \<open>simp_all add: navigation_action_def\<close>)
qed

text \<open>The invariant of navigation in the buffer \<open>buf0\<close>: normal mode, and only the selection differs.\<close>

definition navigating :: "('d, 's, 'b, 'w) host \<Rightarrow> 'w \<Rightarrow> 'd buffer \<Rightarrow> mode \<Rightarrow> 'd buffer \<Rightarrow> bool" where
  "navigating H w buf0 m buf \<longleftrightarrow> m = normal_new \<and> (\<exists>s. buf = buf0\<lparr>buf_selection := s\<rparr>) \<and> viewable H w buf"

lemma navigation_handled:
  assumes nav: "navigating H w buf0 m buf" and key: "navigation_key e" and cur: "current bc = Inr buf"
  shows "\<exists>t buf'. mode_handler (host_xi H) (host_matcher H) (host_io H) w 16 m e bc = Inr ((t, set_current buf' bc), w) \<and>
    (case t of None \<Rightarrow> buf' = buf | Some tr \<Rightarrow> navigating H w buf0 (next_mode m tr) buf' \<and> covers (reported tr) buf buf')"
proof -
  have v: "viewable H w buf" and m: "m = normal_new" using nav by (simp_all add: navigating_def)
  have sel: "sel_ok (length (buf_data buf)) (buf_selection buf)" "main_flags (buf_selection buf)" "length (buf_data buf) \<le> isize_max"
    using v by (simp_all add: viewable_def)
  from key obtain act where act: "event_to_action normal_default_maps e = Some act" "navigation_action act"
    "count_state_transition NoCount e = NotHandled" by (auto simp: navigation_key_def split: option.splits)
  obtain out where out: "selection_moved buf out"
    "normal_action_transition (host_xi H) NoCount act 16 buf \<in> {and_new_mode normal_new out, and_dirty out}"
    using navigation_moves [OF sel(1,3) act(2)] by blast
  then obtain ivs s where moved: "out = Inr (ChangeInPlace ivs, buf\<lparr>buf_selection := s\<rparr>)"
    "sel_ok (length (buf_data buf)) s" "main_flags s" using sel(2) by (auto simp: selection_moved_def)
  obtain t where t: "normal_action_transition (host_xi H) NoCount act 16 buf = Inr (t, buf\<lparr>buf_selection := s\<rparr>)"
    "t = ModeAndDirtyBytes normal_new (ChangeInPlace ivs) \<or> t = DirtyBytes (ChangeInPlace ivs)"
    using out(2) moved(1) by (auto simp: and_new_mode_def and_dirty_def)
  have "mode_handler (host_xi H) (host_matcher H) (host_io H) w 16 m e bc =
      Inr ((Some t, set_current (buf\<lparr>buf_selection := s\<rparr>) bc), w)"
    using act(1,3) t(1) cur by (simp add: m mode_handler_def normal_new_def on_current_def normal_transition_def)
  moreover have "viewable H w (buf\<lparr>buf_selection := s\<rparr>)"
    using v moved(2,3) by (auto simp: viewable_def readable_def fully_loaded_def)
  then have "navigating H w buf0 (next_mode m t) (buf\<lparr>buf_selection := s\<rparr>)" using nav t(2) by (auto simp: navigating_def)
  ultimately show ?thesis using t(2) by (auto simp: covers_def)
qed

lemma view_key_unmapped:
  assumes "scroll_key e \<or> (\<exists>x y. e = Resize x y)"
  shows "event_to_action normal_default_maps e = None"
proof -
  let ?k = "\<lambda>c. Key \<lparr>code = KChar (ch c), modifiers = no_modifiers\<lparr>control := True\<rparr>\<rparr>"
  have "event_to_action normal_default_maps (?k (CHR ''e'')) = None" "event_to_action normal_default_maps (?k (CHR ''y'')) = None"
    by code_simp+
  moreover have "e = ?k (CHR ''e'') \<or> e = ?k (CHR ''y'') \<or> (\<exists>x y. e = Resize x y)"
    using assms by (auto simp: scroll_key_def split: event.splits intro: key_event.equality)
  ultimately show ?thesis by (auto simp: event_to_action_def)
qed

interpretation nav: key_contract H w "navigating H w buf0" "\<lambda>m buf. navigation_key" for H w buf0
proof (unfold_locales, goal_cases)
  case (1 m buf)
  then show ?case by (simp add: navigating_def plain_mode_def takes_input_def normal_new_def)
next
  case (2 m buf e)
  then show ?case using view_key_unmapped [of e] by (auto simp: navigation_key_def split: event.split option.splits)
next
  case (3 m buf e bc)
  then show ?case by (rule navigation_handled)
qed

end
