(* ===== verification/Append_Safe.thy ===== *)
theory Append_Safe
  imports Insert_Safe
begin

text \<open>
  Appending text: the regions have been turned forward and extended by one byte. Every key of insert mode
  but the switch to hexadecimal input returns, keeps the buffer sound and the regions forward. (Digits pull
  the caret of a region back over its tail, so that regions of both directions can meet.)
\<close>

definition append_ok ::
    "('d, 's, 'b) xi \<Rightarrow> 'd buffer \<Rightarrow> (mode_transition \<times> 'd buffer) outcome \<Rightarrow> bool" where
  "append_ok X buf out \<longleftrightarrow>
     (\<exists>t buf'. out = Inr (t, buf') \<and> buffer_ok X buf' \<and>
        (next_mode (Insert AppendTo False None) t = Insert AppendTo False None \<and> all_forward (buf_selection buf') \<or>
         t = NewMode normal_new \<and> \<not> editing buf'))"

lemma cursor_forward: "cursor r \<Longrightarrow> forward r"
  by (simp add: cursor_def forward_def)

context xi_rope
begin

lemma forward_result:
  assumes ok: "buffer_ok X buf" and f: "all_forward (buf_selection buf)"
    and res: "does_edit X (buf_data buf) res ins del"
  shows "\<exists>d. res = Inr d \<and>
    edit_result X False forward buf (apply_incomplete_delta X d buf) (edited (buf_data buf) ins del)"
proof -
  note sel = buffer_sel_ok [OF ok]
  obtain d where d: "res = Inr d" "base_len X d = length (buf_data buf)"
    "delta_apply X d (buf_data buf) = edited (buf_data buf) ins del"
    using does_edit_result [OF res] by metis
  from partial_result [OF ok d(2) apply_delta_forward [OF sel(1) _ f, unfolded all_forward_def]] sel(2) d
  show ?thesis by simp
qed

lemma forward_step:
  assumes ok: "buffer_ok X buf" and f: "all_forward (buf_selection buf)"
    and res: "does_edit X (buf_data buf) res ins del" and m: "\<And>c. next_mode (Insert AppendTo False None) (t c) = Insert AppendTo False None"
  shows "append_ok X buf (and_then res (\<lambda>d. and_then (apply_incomplete_delta X d buf) (\<lambda>(changed, buf'). Inr (t changed, buf'))))"
  using forward_result [OF ok f res] m [of ChangeLength] by (auto simp: edit_result_def append_ok_def all_forward_def)

lemma append_action_ok:
  assumes ok: "buffer_ok X buf" and f: "all_forward (buf_selection buf)" and r: "moves_in_range (length (buf_data buf)) bpl 1"
    and act: "act \<noteq> SwitchInputMode"
  shows "append_ok X buf (insert_action_transition X AppendTo False None act bpl buf)"
proof (cases act)
  case InsertNull
  then show ?thesis
    using forward_step [OF ok f insert_text_does [OF buffer_sel_ok [OF ok]]] by (simp add: insert_action_transition_def)
next
  case RemoveLast
  then show ?thesis
    using forward_step [OF ok f backspace_does [OF buffer_sel_ok [OF ok]]] ok f
    by (cases "buf_data buf = []") (simp_all add: insert_action_transition_def append_ok_def)
next
  case RemoveThis
  then show ?thesis
    using forward_step [OF ok f delete_cursor_does [OF buffer_sel_ok [OF ok]], where t = DirtyBytes] ok f
    by (cases "buf_data buf = []") (simp_all add: insert_action_transition_def append_ok_def)
next
  case Exit
  with commit_ok [OF ok] show ?thesis by (simp add: insert_action_transition_def append_ok_def)
next
  case (Move d)
  with insert_move_result [OF ok r, of d False] show ?thesis
    by (auto simp: insert_action_transition_def map_result_def append_ok_def all_forward_def cursor_forward)
qed (use act in simp)

lemma append_key_ok:
  assumes ok: "buffer_ok X buf" and f: "all_forward (buf_selection buf)" and r: "moves_in_range (length (buf_data buf)) bpl 1"
    and act: "event_to_action insert_default_maps evt \<noteq> Some SwitchInputMode"
  shows "(\<exists>t buf'. insert_transition X AppendTo False None evt bpl buf = Inr (Some t, buf') \<and> append_ok X buf (Inr (t, buf'))) \<or>
    insert_transition X AppendTo False None evt bpl buf = Inr (None, buf)"
proof (cases "event_to_action insert_default_maps evt")
  case (Some a)
  with append_action_ok [OF ok f r, of a] act show ?thesis by (auto simp: insert_transition_def append_ok_def)
next
  case None
  have "append_ok X buf (transition_ascii_insertion X key AppendTo buf)" for key
    unfolding transition_ascii_insertion_def Let_def insertion_mode.case
    by (rule forward_step [OF ok f insert_text_does [OF buffer_sel_ok [OF ok]]]) simp
  then have as: "\<exists>t buf'. transition_ascii_insertion X key AppendTo buf = Inr (t, buf') \<and> append_ok X buf (Inr (t, buf'))" for key
    by (auto simp: append_ok_def)
  show ?thesis
  proof (cases evt)
    case (Key e)
    show ?thesis
    proof (cases "code e")
      case (KChar key)
      with Key None as [of key] show ?thesis by (auto simp: insert_transition_def)
    qed (simp_all add: insert_transition_def None [unfolded Key] Key)
  qed (use None in \<open>simp_all add: insert_transition_def\<close>)
qed

end

end
