(* ===== verification/Edit_Session.thy ===== *)
theory Edit_Session
  imports Session Append_Safe
begin

text \<open>
  Editing sessions: from the start of the program without a file, the keys of normal, insert, replace and
  jump mode, each going through the event loop, the mode, the buffer and the view. A session is an inductive
  relation whose steps are the steps of the event loop; rule induction gives the invariant of every
  state it reaches, and in each of these states the next key returns.
\<close>

section \<open>The modes and keys of a session\<close>

text \<open>Left out are the prompts (search, split, command), the modes that can bring regions of mixed directions
  together (appending digits, overwriting, extending to a boundary), counts for jumping and removing regions, and the
  events the view handles by itself (resizing, scrolling).\<close>

definition session_mode :: "mode \<Rightarrow> bool" where
  "session_mode m \<longleftrightarrow>
     (case m of
        Normal _ \<Rightarrow> True
      | Insert im hex half \<Rightarrow> im = InsertAt \<or> im = AppendTo \<and> \<not> hex \<and> half = None
      | Replace _ _ \<Rightarrow> True | JumpTo ext \<Rightarrow> \<not> ext | _ \<Rightarrow> False)"

definition edit_action :: "count_state \<Rightarrow> normal_action \<Rightarrow> bool" where
  "edit_action st act \<longleftrightarrow>
     (case act of
        SplitMode \<Rightarrow> False | CollapseMode _ \<Rightarrow> False | CommandMode \<Rightarrow> False | ExtendToMode \<Rightarrow> False
      | Append hex \<Rightarrow> \<not> hex | Overwrite _ \<Rightarrow> False | JumpToMode \<Rightarrow> st = NoCount | RemoveMain \<Rightarrow> st = NoCount | _ \<Rightarrow> True)"

definition edit_key :: "mode \<Rightarrow> 'd buffer \<Rightarrow> event \<Rightarrow> bool" where
  "edit_key m buf e \<longleftrightarrow> \<not> scroll_key e \<and> (case e of Resize _ _ \<Rightarrow> False | _ \<Rightarrow> True) \<and>
     (case m of
        Normal st \<Rightarrow> count_state_transition st e = NotHandled \<longrightarrow>
          (case event_to_action normal_default_maps e of
             Some act \<Rightarrow> edit_action st act \<and> moves_in_range (length (buf_data buf)) 16 (to_count st)
           | None \<Rightarrow> True)
      | Insert im hex half \<Rightarrow> im = AppendTo \<longrightarrow> event_to_action insert_default_maps e \<noteq> Some SwitchInputMode
      | _ \<Rightarrow> True)"

definition answer ::
    "('d, 's, 'b) xi \<Rightarrow> mode \<Rightarrow> event \<Rightarrow> 'd buffer \<Rightarrow> (mode_transition option \<times> 'd buffer) outcome" where
  "answer X m e buf =
     (case m of
        Normal st \<Rightarrow> normal_transition X st e 16 buf
      | Insert im hex half \<Rightarrow> insert_transition X im hex half e 16 buf
      | Replace hex half \<Rightarrow> replace_transition X hex half e buf
      | JumpTo ext \<Rightarrow> jumpto_transition X ext e 16 buf
      | _ \<Rightarrow> Inr (None, buf))"

text \<open>Offsets are kept in \<open>isize\<close> by the code that moves carets, so a document has to stay below that.\<close>

definition roomy :: "'d buffer \<Rightarrow> bool" where
  "roomy buf \<longleftrightarrow> length (buf_data buf) + length (regions (buf_selection buf)) + 64 \<le> isize_max"

definition leaves_room :: "('d, 's, 'b) xi \<Rightarrow> mode \<Rightarrow> event \<Rightarrow> 'd buffer \<Rightarrow> bool" where
  "leaves_room X m e buf \<longleftrightarrow> (case answer X m e buf of Inr (_, buf') \<Rightarrow> roomy buf' | Inl _ \<Rightarrow> True)"

lemma roomy_room: "roomy buf \<Longrightarrow> room 16 buf" "roomy buf \<Longrightarrow> moves_in_range (length (buf_data buf)) 16 1"
  by (simp_all add: roomy_def room_def moves_in_range_def isize_max_def)

section \<open>The handlers\<close>

text \<open>Appending is entered with regions pointing forward.\<close>

definition mode_fits :: "mode \<Rightarrow> 'd buffer \<Rightarrow> bool" where
  "mode_fits m buf \<longleftrightarrow> session_mode m \<and> mode_ok m buf \<and>
     (\<forall>hex half. m = Insert AppendTo hex half \<longrightarrow> all_forward (buf_selection buf))"

definition answer_ok :: "('d, 's, 'b) xi \<Rightarrow> mode \<Rightarrow> 'd buffer \<Rightarrow> (mode_transition option \<times> 'd buffer) outcome \<Rightarrow> bool" where
  "answer_ok X m buf out \<longleftrightarrow> out = Inr (None, buf) \<or>
     (\<exists>t buf'. out = Inr (Some t, buf') \<and> buffer_ok X buf' \<and> mode_fits (next_mode m t) buf')"

lemma session_mode_simps [simp]:
  "session_mode (Normal st)" "session_mode normal_new" "session_mode (Insert im h hf) \<longleftrightarrow> im = InsertAt \<or> im = AppendTo \<and> \<not> h \<and> hf = None"
  "session_mode (Replace h hf)" "session_mode (JumpTo ext) \<longleftrightarrow> \<not> ext"
  by (simp_all add: session_mode_def normal_new_def)

lemma session_mode_plain: "session_mode m \<Longrightarrow> plain_mode m" "session_mode m \<Longrightarrow> takes_input m"
  by (simp_all add: session_mode_def plain_mode_def takes_input_def split: mode.splits)

lemma edit_action_mode:
  assumes "edit_action st act" "normal_action_transition X st act bpl buf = Inr (t, buf')"
  shows "session_mode (next_mode (Normal st) t)"
  using assms
  by (cases act) (auto simp: edit_action_def normal_action_defs and_new_mode_def and_dirty_def and_then_eq_Inr Let_def
      split: count_state.splits if_splits prod.splits option.splits)

lemma no_append:
  assumes "\<nexists>hex. act = Append hex" "normal_action_transition X st act bpl buf = Inr (t, buf')"
  shows "next_mode (Normal st) t \<noteq> Insert AppendTo hex half"
  using assms
  by (cases act) (auto simp: normal_action_defs and_new_mode_def and_dirty_def and_then_eq_Inr Let_def
      normal_new_def search_new_def split: count_state.splits if_splits prod.splits option.splits)

lemma insert_mode_stays:
  assumes "insert_transition X im hex half e bpl buf = Inr (Some t, buf')"
  shows "next_mode (Insert im hex half) t = normal_new \<or> (\<exists>h hf. next_mode (Insert im hex half) t = Insert im h hf)"
  using assms
  by (auto simp: insert_transition_def insert_action_transition_def transition_hex_insertion_def
      transition_ascii_insertion_def and_then_eq_Inr Let_def
      split: option.splits event.splits key_code.splits if_splits insert_action.splits)

lemma one_region_boundary:
  "one_region (\<lambda>r. jump_to_boundary r d 16 n) = single (\<lambda>r. projr (jump_to_boundary r d 16 n))"
proof -
  have inr: "\<exists>r'. jump_to_boundary r d 16 n = Inr r'" for r
    by (cases "n = 0") (simp_all add: jump_to_boundary_def boundary_caret_def split: direction.split)
  have "one_region (\<lambda>r. jump_to_boundary r d 16 n) st r = single (\<lambda>r. projr (jump_to_boundary r d 16 n)) st r" for st r
    using inr [of r] by (auto simp: one_region_def single_def)
  then show ?thesis by blast
qed

lemma map_boundary:
  assumes "buffer_ok X buf"
  shows "map_result X any_direction buf (buffer_map_selections X (one_region (\<lambda>r. jump_to_boundary r d 16 (length (buf_data buf)))) () buf)"
proof -
  let ?n = "length (buf_data buf)"
  have "within ?n (projr (jump_to_boundary r d 16 ?n))" if "within ?n r" for r
  proof (cases "?n = 0")
    case False
    with that boundary_le [of ?n "caret r" d 16] show ?thesis by (simp add: jump_to_boundary_eq within_def)
  qed (use that in \<open>simp add: jump_to_boundary_def\<close>)
  then show ?thesis
    unfolding one_region_boundary
    by (intro map_result_region_map [OF boundary_map.region_map_axioms assms _ _ merge_closed_any_direction])
      (use selection_within [OF assms] in \<open>simp_all add: any_direction_def\<close>)
qed

context xi_rope
begin

lemma normal_answer_ok:
  assumes ok: "buffer_ok X buf" and e: "\<not> editing buf" and room: "roomy buf" and key: "edit_key (Normal st) buf evt"
  shows "answer_ok X (Normal st) buf (normal_transition X st evt 16 buf)"
proof (cases "count_state_transition st evt")
  case (Update st')
  with ok e show ?thesis by (simp add: normal_transition_def answer_ok_def mode_fits_def)
next
  case NotHandled
  show ?thesis
  proof (cases "event_to_action normal_default_maps evt")
    case None
    with NotHandled show ?thesis by (simp add: normal_transition_def answer_ok_def)
  next
    case (Some act)
    with key NotHandled have act: "edit_action st act" "moves_in_range (length (buf_data buf)) 16 (to_count st)"
      by (simp_all add: edit_key_def)
    show ?thesis
    proof (cases "\<exists>hex. act = Append hex")
      case True
      with act(1) have a: "act = Append False" by (auto simp: edit_action_def)
      from map_append [OF ok roomy_room(2) [OF room]] show ?thesis
        using Some NotHandled unfolding a
        by (auto simp: normal_transition_def normal_action_defs and_new_mode_def map_result_def answer_ok_def
            mode_fits_def all_forward_def)
    next
      case False
      from act have "checked_action st act" by (auto simp: checked_action_def edit_action_def)
      from normal_action_ok [OF ok e act(2) roomy_room(2) [OF room] this]
      obtain t buf' where "normal_action_transition X st act 16 buf = Inr (t, buf')" "buffer_ok X buf'"
        "mode_ok (next_mode (Normal st) t) buf'" by (auto simp: step_ok_def)
      with edit_action_mode [OF act(1) this(1)] no_append [OF False this(1)] Some NotHandled show ?thesis
        by (simp add: normal_transition_def answer_ok_def mode_fits_def)
    qed
  qed
qed

lemma insert_answer_ok:
  assumes ok: "buffer_ok X buf" and b: "all_backward (buf_selection buf)" and room: "roomy buf"
  shows "answer_ok X (Insert InsertAt hex half) buf (insert_transition X InsertAt hex half evt 16 buf)"
  using insert_key_ok [OF ok b roomy_room(1) [OF room], of InsertAt hex half evt]
proof (elim disjE exE conjE)
  fix t buf' assume t: "insert_transition X InsertAt hex half evt 16 buf = Inr (Some t, buf')"
    "insert_ok X (Insert InsertAt hex half) buf (Inr (t, buf'))"
  from insert_mode_stays [OF t(1)] t(2) have "buffer_ok X buf' \<and> mode_fits (next_mode (Insert InsertAt hex half) t) buf'"
    by (auto simp: insert_ok_def mode_fits_def normal_new_def)
  with t(1) show ?thesis by (simp add: answer_ok_def)
qed (simp add: answer_ok_def)

lemma append_answer_ok:
  assumes ok: "buffer_ok X buf" and m: "mode_fits (Insert AppendTo hex half) buf" and room: "roomy buf"
    and key: "edit_key (Insert AppendTo hex half) buf evt"
  shows "answer_ok X (Insert AppendTo hex half) buf (insert_transition X AppendTo hex half evt 16 buf)"
proof -
  have m': "hex = False" "half = None" "all_forward (buf_selection buf)" using m by (auto simp: mode_fits_def)
  have "event_to_action insert_default_maps evt \<noteq> Some SwitchInputMode" using key by (simp add: edit_key_def)
  from append_key_ok [OF ok m'(3) roomy_room(2) [OF room] this] show ?thesis
    unfolding m' by (auto simp: append_ok_def answer_ok_def mode_fits_def normal_new_def)
qed

lemma replace_answer_ok:
  assumes ok: "buffer_ok X buf" and e: "\<not> editing buf"
  shows "answer_ok X m buf (replace_transition X hex half evt buf)"
proof -
  have stay: "answer_ok X m buf (Inr (Some (NewMode normal_new), buf))" "answer_ok X m buf (Inr (None, buf))"
    "answer_ok X m buf (Inr (Some (NewMode (Replace h hf)), buf))" for h hf
    using ok e by (auto simp: answer_ok_def mode_fits_def normal_new_def)
  have rep: "answer_ok X m buf (replace_with X c buf)" for c
    using replace_result [OF ok e, of c] by (auto simp: replace_with_def edit_result_def answer_ok_def mode_fits_def normal_new_def)
  have digit: "answer_ok X m buf (and_then (to_digit c) f)"
    if "is_ascii_hexdigit c" "\<And>dg. answer_ok X m buf (f dg)" for c f
    using to_digit_ok [OF that(1)] that(2) by (auto simp: ok_iff)
  show ?thesis
    by (auto simp: replace_transition_def stay rep intro!: digit
        split: event.split key_code.split option.split replace_action.split)
qed

lemma jumpto_answer_ok:
  assumes "buffer_ok X buf" "\<not> editing buf"
  shows "answer_ok X (JumpTo False) buf (jumpto_transition X False evt 16 buf)"
proof -
  have "answer_ok X (JumpTo False) buf (and_then
      (buffer_map_selections X (one_region (\<lambda>r. jump_to_boundary r d 16 (length (buf_data buf)))) () buf)
      (\<lambda>(changed, buf'). Inr (Some (ModeAndDirtyBytes normal_new changed), buf')))" for d
    using map_boundary [OF assms(1), of d] assms(2) by (auto simp: map_result_def answer_ok_def mode_fits_def normal_new_def)
  moreover have "answer_ok X (JumpTo False) buf (Inr (Some (NewMode normal_new), buf))"
    "answer_ok X (JumpTo False) buf (Inr (None, buf))" using assms by (simp_all add: answer_ok_def mode_fits_def normal_new_def)
  ultimately show ?thesis by (simp add: jumpto_transition_def Let_def split: option.split event.split)
qed

text \<open>Every key of a session returns, keeps the buffer sound and reports what it did.\<close>

theorem answer_fine:
  assumes ok: "buffer_ok X buf" and flags: "flags_ok buf" and m: "mode_fits m buf"
    and room: "roomy buf" and key: "edit_key m buf evt"
  shows "answer_ok X m buf (answer X m evt buf)" "honest_answer buf (answer X m evt buf)"
proof -
  have wf: "wf_selection (buf_selection buf)" by (rule buffer_sel_ok(1) [OF ok])
  have "answer_ok X m buf (answer X m evt buf) \<and> honest_answer buf (answer X m evt buf)"
  proof (cases m)
    case (Normal st)
    have "honest_answer buf (normal_transition X st evt 16 buf)"
    proof (cases "count_state_transition st evt = NotHandled")
      case True
      then have "act = RemoveMain \<Longrightarrow> st = NoCount" if "event_to_action normal_default_maps evt = Some act" for act
        using key that by (simp add: Normal edit_key_def edit_action_def)
      with True normal_action_honest [OF flags wf, where X = X] show ?thesis
        by (simp add: normal_transition_def split: option.split)
    next
      case False
      with flags show ?thesis by (auto simp: normal_transition_def split: count_transition.split)
    qed
    with normal_answer_ok [OF ok _ room] key m Normal show ?thesis by (simp add: answer_def mode_fits_def)
  next
    case (Insert im hex half)
    have "half \<noteq> None \<Longrightarrow> all_backward (buf_selection buf)" using m Insert by (auto simp: mode_fits_def)
    from insert_honest [OF ok flags this] have hon: "honest_answer buf (insert_transition X im hex half evt 16 buf)" .
    have "answer_ok X (Insert im hex half) buf (insert_transition X im hex half evt 16 buf)"
    proof (cases "im = AppendTo")
      case True
      with append_answer_ok [OF ok _ room] m key Insert show ?thesis by simp
    next
      case False
      with m Insert have "im = InsertAt" "all_backward (buf_selection buf)" by (auto simp: mode_fits_def)
      with insert_answer_ok [OF ok _ room] show ?thesis by simp
    qed
    with hon Insert show ?thesis by (simp add: answer_def)
  next
    case (Replace hex half)
    with replace_answer_ok [OF ok] replace_honest [OF flags wf] m show ?thesis by (simp add: answer_def mode_fits_def)
  next
    case (JumpTo ext)
    with jumpto_answer_ok [OF ok] jumpto_honest [OF flags wf] m show ?thesis by (simp add: answer_def mode_fits_def)
  qed (use m in \<open>simp_all add: mode_fits_def session_mode_def\<close>)
  then show "answer_ok X m buf (answer X m evt buf)" "honest_answer buf (answer X m evt buf)" by blast+
qed

end

section \<open>The contract with the event loop\<close>

text \<open>The invariant of an editing session in a buffer without a file.\<close>

definition editable :: "('d, 's, 'b, 'w) host \<Rightarrow> mode \<Rightarrow> 'd buffer \<Rightarrow> bool" where
  "editable H m buf \<longleftrightarrow> xi_rope (host_xi H) \<and> buf_path buf = None \<and> buffer_ok (host_xi H) buf \<and> flags_ok buf \<and> roomy buf \<and>
     mode_fits m buf"

lemma editable_viewable: "editable H m buf \<Longrightarrow> viewable H w buf"
  by (simp add: editable_def viewable_def readable_def fully_loaded_def buffer_ok_def flags_ok_def roomy_def)

lemma mode_handler_answer:
  assumes "session_mode m" "current bc = Inr buf"
  shows "mode_handler X mt io w 16 m e bc =
    and_then (answer X m e buf) (\<lambda>(t, buf'). Inr ((t, set_current buf' bc), w))"
proof -
  have assoc: "and_then (on_current bc f) (\<lambda>p. Inr (p, w)) = and_then (f buf) (\<lambda>(t, buf'). Inr ((t, set_current buf' bc), w))"
    for f :: "'a buffer \<Rightarrow> (mode_transition option \<times> 'a buffer) outcome"
    using assms(2) by (cases "f buf") (auto simp: on_current_def)
  show ?thesis using assms(1) by (cases m) (simp_all add: mode_handler_def answer_def assoc session_mode_def)
qed

lemma edit_handled:
  assumes inv: "editable H m buf" and key: "edit_key m buf e \<and> leaves_room (host_xi H) m e buf" and cur: "current bc = Inr buf"
  shows "\<exists>t buf'. mode_handler (host_xi H) (host_matcher H) (host_io H) w 16 m e bc = Inr ((t, set_current buf' bc), w) \<and>
    (case t of None \<Rightarrow> buf' = buf | Some tr \<Rightarrow> editable H (next_mode m tr) buf' \<and> covers (reported tr) buf buf')"
proof -
  let ?X = "host_xi H"
  have X: "xi_rope ?X" and i: "buffer_ok ?X buf" "flags_ok buf" "mode_fits m buf" "roomy buf" "buf_path buf = None"
    using inv by (simp_all add: editable_def)
  note fine = xi_rope.answer_fine [OF X i(1-4) conjunct1 [OF key]]
  have "session_mode m" using i(3) by (simp add: mode_fits_def)
  note h = mode_handler_answer [OF this cur, of ?X "host_matcher H" "host_io H" w e]
  from fine(1) [unfolded answer_ok_def] show ?thesis
  proof (elim disjE exE conjE)
    assume "answer ?X m e buf = Inr (None, buf)"
    then show ?thesis by (auto simp: h)
  next
    fix t buf' assume some: "answer ?X m e buf = Inr (Some t, buf')" and ok: "buffer_ok ?X buf'" "mode_fits (next_mode m t) buf'"
    have hon: "flags_ok buf'" "covers (reported t) buf buf'" using fine(2) some by (simp_all add: honest_def)
    have "roomy buf'" using key some by (simp add: leaves_room_def)
    with X ok hon covers_path [OF hon(2)] i(5) have "editable H (next_mode m t) buf'" by (simp add: editable_def)
    with some hon(2) show ?thesis by (auto simp: h)
  qed
qed

interpretation edit: key_contract H w "editable H" "\<lambda>m buf e. edit_key m buf e \<and> leaves_room (host_xi H) m e buf" for H w
proof (unfold_locales, goal_cases)
  case (1 m buf)
  then have "session_mode m" by (simp add: editable_def mode_fits_def)
  with 1 show ?case using session_mode_plain [of m] editable_viewable [of H m buf w] by blast
next
  case (2 m buf e)
  then show ?case by (simp add: edit_key_def)
next
  case (3 m buf e bc)
  then show ?case by (rule edit_handled)
qed

definition sound :: "('d, 's, 'b, 'w) host \<Rightarrow> 'w \<Rightarrow> 'd hex_view \<Rightarrow> 'd buffer \<Rightarrow> bool" where
  "sound H w hv buf \<longleftrightarrow> showing H w hv buf \<and> editable H (hv_mode hv) buf"

lemma soundD:
  assumes "sound H w hv buf"
  shows "hv_current hv = Inr buf" "takes_input (hv_mode hv)"
  using assms edit.ready [of H "hv_mode hv" buf w] scrollable_simps(1) by (auto simp: sound_def showing_def)

lemma edit_step:
  assumes "sound H w hv buf" "edit_key (hv_mode hv) buf e" "leaves_room (host_xi H) (hv_mode hv) e buf"
  shows "\<exists>cmds hv' buf'. event_step H e (w, hv) = Inr (cmds, w, hv') \<and> sound H w hv' buf'"
  using edit.step [of H w hv buf e] assms by (auto simp: sound_def)

section \<open>Sessions\<close>

inductive edit_session :: "('d, 's, 'b, 'w) host \<Rightarrow> 'w \<Rightarrow> event list \<Rightarrow> 'd hex_view \<Rightarrow> bool" for H w where
  start: "tofu_start H w None = Inr hv0 \<Longrightarrow> draw H w hv0 = Inr (cmds, hv) \<Longrightarrow> edit_session H w [] hv"
| key: "edit_session H w es hv \<Longrightarrow> hv_current hv = Inr buf \<Longrightarrow> edit_key (hv_mode hv) buf e \<Longrightarrow>
    leaves_room (host_xi H) (hv_mode hv) e buf \<Longrightarrow> event_step H e (w, hv) = Inr (cmds, w, hv') \<Longrightarrow>
    edit_session H w (es @ [e]) hv'"

text \<open>What the host has to offer: the crate's contract, and a terminal that fits the panel.\<close>

definition host_ok :: "('d, 's, 'b, 'w) host \<Rightarrow> bool" where
  "host_ok H \<longleftrightarrow> xi_rope (host_xi H) \<and> debug_fits (host_char_debug H) \<and>
     (case host_term_size H of Some (cols, rows) \<Rightarrow> bp_height \<le> rows \<and> rows \<le> 65000 | None \<Rightarrow> False)"

lemma start_sound:
  assumes "host_ok H"
  shows "\<exists>hv0 cmds hv. tofu_start H w None = Inr hv0 \<and> draw H w hv0 = Inr (cmds, hv) \<and> sound H w hv buffer_default \<and>
    hv_mode hv = normal_new"
proof -
  obtain cols rows where ts: "host_term_size H = Some (cols, rows)" "bp_height \<le> rows" "rows \<le> 65000"
    using assms by (auto simp: host_ok_def split: option.splits prod.splits)
  let ?b = "buffer_default :: 'a buffer"
  have b: "?b = from_data_and_path [] None" by (simp add: buffer_default_def)
  obtain hv0 where hv0: "tofu_start H w None = Inr hv0" "hv_current hv0 = Inr ?b" "hv_mode hv0 = normal_new"
    "hv_bytes_per_line hv0 = 16" "hv_start_offset hv0 = 0" "hv_size hv0 = (cols, rows)"
    by (simp add: tofu_start_def with_buffr_collection_def ts(1) collection_new_def with_current_buffer_def hv_current_def current_def)
  have flags: "flags_ok ?b" unfolding b by (rule flags_ok_new)
  then have "main_flags (buf_selection ?b)" by (simp add: flags_ok_def)
  have fields: "buf_path ?b = None" "buf_data ?b = []" "buf_selection ?b = selection_new" by (simp_all add: b from_data_and_path_def)
  have sc: "scrollable H w hv0 ?b"
    using \<open>main_flags (buf_selection ?b)\<close> assms ts hv0 fields 
    by (simp add: scrollable_def view_ok_def host_ok_def readable_def fully_loaded_def bp_height_def plain_mode_def normal_new_def isize_max_def)
  have shown: "main_caret_shown hv0 ?b"
    by (rule scrollable_shown [OF sc]) (use hv0 ts(2) fields in \<open>simp_all add: selection_new_def bp_height_def\<close>)
  obtain cmds rows' where d: "draw H w hv0 = Inr (cmds, hv0\<lparr>hv_last_visible_rows := rows'\<rparr>)"
    using draw_loaded [OF sc shown] by blast
  let ?hv = "hv0\<lparr>hv_last_visible_rows := rows'\<rparr>"
  have "showing H w ?hv ?b"
    using sc shown scrollable_fields(1) [of ?hv hv0 H w ?b] scrollable_fields(2) [of ?hv hv0 ?b] by (simp add: showing_def)
  moreover have "roomy ?b" using fields by (simp add: roomy_def selection_new_def isize_max_def)
  ultimately have "sound H w ?hv ?b"
    using flags hv0(3) fields(1) assms by (simp add: sound_def editable_def host_ok_def b buffer_ok_new mode_fits_def) (simp add: normal_new_def)
  with hv0(1,3) d show ?thesis by auto
qed

lemma session_start:
  assumes "host_ok H"
  shows "\<exists>hv. edit_session H w [] hv \<and> hv_current hv = Inr buffer_default \<and> hv_mode hv = normal_new"
  using start_sound [OF assms, of w] by (auto intro: edit_session.start dest: soundD(1))

lemma session_sound:
  assumes "edit_session H w es hv" "host_ok H"
  shows "\<exists>buf. sound H w hv buf"
  using assms(1)
proof (induction rule: edit_session.induct)
  case (start hv0 cmds hv)
  with start_sound [OF assms(2), of w] show ?case by auto
next
  case (key es hv buf e cmds hv')
  then obtain buf0 where s: "sound H w hv buf0" by blast
  with soundD(1) key.hyps(2) have "buf0 = buf" by fastforce
  with edit_step [OF _ key.hyps(3,4)] s key.hyps(5) show ?case by fastforce
qed

text \<open>A session is a run of the whole program.\<close>

lemma run_events_snoc:
  assumes "run_events H es s = Inr (cmds, s')" "takes_input (hv_mode (snd s'))" "event_step H e s' = Inr (cmds', s'')"
  shows "run_events H (es @ [e]) s = Inr (cmds @ cmds', s'')"
  using assms
proof (induction es arbitrary: s cmds)
  case (Cons a es)
  then show ?case
    by (cases s''; cases "takes_input (hv_mode (snd s))") (auto simp: and_then_eq_Inr)
qed simp

lemma session_run:
  assumes "edit_session H w es hv" "host_ok H"
  shows "\<exists>cmds. tofu_main H w None es = Inr (cmds, w, hv)"
  using assms(1)
proof (induction rule: edit_session.induct)
  case (start hv0 cmds hv)
  then show ?case by (simp add: tofu_main_def run_event_loop_def)
next
  case (key es hv buf e cmds hv')
  from session_sound [OF key.hyps(1) assms(2)] have "takes_input (hv_mode hv)" by (auto dest: soundD(2))
  with key.IH key.hyps(5) run_events_snoc show ?case
    by (fastforce simp: tofu_main_def run_event_loop_def and_then_eq_Inr)
qed

end
