(* ===== verification/Typing.thy ===== *)
theory Typing
  imports Edit_Session Key_Props Buffer_Props
begin

text \<open>
  Typing text: what a run of keys does to the bytes of the document. \<open>typed\<close> is the specification, the text
  put in at each of a sorted list of offsets; \<open>shifted\<close> are the offsets behind the copies. A run of character
  keys of insert mode is shown to be one such step, although the code inserts character by character,
  each time carrying the regions through a delta.
\<close>

section \<open>Text at several offsets\<close>

fun typed :: "nat \<Rightarrow> nat list \<Rightarrow> bytes \<Rightarrow> bytes \<Rightarrow> bytes" where
  "typed off [] t base = base"
| "typed off (p # ps) t base = take (p - off) base @ t @ typed p ps t (drop (p - off) base)"

fun shifted :: "nat \<Rightarrow> nat list \<Rightarrow> nat \<Rightarrow> nat list" where
  "shifted k [] n = []"
| "shifted k (p # ps) n = (p + k + n) # shifted (k + n) ps n"

definition offsets_in :: "nat \<Rightarrow> nat list \<Rightarrow> nat \<Rightarrow> bool" where
  "offsets_in off ps n \<longleftrightarrow> sorted_wrt (<) ps \<and> (\<forall>p\<in>set ps. off \<le> p \<and> p \<le> off + n)"

lemma offsets_in_Cons:
  assumes "offsets_in off (p # ps) (length base)"
  shows "off \<le> p" "p - off \<le> length base" "offsets_in p ps (length (drop (p - off) base))"
  using assms by (auto simp: offsets_in_def)

lemma typed_again:
  assumes "offsets_in off ps (length base)"
  shows "typed (off + k) (shifted k ps (length t)) c (typed off ps t base) = typed off ps (t @ c) base"
  using assms
proof (induction ps arbitrary: off k base)
  case (Cons p ps)
  note p = offsets_in_Cons [OF Cons.prems]
  have "typed (p + (k + length t)) (shifted (k + length t) ps (length t)) c (typed p ps t (drop (p - off) base)) =
      typed p ps (t @ c) (drop (p - off) base)"
    by (rule Cons.IH [OF p(3)])
  moreover have "p + k + length t - (off + k) = (p - off) + length t" using p(1) by simp
  ultimately show ?case using p(2) by (simp add: add.assoc)
qed simp

lemma shifted_again: "shifted j (shifted k ps n) m = shifted (k + j) ps (n + m)"
  by (induction ps arbitrary: j k) (simp_all add: ac_simps)

lemma length_typed: "offsets_in off ps (length base) \<Longrightarrow> length (typed off ps t base) = length base + length ps * length t"
proof (induction ps arbitrary: off base)
  case (Cons p ps)
  note p = offsets_in_Cons [OF Cons.prems]
  from Cons.IH [OF p(3)] p(2) show ?case by simp
qed simp

lemma typed_skip: "\<forall>p\<in>set ps. off < p \<Longrightarrow> typed off ps t (b # bs) = b # typed (Suc off) ps t bs"
  by (cases ps) (auto simp: Suc_diff_Suc [symmetric])

lemma edited_Cons:
  "edited (b # bs) ins del = ins 0 @ (if del 0 then [] else [b]) @ edited bs (\<lambda>i. ins (Suc i)) (\<lambda>i. del (Suc i))"
  by (simp add: edited_def upt_conv_Cons map_Suc_upt [symmetric] comp_def del: upt_Suc cong: if_cong)

text \<open>The edit that the operations perform, at the offsets of the carets, is \<open>typed\<close>.\<close>

lemma edited_typed:
  assumes "offsets_in off ps (length base)"
  shows "edited base (\<lambda>i. if off + i \<in> set ps then t else []) (\<lambda>_. False) = typed off ps t base"
  using assms
proof (induction base arbitrary: off ps)
  case Nil
  then have "ps = [] \<or> ps = [off]" by (cases ps rule: remdups_adj.cases) (auto simp: offsets_in_def)
  then show ?case by (auto simp: edited_def)
next
  case (Cons b bs)
  let ?rest = "filter (\<lambda>p. p \<noteq> off) ps"
  have rest: "offsets_in (Suc off) ?rest (length bs)" "\<forall>p\<in>set ?rest. off < p"
    using Cons.prems by (auto simp: offsets_in_def sorted_wrt_filter le_less Suc_le_eq)
  have "typed off ps t (b # bs) = (if off \<in> set ps then t else []) @ b # typed (Suc off) ?rest t bs"
  proof (cases "off \<in> set ps")
    case True
    with Cons.prems obtain qs where ps: "ps = off # qs" "off \<notin> set qs"
      by (cases ps) (force simp: offsets_in_def)+
    then have "?rest = qs" by (simp add: filter_id_conv) metis
    with ps typed_skip [OF rest(2), of t b bs] show ?thesis by simp
  next
    case False
    then have "?rest = ps" by (simp add: filter_id_conv) metis
    with False typed_skip [OF rest(2), of t b bs] show ?thesis by simp
  qed
  moreover have "(\<lambda>i. if off + Suc i \<in> set ps then t else []) = (\<lambda>i. if Suc off + i \<in> set ?rest then t else [])"
    by auto
  ultimately show ?case using Cons.IH [OF rest(1)] by (simp add: edited_Cons)
qed

section \<open>Regions that stay apart\<close>

text \<open>When the mapped regions are still sorted and disjoint, nothing is merged: the result has exactly these regions.\<close>

lemma push_apart: "sorted_wrt before (out @ [r]) \<Longrightarrow> push_region out r = Inr (out @ [r])"
  by (cases out rule: rev_cases) (auto simp: push_region_def overlaps_def before_def sorted_wrt_append)

lemma sorted_before_main:
  "sorted_wrt before (xs @ [r] @ ys) \<Longrightarrow> sorted_wrt before (xs @ [r\<lparr>main := b\<rparr>] @ ys)"
  by (auto simp: sorted_wrt_append)

lemma map_loop_apart:
  assumes "sorted_wrt before (out @ map g rs)"
  shows "\<exists>out' nm'. map_loop (single g) m i rs () out nm = Inr ((out', nm'), ()) \<and>
    map caret out' = map caret out @ map (caret \<circ> g) rs"
  using assms
proof (induction rs arbitrary: i out nm)
  case (Cons r rs)
  have sorted: "sorted_wrt before (out @ [g r] @ map g rs)" using Cons.prems by simp
  then have push: "push_region out (g r) = Inr (out @ [g r])" by (intro push_apart) (auto simp: sorted_wrt_append)
  have marked: "sorted_wrt before ((out @ [(g r)\<lparr>main := True\<rparr>]) @ map g rs)"
    using sorted_before_main [OF sorted] by simp
  show ?case
  proof (cases "i = m")
    case True
    with Cons.IH [OF marked, of "Suc i" "length out"] push show ?thesis by (auto simp: single_def)
  next
    case False
    from sorted have "sorted_wrt before ((out @ [g r]) @ map g rs)" by simp
    from Cons.IH [OF this, of "Suc i" nm] False push show ?thesis by (auto simp: single_def)
  qed
qed simp

lemma map_selections_apart:
  assumes "sorted_wrt before (map g (regions s))"
  shows "\<exists>s'. map_selections (single g) () s = Inr (s', ()) \<and> map caret (regions s') = map (caret \<circ> g) (regions s)"
  using map_loop_apart [of "[]" g "regions s" "main_selection s" 0 0] assms by (auto simp: map_selections_def)

lemma carets_sorted:
  assumes "wf_selection s" "in_bounds n s"
  shows "offsets_in 0 (map caret (regions s)) n" "offsets_in 0 (map region_min (regions s)) n"
proof -
  have "sorted_wrt (\<lambda>a b. caret a < caret b) (regions s)" "sorted_wrt (\<lambda>a b. region_min a < region_min b) (regions s)"
    using assms(1) unfolding wf_selection_def
    by (auto intro!: sorted_wrt_mono_rel [of _ before] simp: before_def region_defs)
  with assms(2) show "offsets_in 0 (map caret (regions s)) n" "offsets_in 0 (map region_min (regions s)) n"
    by (auto simp: offsets_in_def sorted_wrt_map in_bounds_def region_defs)
qed

section \<open>Carets behind the text\<close>

lemma length_copies:
  assumes "x \<le> n" "distinct ps"
  shows "length (concat (take (Suc x) (map (\<lambda>i. if i \<in> set ps then t else []) [0..<Suc n]))) =
    length t * length (filter (\<lambda>p. p \<le> x) ps)"
  using assms(1)
proof (induction x)
  case 0
  have "filter (\<lambda>p. p = a) ps = (if a \<in> set ps then [a] else [])" for a
    using assms(2) by (induction ps) auto
  from this [of 0] show ?case by (simp add: take_Suc_conv_app_nth del: upt_Suc)
next
  case (Suc x)
  have "length (filter (\<lambda>p. p \<le> Suc x) ps) = length (filter (\<lambda>p. p \<le> x) ps) + (if Suc x \<in> set ps then 1 else 0)"
    using assms(2) by (induction ps) (auto simp: le_Suc_eq)
  with Suc show ?case by (simp add: take_Suc_conv_app_nth [of "Suc x"] del: upt_Suc)
qed

lemma counted_shifted:
  assumes "sorted_wrt (<) (pre @ ps)"
  shows "map (\<lambda>p. n * length (filter (\<lambda>q. q \<le> p) (pre @ ps)) + p) ps = shifted (n * length pre) ps n"
  using assms
proof (induction ps arbitrary: pre)
  case (Cons p ps)
  have "filter (\<lambda>q. q \<le> p) (pre @ p # ps) = pre @ [p]"
  proof -
    have "filter (\<lambda>q. q \<le> p) pre = pre" "filter (\<lambda>q. q \<le> p) ps = []"
      using Cons.prems by (auto simp: sorted_wrt_append filter_id_conv filter_empty_conv)
    then show ?thesis by simp
  qed
  moreover have "map (\<lambda>x. n * length (filter (\<lambda>q. q \<le> x) ((pre @ [p]) @ ps)) + x) ps = shifted (n * length (pre @ [p])) ps n"
    by (rule Cons.IH) (use Cons.prems in simp)
  ultimately show ?case by (simp add: algebra_simps del: filter_append filter.simps)
qed simp

context xi_rope
begin

lemma text_carets:
  assumes res: "does_edit X base (Inr d) (\<lambda>i. if i \<in> carets s then t else []) (\<lambda>_. False)"
    and wf: "wf_selection s" and inb: "in_bounds (length base) s" and ne: "t \<noteq> []"
  shows "\<exists>s'. selection_apply_delta X d (length base) s = Inr s' \<and>
    map caret (regions s') = shifted 0 (map caret (regions s)) (length t)"
proof -
  let ?n = "length base" and ?T = "\<lambda>p. transformer_transform X d p True" and ?ps = "map caret (regions s)"
  have c: "carets s = set ?ps" by (simp add: carets_def)
  have d: "delta_del X d = map (\<lambda>_. False) [0..<?n]" "delta_ins X d = map (\<lambda>i. if i \<in> set ?ps then t else []) [0..<Suc ?n]"
    using res unfolding does_edit_def c by (simp_all add: gather_keep_all map_replicate_const del: upt_Suc)
  have only: "insert_only X d" by (rule insert_only_del [OF d(1)])
  have len: "base_len X d = ?n" using d(1) by (simp add: base_len_def)
  have ps: "offsets_in 0 ?ps ?n" by (rule carets_sorted(1) [OF wf inb])
  then have dist: "distinct ?ps" "sorted_wrt (<) ?ps" by (auto simp: offsets_in_def strict_sorted_iff)
  have T: "?T p = length t * length (filter (\<lambda>q. q \<le> p) ?ps) + p" if "p \<le> ?n" for p
    using transform_insert_only [OF only, of p] length_copies [OF that dist(1), of t] that by (simp only: len d(2))
  have "map ?T ?ps = map (\<lambda>p. length t * length (filter (\<lambda>q. q \<le> p) ?ps) + p) ?ps"
    by (rule map_cong [OF refl T]) (use ps in \<open>auto simp: offsets_in_def\<close>)
  then have all: "map ?T ?ps = shifted 0 ?ps (length t)"
    using counted_shifted [of "[]" ?ps "length t"] dist(2) by (simp only: append_Nil list.size(3) mult_0_right)
  have strict: "?T x < ?T y" if "x < y" "y \<le> ?n" for x y
    using strict_carrying.strict [OF insert_only_carrying [OF only], of x y] that by (simp add: len)
  have "before (carried ?T a) (carried ?T b)" if "a \<in> set (regions s)" "b \<in> set (regions s)" "before a b" for a b
    using that inb strict by (auto simp: carried_def before_def in_bounds_def region_defs)
  then have "sorted_wrt before (map (carried ?T) (regions s))"
    using wf unfolding wf_selection_def sorted_wrt_map by (auto intro: sorted_wrt_mono_rel)
  from map_selections_apart [OF this] obtain s' where s': "map_selections (single (carried ?T)) () s = Inr (s', ())"
    "map caret (regions s') = map (caret \<circ> carried ?T) (regions s)" by blast
  have "delta_new_document_len X d \<noteq> 0"
  proof -
    obtain p qs where "?ps = p # qs" using wf_selection_nonempty [OF wf] by (cases "regions s") auto
    then have "p \<le> ?n" "0 < ?T p" using ps T [of p] ne by (auto simp: offsets_in_def)
    then show ?thesis using carrying.bound [OF transform_carrying, of p d] by (simp add: len)
  qed
  with apply_delta_eq [of d s] inb s'(1) have "selection_apply_delta X d ?n s = Inr s'" by (simp add: len)
  moreover have "map (caret \<circ> carried ?T) (regions s) = map ?T ?ps" by (simp add: carried_def)
  ultimately show ?thesis using s'(2) all by metis
qed

text \<open>One character: the text at every caret, the carets behind it.\<close>

lemma type_char:
  assumes ok: "buffer_ok X buf" and b: "all_backward (buf_selection buf)" and ne: "t \<noteq> []"
  shows "\<exists>d buf'. insert_text X (buf_data buf) (buf_selection buf) t = Inr d \<and>
    apply_incomplete_delta X d buf = Inr (ChangeLength, buf') \<and> buffer_ok X buf' \<and> all_backward (buf_selection buf') \<and>
    continues (buffer_timeline X buf) (buffer_timeline X buf') \<and>
    buf_data buf' = typed 0 (map caret (regions (buf_selection buf))) t (buf_data buf) \<and>
    map caret (regions (buf_selection buf')) = shifted 0 (map caret (regions (buf_selection buf))) (length t)"
proof -
  let ?s = "buf_selection buf" and ?base = "buf_data buf"
  note sel = buffer_sel_ok [OF ok]
  note does = insert_text_does [OF sel, of t]
  obtain d where d: "insert_text X ?base ?s t = Inr d" "edit_result X False backward buf (apply_incomplete_delta X d buf)
      (edited ?base (\<lambda>i. if i \<in> carets ?s then t else []) (\<lambda>_. False))"
    using backward_result [OF ok b does] by blast
  obtain buf' where buf': "apply_incomplete_delta X d buf = Inr (ChangeLength, buf')" "buffer_ok X buf'"
    "buf_data buf' = edited ?base (\<lambda>i. if i \<in> carets ?s then t else []) (\<lambda>_. False)"
    "\<forall>r\<in>set (regions (buf_selection buf')). backward r"
    "continues (buffer_timeline X buf) (buffer_timeline X buf')"
    using d(2) by (auto simp: edit_result_def)
  obtain s' where s': "selection_apply_delta X d (length ?base) ?s = Inr s'"
    "map caret (regions s') = shifted 0 (map caret (regions ?s)) (length t)"
    using text_carets [OF does [unfolded d(1)] sel ne] by blast
  then have "buf_selection buf' = s'" using buf'(1) by (auto simp: apply_incomplete_delta_def Let_def)
  moreover have "buf_data buf' = typed 0 (map caret (regions ?s)) t ?base"
    using edited_typed [OF carets_sorted(1) [OF sel], of t] buf'(3) by (simp add: carets_def)
  ultimately show ?thesis using d(1) buf' s'(2) by (auto simp: all_backward_def)
qed

end

section \<open>A run of keys\<close>

fun answers :: "('d, 's, 'b) xi \<Rightarrow> mode \<Rightarrow> event list \<Rightarrow> 'd buffer \<Rightarrow> (mode \<times> 'd buffer) outcome" where
  "answers X m [] buf = Inr (m, buf)"
| "answers X m (e # es) buf =
     and_then (answer X m e buf) (\<lambda>(t, buf'). answers X (case t of Some tr \<Rightarrow> next_mode m tr | None \<Rightarrow> m) es buf')"

lemma answers_append:
  "answers X m (es @ es') buf = and_then (answers X m es buf) (\<lambda>(m', buf'). answers X m' es' buf')"
proof (induction es arbitrary: m buf)
  case (Cons e es)
  then show ?case by (cases "answer X m e buf") (auto split: prod.split)
qed simp

definition esc_key :: event where
  "esc_key = Key \<lparr>code = KEsc, modifiers = no_modifiers\<rparr>"

abbreviation inserting :: mode where
  "inserting \<equiv> Insert InsertAt False None"

lemma insert_char_unmapped: "event_to_action insert_default_maps (plain_key c) = None"
  by (simp add: event_to_action_def plain_key_def insert_default_maps_def keys_def k_ctrl_def k_key_def normalized_char_def
      no_modifiers_def without_shift_def Let_def)

lemma answer_char:
  "answer X inserting (plain_key c) buf = and_then (transition_ascii_insertion X c InsertAt buf) (\<lambda>(t, buf'). Inr (Some t, buf'))"
  by (simp add: answer_def insert_transition_def insert_char_unmapped)
    (simp add: plain_key_def no_modifier_set_def without_shift_def no_modifiers_def)

lemma answer_esc: "answer X inserting esc_key buf = Inr (Some (NewMode normal_new), commit_delta buf)"
proof -
  have "event_to_action insert_default_maps esc_key = Some Exit" by code_simp
  then show ?thesis by (simp add: answer_def insert_transition_def insert_action_transition_def)
qed

lemma answer_i:
  "answer X normal_new (press (CHR ''i'')) buf =
    and_then (and_new_mode inserting (buffer_map_selections X (single to_backward) () buf)) (\<lambda>(t, buf'). Inr (Some t, buf'))"
proof -
  have "event_to_action normal_default_maps (press (CHR ''i'')) = Some (NInsert False)"
    "count_state_transition NoCount (press (CHR ''i'')) = NotHandled" by code_simp+
  then show ?thesis by (simp add: answer_def normal_new_def normal_transition_def normal_action_defs)
qed

lemma answer_u:
  "answer X normal_new (press (CHR ''u'')) buf = and_then (normal_undo X buf) (\<lambda>(t, buf'). Inr (Some t, buf'))"
proof -
  have "event_to_action normal_default_maps (press (CHR ''u'')) = Some Undo"
    "count_state_transition NoCount (press (CHR ''u'')) = NotHandled" by code_simp+
  then show ?thesis by (simp add: answer_def normal_new_def normal_transition_def normal_action_transition_def)
qed

context xi_rope
begin

lemma enter_insert:
  assumes ok: "buffer_ok X buf"
  shows "\<exists>buf'. answers X normal_new [press (CHR ''i'')] buf = Inr (inserting, buf') \<and> buffer_ok X buf' \<and>
    all_backward (buf_selection buf') \<and> buf_data buf' = buf_data buf \<and> buffer_timeline X buf' = buffer_timeline X buf \<and>
    map caret (regions (buf_selection buf')) = map region_min (regions (buf_selection buf))"
proof -
  let ?s = "buf_selection buf"
  have "map_result X backward buf (buffer_map_selections X (single to_backward) () buf)"
    by (rule map_total [OF backward_map.region_map_axioms ok swap_collapse_within(3) merge_closed_backward
          swap_collapse_within(4)])
  then obtain ivs s' where out: "buffer_map_selections X (single to_backward) () buf = Inr (ChangeInPlace ivs, buf\<lparr>buf_selection := s'\<rparr>)"
    "buffer_ok X (buf\<lparr>buf_selection := s'\<rparr>)" "\<forall>r\<in>set (regions s'). backward r" by (auto simp: map_result_def)
  have ends: "region_min (to_backward r) = region_min r" "region_max (to_backward r) = region_max r" "caret (to_backward r) = region_min r"
    for r by (auto simp: to_backward_def region_defs)
  have same: "before (to_backward a) (to_backward b) = before a b" for a b by (simp add: before_def ends)
  have "sorted_wrt before (map to_backward (regions ?s))"
    using buffer_sel_ok(1) [OF ok] by (simp add: wf_selection_def sorted_wrt_map same)
  from map_selections_apart [OF this] obtain s'' where s'': "map_selections (single to_backward) () ?s = Inr (s'', ())"
    "map caret (regions s'') = map region_min (regions ?s)" by (auto simp: comp_def ends)
  with out(1) have "buf\<lparr>buf_selection := s''\<rparr> = buf\<lparr>buf_selection := s'\<rparr>" by (simp add: buffer_map_selections_eq)
  from arg_cong [OF this, of buf_selection] s''(2) have "map caret (regions s') = map region_min (regions ?s)" by simp
  with out show ?thesis by (auto simp: answer_i and_new_mode_def all_backward_def)
qed

lemma type_text:
  assumes "buffer_ok X buf" "all_backward (buf_selection buf)" "in_session t0 (buffer_timeline X buf)" "pending t0 = None"
  shows "\<exists>buf'. answers X inserting (map plain_key cs) buf = Inr (inserting, buf') \<and> buffer_ok X buf' \<and>
    all_backward (buf_selection buf') \<and> in_session t0 (buffer_timeline X buf') \<and>
    buf_data buf' = typed 0 (map caret (regions (buf_selection buf))) (concat (map encode_utf8 cs)) (buf_data buf) \<and>
    map caret (regions (buf_selection buf')) =
      shifted 0 (map caret (regions (buf_selection buf))) (length (concat (map encode_utf8 cs)))"
  using assms
proof (induction cs arbitrary: buf)
  case Nil
  have "typed off ps [] base = base" "shifted k ps 0 = map (\<lambda>p. p + k) ps" for off ps base k
    by (induction ps arbitrary: off base k) simp_all
  with Nil show ?case by auto
next
  case (Cons c cs)
  let ?ps = "map caret (regions (buf_selection buf))"
  obtain d buf1 where b1: "insert_text X (buf_data buf) (buf_selection buf) (encode_utf8 c) = Inr d"
    "apply_incomplete_delta X d buf = Inr (ChangeLength, buf1)" "buffer_ok X buf1" "all_backward (buf_selection buf1)"
    "continues (buffer_timeline X buf) (buffer_timeline X buf1)" "buf_data buf1 = typed 0 ?ps (encode_utf8 c) (buf_data buf)"
    "map caret (regions (buf_selection buf1)) = shifted 0 ?ps (length (encode_utf8 c))"
    using type_char [OF Cons.prems(1,2) encode_utf8_nonempty] by blast
  have key: "answer X inserting (plain_key c) buf = Inr (Some (DirtyBytes ChangeLength), buf1)"
    using b1(1,2) by (simp add: answer_char transition_ascii_insertion_def)
  obtain buf' where b': "answers X inserting (map plain_key cs) buf1 = Inr (inserting, buf')" "buffer_ok X buf'"
    "all_backward (buf_selection buf')" "in_session t0 (buffer_timeline X buf')"
    "buf_data buf' = typed 0 (map caret (regions (buf_selection buf1))) (concat (map encode_utf8 cs)) (buf_data buf1)"
    "map caret (regions (buf_selection buf')) =
      shifted 0 (map caret (regions (buf_selection buf1))) (length (concat (map encode_utf8 cs)))"
    using Cons.IH [OF b1(3,4) in_session_continues [OF Cons.prems(3) b1(5) Cons.prems(4)] Cons.prems(4)] by blast
  have "buf_data buf' = typed 0 ?ps (encode_utf8 c @ concat (map encode_utf8 cs)) (buf_data buf)"
    using typed_again [OF carets_sorted(1) [OF buffer_sel_ok [OF Cons.prems(1)]], of 0] b'(5) b1(6,7) by simp
  moreover have "map caret (regions (buf_selection buf')) = shifted 0 ?ps (length (encode_utf8 c) + length (concat (map encode_utf8 cs)))"
    using b'(6) b1(7) by (simp add: shifted_again)
  ultimately show ?case using key b'(1-4) by simp
qed

text \<open>From entering insert mode to undoing the session.\<close>

lemma type_session:
  assumes ok: "buffer_ok X buf" and e: "\<not> editing buf"
  shows "\<exists>buf1. answers X normal_new (press (CHR ''i'') # map plain_key cs @ [esc_key]) buf = Inr (normal_new, buf1) \<and>
    session_inv X (buffer_timeline X buf) (normal_new, buf1) \<and>
    buf_data buf1 = typed 0 (map region_min (regions (buf_selection buf))) (concat (map encode_utf8 cs)) (buf_data buf) \<and>
    map caret (regions (buf_selection buf1)) =
      shifted 0 (map region_min (regions (buf_selection buf))) (length (concat (map encode_utf8 cs)))"
proof -
  let ?t0 = "buffer_timeline X buf"
  have t0: "pending ?t0 = None" using e by (simp add: pending_editing)
  obtain b0 where b0: "answers X normal_new [press (CHR ''i'')] buf = Inr (inserting, b0)" "buffer_ok X b0"
    "all_backward (buf_selection b0)" "buf_data b0 = buf_data buf" "buffer_timeline X b0 = ?t0"
    "map caret (regions (buf_selection b0)) = map region_min (regions (buf_selection buf))"
    using enter_insert [OF ok] by blast
  then have "in_session ?t0 (buffer_timeline X b0)" by simp
  from type_text [OF b0(2,3) this t0, of cs] obtain b1 where
    b1: "answers X inserting (map plain_key cs) b0 = Inr (inserting, b1)" "buffer_ok X b1" "in_session ?t0 (buffer_timeline X b1)"
    "buf_data b1 = typed 0 (map region_min (regions (buf_selection buf))) (concat (map encode_utf8 cs)) (buf_data buf)"
    "map caret (regions (buf_selection b1)) =
      shifted 0 (map region_min (regions (buf_selection buf))) (length (concat (map encode_utf8 cs)))"
    using b0(4,6) by auto
  have "answers X normal_new ([press (CHR ''i'')] @ map plain_key cs @ [esc_key]) buf = Inr (normal_new, commit_delta b1)"
    unfolding answers_append b0(1) by (simp add: answers_append b1(1) answer_esc)
  moreover have "session_inv X ?t0 (normal_new, commit_delta b1)"
    using commit_ok [OF b1(2)] in_session_commit [OF b1(3) t0] by (simp add: session_inv_def) (simp add: normal_new_def)
  moreover have "buf_data (commit_delta b1) = buf_data b1" "buf_selection (commit_delta b1) = buf_selection b1"
    by (simp_all add: commit_delta_def)
  ultimately show ?thesis using b1(4,5) by auto
qed

end

text \<open>C2: Typing inserts what was typed, at every region, and one undo takes it back. On a sound buffer, \<open>i\<close>, the characters of
  a text and Esc put the UTF-8 bytes of the text in front of every region and change nothing else, leave each
  caret behind its copy of the text, and give a sound buffer in normal mode; then \<open>u\<close> restores the bytes
  (character by character the code builds a delta, carries the regions through it and chains it to the
  pending edit).\<close>

theorem typing_exact:
  assumes "xi_rope X" "buffer_ok X buf" "\<not> editing buf" "cs \<noteq> []"
  shows "\<exists>buf1 buf2. answers X normal_new (press (CHR ''i'') # map plain_key cs @ [esc_key]) buf = Inr (normal_new, buf1) \<and>
    buffer_ok X buf1 \<and>
    buf_data buf1 = typed 0 (map region_min (regions (buf_selection buf))) (concat (map encode_utf8 cs)) (buf_data buf) \<and>
    map caret (regions (buf_selection buf1)) =
      shifted 0 (map region_min (regions (buf_selection buf))) (length (concat (map encode_utf8 cs))) \<and>
    answers X normal_new [press (CHR ''u'')] buf1 = Inr (normal_new, buf2) \<and> buffer_ok X buf2 \<and> buf_data buf2 = buf_data buf"
proof -
  let ?ps = "map region_min (regions (buf_selection buf))" and ?w = "concat (map encode_utf8 cs)" and ?tl = "buffer_timeline X buf"
  obtain buf1 where b1: "answers X normal_new (press (CHR ''i'') # map plain_key cs @ [esc_key]) buf = Inr (normal_new, buf1)"
    "session_inv X ?tl (normal_new, buf1)" "buf_data buf1 = typed 0 ?ps ?w (buf_data buf)"
    "map caret (regions (buf_selection buf1)) = shifted 0 ?ps (length ?w)"
    using xi_rope.type_session [OF assms(1-3), of cs] by blast
  have t0: "pending ?tl = None" using xi_rope.pending_editing [OF assms(1)] assms(3) by blast
  have present: "present (buffer_timeline X b) = buf_data b" for b
    using xi_rope.present_timeline [OF assms(1)] by (simp add: buffer_timeline_def)
  have sel: "wf_selection (buf_selection buf)" "in_bounds (length (buf_data buf)) (buf_selection buf)"
    using buffer_sel_ok [OF assms(2)] .
  have "?ps \<noteq> []" "?w \<noteq> []" using wf_selection_nonempty [OF sel(1)] assms(4) by (cases cs; simp)+
  then have "length (buf_data buf1) \<noteq> length (buf_data buf)"
    using length_typed [OF carets_sorted(2) [OF sel], of ?w] b1(3) by simp
  then have "buffer_timeline X buf1 \<noteq> ?tl" using present [of buf1] present [of buf] by metis
  moreover have "\<not> is_Insert normal_new" by (simp add: normal_new_def)
  ultimately obtain buf2 where "perform_undo X buf1 = (Some ChangeLength, buf2)" "buffer_ok X buf2" "buf_data buf2 = buf_data buf"
    using xi_rope.session_undo [OF assms(1) b1(2) _ t0] present by auto
  with b1 show ?thesis by (auto simp: answer_u normal_undo_def session_inv_def)
qed

theorem typing_exact_witness:
  "\<exists>buf1. answers ref_xi normal_new (press (CHR ''i'') # map plain_key [233, 33] @ [esc_key]) abc_buffer = Inr (normal_new, buf1) \<and>
    buf_data buf1 = typed 0 (map region_min (regions (buf_selection abc_buffer))) [0xC3, 0xA9, 0x21] (buf_data abc_buffer)"
proof -
  have "concat (map encode_utf8 [233, 33]) = [0xC3, 0xA9, 0x21]" by (simp add: encode_utf8_def)
  with typing_exact [OF ref.xi_rope_axioms abc_buffer_ok, of "[233, 33]"] show ?thesis by auto
qed

end
