(* ===== verification/Spec2Isabelle.thy ===== *)
theory Spec2Isabelle
  imports Selection_Props Edit_Props Buffer_Props Key_Props Mode_Props Search_Props View_Props File_Props Byte_Rope
    Typing
begin

text \<open>
  Verification development of Tofu, a modal hex editor for the terminal (Rust, src/src/).

  \<^bold>\<open>The program.\<close> A buffer (current_buffer.rs) holds the bytes of a file in a rope (byte_rope.rs over the
  xi-rope crate), a selection of one or more regions (selection.rs), registers and an undo history
  (history.rs). Edits are deltas built by operations.rs. The view (hex_view/view.rs) owns a collection
  of buffers and the current mode (modes/); an event goes to the mode, which may change the buffers
  and answers with a transition: a new mode, a message, the bytes to repaint. The view then scrolls,
  loads more of the file, repaints rows (hex_view/mod.rs, hex_view/byte_properties.rs) and the status line.

  \<^bold>\<open>Conventions\<close> (Prelude). A computation that can panic has a value of \<open>panic + 'a\<close>; every \<open>unwrap\<close>, index,
  assertion and division of the source that can fail is a branch. \<open>usize\<close> is a natural number with
  wrap-around written out (release build) where values can reach the border; bytes are \<open>8 word\<close>s;
  strings are lists of code points with their UTF-8 length where the code uses byte offsets.

  \<^bold>\<open>Code outside the repository\<close> is a parameter: the record \<open>xi\<close> of the rope crate's delta operations, with
  the locale \<open>xi_rope\<close> for what the crate documents (Xi_Rope) and an interpretation on a reference
  implementation (Xi_Reference); the record \<open>tree\<close> and the locale \<open>rope_tree\<close> for its tree, builder and cursor
  (Byte_Rope); the record \<open>matcher\<close> for jetscii and regex (Mode_Search); the record \<open>io\<close> for the file system with
  the predicates of Files; the size of the terminal and how \<open>Debug\<close> shows a character (record \<open>host\<close>,
  View_Draw).

  \<^bold>\<open>Theories and sources.\<close>
  \<^item> Selection: \<open>SelRegion\<close> and \<open>Selection\<close> of selection.rs. Region_Map: the merging loop of \<open>map_selections\<close> as a
    locale (\<open>region_map\<close>), shown to keep the invariant \<open>wf_selection\<close>. Region_Moves: the interpretations for the moves of
    the editor. Selection_Props: binary search of \<open>regions_in_range\<close>, moves, \<open>remove\<close>, splitting.
  \<^item> Xi_Rope, Xi_Reference: the contract of the crate and a model of it.
  \<^item> Operations: operations.rs; every operation is shown to build a delta that edits exactly what is selected.
    History: history.rs, with \<open>Action::invert\<close> and \<open>Action::chain\<close>. Timeline: the abstract specification of undo (a list of
    versions before, after and a pending one; locale \<open>undo_history\<close>) which \<open>History\<close> refines. Edit_Props: the properties.
  \<^item> Selection_Delta: moving a selection through a delta. Current_Buffer: current_buffer.rs, buffers and their collection.
    Buffer_Inv, Buffer_Edits, Buffer_Maps: the invariant \<open>buffer_ok\<close> and that edits, undo, redo and mapped
    selections keep it. Files: what is relied on of files. Buffer_Props: the properties.
  \<^item> Keymap: keymap.rs and cmd_count.rs. Mode: modes/mode.rs and modes/mod.rs. Mode_Normal, Mode_Edit (insert, replace,
    jumpto), Mode_Search (search, split, collapse), Mode_Command: the handlers. Mode_Safe, Normal_Safe, Insert_Safe,
    Insert_Session, Search_Safe: that handlers return and keep the invariant. Key_Props, Mode_Props, Search_Props: the properties.
  \<^item> Byte_Rope: byte_rope.rs, with the refinement from chunks to bytes.
  \<^item> Styling: hex_view/mod.rs. Byte_Properties: hex_view/byte_properties.rs. Editor: dispatch to the mode. View, View_Draw,
    View_Loop: hex_view/view.rs (state and file window; drawing; scrolling, transitions and the event
    loop) and bin/tofu.rs. View_Marks: the styles of bytes against a direct definition. View_Safe: drawing returns.
    View_Scroll: scrolling keeps the main caret on the screen. View_Props, File_Props: the properties.
  \<^item> Session: the contract \<open>key_contract\<close> between the handlers of a class of keys and the event loop, with runs of the
    loop inside it, interpreted for navigation here and for editing in Edit_Session. Main_Flags: every operation keeps the
    flag of the main region with its index, also in the selections of the history. Reports: what handlers report to the
    view covers what they did. Append_Safe: appending text. Edit_Session: editing sessions of the whole program as an
    inductive relation, with their invariant by rule induction. Typing: a run of character keys as one insertion of the text at
    every region. The properties of the two kinds of session are below, the one of typing is in Typing.

  \<^bold>\<open>What is shown.\<close> Selections stay sorted and disjoint under every move; edits change exactly the selected
  bytes; inversion and chaining of deltas are undo and composition; a partial run is one undo entry;
  on a sound buffer every key of normal mode (counts within the range of \<open>isize\<close>, none in front of g and G) and of
  insert mode returns and keeps it sound; a session of editing from the start of the program, with the keys
  \<open>edit_key\<close> admits, takes its next key in every state it reaches; typing inserts the text at
  every region and one undo takes it back; searching and
  splitting are exact; saving with \<open>:wq\<close> leaves in every file the bytes of the last buffer on it; the drawn marks, rows and panel are what a direct
  definition says; repainting ends with the caret on the screen. The error properties show, with their
  exact conditions, where the code panics, loops or loses data.

  \<^bold>\<open>Fuel.\<close> Three loops have fuel. The match loop of a search gets one round more than the region has bytes,
  and every round but the last shortens the rest (\<open>matches_exact\<close> shows that it returns). The loop that prints the rest of the panel
  gets \<open>start_offset + 6\<close> rounds: it needs five to print and fewer than \<open>start_offset\<close> to reach the screen when it
  starts above it (\<open>redraw_shows_caret\<close>: it returns; \<open>small_terminal_hangs\<close>: where it does not, it is still running after \<open>2 ^ 60\<close> rounds
  less the height, and \<open>NoReturn\<close> stands for that). The chunk iterator needs one
  round more than the rope has leaves (\<open>rope_slice_refines\<close>, \<open>rope_vec_roundtrip\<close>).

  \<^bold>\<open>Not modelled.\<close> \<open>debug_log\<close> (switched off by a constant), timing, flushing, raw mode and the alternate screen;
  the \<open>Display\<close> of \<open>MixedRepr\<close>, which nothing uses; the interior of xi-rope, jetscii, regex and crossterm; failure of a
  write to standard output. Events come as a list, so waiting for input is not modelled.
\<close>

section \<open>Sessions\<close>

text \<open>C1: The editor does not go wrong while a document is typed and edited. Started without a file on a terminal of
  five to 65000 rows, a session (\<open>edit_session\<close>) is any sequence of the keys \<open>edit_key\<close> admits, as long as the
  document fits the address space (\<open>leaves_room\<close>). Admitted are
  \<^item> in normal mode every key but \<open>s\<close>, \<open>S\<close>, \<open>Alt-s\<close> and \<open>:\<close> (the prompts), \<open>A\<close>, \<open>o\<close>, \<open>O\<close> and \<open>G\<close> (which can bring
    regions of both directions together), a count in front of \<open>g\<close> or \<open>Alt-space\<close>, and counts whose distance is above the maximum
    of \<open>isize\<close>;
  \<^item> every key of insert mode, of replace mode and of the jump mode of \<open>g\<close>, and in append mode (\<open>a\<close>) every key but \<open>Ctrl-o\<close>;
  and no resizing and no scrolling with \<open>Ctrl-e\<close> and \<open>Ctrl-y\<close>. Much of what is left out can panic, as the development
  shows for \<open>A\<close>, \<open>o\<close>, \<open>O\<close>, \<open>G\<close>, a count in front of \<open>g\<close>, huge counts and resizing.
  In every state such a session reaches the buffer is sound (selection sorted, disjoint, inside the data; every entry
  of the history fits), one region is the main one and its caret is on the screen; and there the next admitted key
  returns again, in a state of a session: no panic, no endless loop.\<close>

theorem editing_session:
  assumes "host_ok H"
  shows "(\<exists>hv. edit_session H w [] hv) \<and>
    (\<forall>es hv. edit_session H w es hv \<longrightarrow>
      (\<exists>cmds buf. tofu_main H w None es = Inr (cmds, w, hv) \<and> hv_current hv = Inr buf \<and>
        buffer_ok (host_xi H) buf \<and> main_flags (buf_selection buf) \<and>
        hv_start_offset hv \<le> main_caret buf \<and> main_caret buf < snd (visible_range hv (length (buf_data buf))) \<and>
        (\<forall>e. edit_key (hv_mode hv) buf e \<longrightarrow> leaves_room (host_xi H) (hv_mode hv) e buf \<longrightarrow>
          (\<exists>cmds hv'. event_step H e (w, hv) = Inr (cmds, w, hv') \<and> edit_session H w (es @ [e]) hv'))))"
proof (intro conjI allI impI)
  show "\<exists>hv. edit_session H w [] hv" using session_start [OF assms, of w] by blast
next
  fix es hv assume s: "edit_session H w es hv"
  obtain cmds where run: "tofu_main H w None es = Inr (cmds, w, hv)" using session_run [OF s assms] by blast
  obtain buf where sound: "sound H w hv buf" using session_sound [OF s assms] by blast
  note cur = soundD(1) [OF sound]
  have inv: "buffer_ok (host_xi H) buf" "main_flags (buf_selection buf)" "main_caret_shown hv buf"
    using sound by (simp_all add: sound_def editable_def showing_def flags_ok_def)
  have "main_selection (buf_selection buf) < length (regions (buf_selection buf))"
    using buffer_sel_ok(1) [OF inv(1)] by (simp add: wf_selection_def)
  then have "hv_start_offset hv \<le> main_caret buf" "main_caret buf < snd (visible_range hv (length (buf_data buf)))"
    using inv(2,3) by (simp_all add: main_caret_shown_def main_flags_def)
  moreover have "\<exists>cmds hv'. event_step H e (w, hv) = Inr (cmds, w, hv') \<and> edit_session H w (es @ [e]) hv'"
    if "edit_key (hv_mode hv) buf e" "leaves_room (host_xi H) (hv_mode hv) e buf" for e
    using edit_step [OF sound that] edit_session.key [OF s cur that] by blast
  ultimately
  show "\<exists>cmds buf. tofu_main H w None es = Inr (cmds, w, hv) \<and> hv_current hv = Inr buf \<and>
        buffer_ok (host_xi H) buf \<and> main_flags (buf_selection buf) \<and>
        hv_start_offset hv \<le> main_caret buf \<and> main_caret buf < snd (visible_range hv (length (buf_data buf))) \<and>
        (\<forall>e. edit_key (hv_mode hv) buf e \<longrightarrow> leaves_room (host_xi H) (hv_mode hv) e buf \<longrightarrow>
          (\<exists>cmds hv'. event_step H e (w, hv) = Inr (cmds, w, hv') \<and> edit_session H w (es @ [e]) hv'))"
    using run cur inv(1,2) by blast
qed

theorem editing_session_witness:
  "\<exists>cmds hv. tofu_main (ref_host\<lparr>host_term_size := Some (80, 24)\<rparr>) Map.empty None [press (CHR ''i'')] = Inr (cmds, Map.empty, hv)"
proof -
  let ?H = "ref_host\<lparr>host_term_size := Some (80, 24)\<rparr>"
  have ok: "host_ok ?H" using ref_host_ok by (simp add: host_ok_def bp_height_def)
  obtain hv where hv: "edit_session ?H Map.empty [] hv" "hv_current hv = Inr buffer_default" "hv_mode hv = normal_new"
    using session_start [OF ok, of Map.empty] by blast
  have "event_to_action normal_default_maps (press (CHR ''i'')) = Some (NInsert False)" "\<not> scroll_key (press (CHR ''i''))"
    "case press (CHR ''i'') of Resize _ _ \<Rightarrow> False | _ \<Rightarrow> True" by code_simp+
  then have key: "edit_key normal_new (buffer_default :: ref_delta buffer) (press (CHR ''i''))"
    by (simp add: edit_key_def normal_new_def edit_action_def moves_in_range_def to_count_def buffer_default_def
        from_data_and_path_def isize_max_def)
  have "case answer ref_xi normal_new (press (CHR ''i'')) buffer_default of
      Inr (_, b) \<Rightarrow> length (buf_data b) = 0 \<and> length (regions (buf_selection b)) = 1 | Inl _ \<Rightarrow> False" by code_simp
  then have "leaves_room (host_xi ?H) normal_new (press (CHR ''i'')) buffer_default"
    by (auto simp: leaves_room_def roomy_def ref_host_def isize_max_def split: sum.splits)
  with key editing_session [OF ok, of Map.empty, THEN conjunct2, rule_format, OF hv(1)] hv(2,3)
  obtain hv' where "edit_session ?H Map.empty ([] @ [press (CHR ''i'')]) hv'" by auto
  from editing_session [OF ok, of Map.empty, THEN conjunct2, rule_format, OF this] show ?thesis by auto
qed

text \<open>C18: The editor navigates without failing, through all its components: from a sound state of normal mode without a
  count, with the main caret on the screen, a terminal of five to 65000 rows and the file loaded completely, the event
  loop runs on every sequence of keys that move, extend, swap or collapse the selection. No key panics,
  every repaint returns, nothing of the buffer but the selection changes, the selection stays sorted,
  disjoint, inside the data and with one main region, and the main caret is on the screen at the end.\<close>

theorem navigation_session:
  assumes "scrollable H w hv buf" "hv_mode hv = normal_new" "main_caret_shown hv buf" "\<forall>e\<in>set es. navigation_key e"
  shows "\<exists>cmds hv' s. run_event_loop H es (w, hv) = Inr (cmds, w, hv') \<and>
    hv_current hv' = Inr (buf\<lparr>buf_selection := s\<rparr>) \<and> sel_ok (length (buf_data buf)) s \<and> main_flags s \<and>
    hv_start_offset hv' \<le> caret (regions s ! main_selection s) \<and>
    caret (regions s ! main_selection s) < snd (visible_range hv' (length (buf_data buf)))"
proof -
  have "navigating H w buf (hv_mode hv) buf"
    using assms(1-3) showing_viewable [of H w hv buf] exI [of "\<lambda>s. buf = buf\<lparr>buf_selection := s\<rparr>" "buf_selection buf"]
    by (simp add: navigating_def showing_def)
  then obtain cmds hv' buf' where run: "run_event_loop H es (w, hv) = Inr (cmds, w, hv')" "showing H w hv' buf'"
    "navigating H w buf (hv_mode hv') buf'"
    using nav.loop [of H w hv buf buf es] assms(1,3,4) by (auto simp: showing_def)
  then obtain s where buf': "buf' = buf\<lparr>buf_selection := s\<rparr>" by (auto simp: navigating_def)
  have sel: "sel_ok (length (buf_data buf)) s" "main_flags s" using run(3) by (simp_all add: navigating_def viewable_def buf')
  moreover have "hv_current hv' = Inr (buf\<lparr>buf_selection := s\<rparr>)"
    using run(2) scrollable_simps(1) [of H w hv' buf'] by (simp add: showing_def buf')
  moreover have "hv_start_offset hv' \<le> caret (regions s ! main_selection s)"
    "caret (regions s ! main_selection s) < snd (visible_range hv' (length (buf_data buf)))"
    using run(2) sel by (simp_all add: showing_def buf' main_caret_shown_def main_flags_def sel_ok_def wf_selection_def)
  ultimately show ?thesis using run(1) by blast
qed

theorem navigation_session_witness:
  "\<exists>cmds hv'. run_event_loop ref_host [press (CHR ''j''), press (CHR ''L''), press (CHR '';'')] (Map.empty, abc_view) =
    Inr (cmds, Map.empty, hv')"
proof -
  have "navigation_key (press (CHR ''j''))" "navigation_key (press (CHR ''L''))" "navigation_key (press (CHR '';''))"
    by code_simp+
  then have keys: "\<forall>e\<in>set [press (CHR ''j''), press (CHR ''L''), press (CHR '';'')]. navigation_key e" by simp
  have ok: "scrollable ref_host Map.empty abc_view abc_buffer"
    using abc_view_ok by (simp add: scrollable_def fully_loaded_def)
  have "main_caret_shown abc_view abc_buffer"
    by (rule scrollable_shown [OF ok]) (simp_all add: two_carets_def)
  from navigation_session [OF ok abc_view_simps(3) this keys] show ?thesis by blast
qed

end
